(* ===== verification/Prelude.thy ===== *)
theory Prelude
  imports Main "HOL-Library.Word"
begin

text \<open>
  Shared vocabulary of the development: the machine types of the contracts, the result type of
  fallible code, Rust's checked and saturating arithmetic, the host functions the contracts call,
  and the generic lemmas on results, lists, maps and words that the component theories rely on.
\<close>

unbundle bit_operations_syntax

section \<open>Machine types\<close>

type_synonym byte = "8 word"
type_synonym bytes = "byte list"
type_synonym u64 = "64 word"

text \<open>
  A \<^verbatim>\<open>BytesN<32>\<close> is the big-endian number its array spells, a \<^verbatim>\<open>BytesN<64>\<close> likewise; equality of
  arrays is equality of words, and the lexicographic order of arrays is the order of words.
\<close>

type_synonym bytes32 = "256 word"
type_synonym bytes64 = "512 word"

datatype address = Account bytes32 | Contract bytes32

section \<open>Results\<close>

text \<open>
  A contract call either returns or fails. A failure is a \<^verbatim>\<open>panic_with_error!\<close> with an error of the
  contract's own enum, a missing \<^verbatim>\<open>require_auth\<close>, or a trap of the host or of Rust (an overflow, an
  \<^verbatim>\<open>unwrap\<close> of an absent value, a failed cross-contract call). The host discards every
  write of a failed call, so the failing branch carries no state.
\<close>

datatype 'e failure = Panic 'e | AuthFailed | HostTrap

type_synonym ('e, 'a) result = "'e failure + 'a"

definition bind_r :: "('e, 'a) result \<Rightarrow> ('a \<Rightarrow> ('e, 'b) result) \<Rightarrow> ('e, 'b) result" where
  "bind_r r f = (case r of Inl e \<Rightarrow> Inl e | Inr x \<Rightarrow> f x)"

definition is_ok :: "('e, 'a) result \<Rightarrow> bool" where
  "is_ok r = (case r of Inl _ \<Rightarrow> False | Inr _ \<Rightarrow> True)"

text \<open>An \<^verbatim>\<open>Option\<close> that the code unwraps with \<^verbatim>\<open>unwrap_or_else(|| panic_with_error!(env, e))\<close>.\<close>

definition or_panic :: "'e \<Rightarrow> 'a option \<Rightarrow> ('e, 'a) result" where
  "or_panic e v = (case v of None \<Rightarrow> Inl (Panic e) | Some x \<Rightarrow> Inr x)"

text \<open>An \<^verbatim>\<open>Option\<close> that the code unwraps with a plain \<^verbatim>\<open>unwrap\<close>.\<close>

definition or_trap :: "'a option \<Rightarrow> ('e, 'a) result" where
  "or_trap v = (case v of None \<Rightarrow> Inl HostTrap | Some x \<Rightarrow> Inr x)"

named_theorems result_iff \<open>inversion of successful and failing results\<close>

lemma bind_r_simps [simp]:
  "bind_r (Inl e) f = Inl e"
  "bind_r (Inr x) f = f x"
  by (simp_all add: bind_r_def)

lemma bind_r_Inr_iff [result_iff]: "bind_r r f = Inr y \<longleftrightarrow> (\<exists>x. r = Inr x \<and> f x = Inr y)"
  by (cases r) auto

lemma bind_r_Inl_iff: "bind_r r f = Inl e \<longleftrightarrow> r = Inl e \<or> (\<exists>x. r = Inr x \<and> f x = Inl e)"
  by (cases r) auto

lemma bind_r_assoc: "bind_r (bind_r r f) g = bind_r r (\<lambda>x. bind_r (f x) g)"
  by (cases r) auto

lemma bind_r_cong [fundef_cong]:
  "r = r' \<Longrightarrow> (\<And>x. r' = Inr x \<Longrightarrow> f x = g x) \<Longrightarrow> bind_r r f = bind_r r' g"
  by (cases r') auto

lemma is_ok_simps [simp]: "\<not> is_ok (Inl e)" "is_ok (Inr x)"
  by (simp_all add: is_ok_def)

lemma is_ok_iff: "is_ok r \<longleftrightarrow> (\<exists>x. r = Inr x)"
  by (cases r) auto

lemma or_panic_simps [simp]: "or_panic e None = Inl (Panic e)" "or_panic e (Some x) = Inr x"
  by (simp_all add: or_panic_def)

lemma or_panic_Inr_iff [result_iff]: "or_panic e v = Inr x \<longleftrightarrow> v = Some x"
  by (cases v) auto

lemma or_trap_simps [simp]: "or_trap None = Inl HostTrap" "or_trap (Some x) = Inr x"
  by (simp_all add: or_trap_def)

lemma or_trap_Inr_iff [result_iff]: "or_trap v = Inr x \<longleftrightarrow> v = Some x"
  by (cases v) auto

lemma if_Inl_Inr_iff [result_iff]: "(if c then Inl e else r) = Inr x \<longleftrightarrow> \<not> c \<and> r = Inr x"
  by auto

text \<open>A fallible operation applied to every element of a vector, from left to right.\<close>

primrec fold_r :: "('a \<Rightarrow> 's \<Rightarrow> ('e, 's) result) \<Rightarrow> 'a list \<Rightarrow> 's \<Rightarrow> ('e, 's) result" where
  "fold_r f [] s = Inr s"
| "fold_r f (x # xs) s = bind_r (f x s) (fold_r f xs)"

lemma fold_r_invariant:
  assumes "fold_r f xs s = Inr t" and "I s"
    and "\<And>x s s'. x \<in> set xs \<Longrightarrow> I s \<Longrightarrow> f x s = Inr s' \<Longrightarrow> I s'"
  shows "I t"
  using assms by (induction xs arbitrary: s) (auto simp: result_iff)

lemma fold_r_append: "fold_r f (xs @ ys) s = bind_r (fold_r f xs s) (fold_r f ys)"
  by (induction xs arbitrary: s) (simp_all add: bind_r_assoc cong: bind_r_cong)

section \<open>Integer arithmetic\<close>

text \<open>
  The workspace builds with \<^verbatim>\<open>overflow-checks = true\<close>: plain \<^verbatim>\<open>+\<close> on a \<^verbatim>\<open>u32\<close> traps when it overflows.
  A \<^verbatim>\<open>u32\<close> is a natural number below \<open>2 ^ 32\<close>; \<^verbatim>\<open>as u32\<close> keeps the low 32 bits. An \<^verbatim>\<open>i128\<close> is an
  integer within its range, which the checked operations test.
\<close>

definition u32_max :: nat where
  "u32_max = 4294967295"

definition add_u32 :: "nat \<Rightarrow> nat \<Rightarrow> ('e, nat) result" where
  "add_u32 a b = (if a + b > u32_max then Inl HostTrap else Inr (a + b))"

definition checked_add_u32 :: "nat \<Rightarrow> nat \<Rightarrow> nat option" where
  "checked_add_u32 a b = (if a + b > u32_max then None else Some (a + b))"

definition saturating_add_u32 :: "nat \<Rightarrow> nat \<Rightarrow> nat" where
  "saturating_add_u32 a b = min u32_max (a + b)"

definition as_u32 :: "nat \<Rightarrow> nat" where
  "as_u32 n = n mod 4294967296"

definition i128_min :: int where
  "i128_min = - (2 ^ 127)"

definition i128_max :: int where
  "i128_max = 2 ^ 127 - 1"

definition in_i128 :: "int \<Rightarrow> bool" where
  "in_i128 x = (i128_min \<le> x \<and> x \<le> i128_max)"

definition checked_i128 :: "int \<Rightarrow> int option" where
  "checked_i128 x = (if in_i128 x then Some x else None)"

definition saturating_i128 :: "int \<Rightarrow> int" where
  "saturating_i128 x = max i128_min (min i128_max x)"

text \<open>Rust's integer division truncates towards zero.\<close>

definition tdiv :: "int \<Rightarrow> int \<Rightarrow> int" where
  "tdiv a b = sgn a * sgn b * (\<bar>a\<bar> div \<bar>b\<bar>)"

definition saturating_add_u64 :: "u64 \<Rightarrow> u64 \<Rightarrow> u64" where
  "saturating_add_u64 a b = (if unat a + unat b < 2 ^ 64 then a + b else - 1)"

definition saturating_sub_u64 :: "u64 \<Rightarrow> u64 \<Rightarrow> u64" where
  "saturating_sub_u64 a b = (if a < b then 0 else a - b)"

definition checked_add_u64 :: "u64 \<Rightarrow> u64 \<Rightarrow> u64 option" where
  "checked_add_u64 a b = (if unat a + unat b < 2 ^ 64 then Some (a + b) else None)"

lemma tdiv_nonneg: "0 \<le> a \<Longrightarrow> 0 < b \<Longrightarrow> tdiv a b = a div b"
  by (cases "a = 0") (simp_all add: tdiv_def)

lemma add_u32_Inr_iff [result_iff]: "add_u32 a b = Inr c \<longleftrightarrow> c = a + b \<and> a + b \<le> u32_max"
  by (auto simp: add_u32_def)

lemma unat_checked_add_u64: "checked_add_u64 a b = Some c \<Longrightarrow> unat c = unat a + unat b"
  by (auto simp: checked_add_u64_def unat_word_ariths split: if_splits)

lemma saturating_sub_u64_le: "saturating_sub_u64 a b \<le> a"
  by (simp add: saturating_sub_u64_def word_sub_le linorder_not_less)

lemma unat_saturating_sub_u64: "unat (saturating_sub_u64 a b) = unat a - unat b"
  by (simp add: saturating_sub_u64_def word_less_nat_alt unat_sub_if_size)

lemma as_u32_bound: "as_u32 n \<le> u32_max"
  by (simp add: as_u32_def u32_max_def less_Suc_eq_le [symmetric])

lemma as_u32_id: "n \<le> u32_max \<Longrightarrow> as_u32 n = n"
  by (simp add: as_u32_def u32_max_def)

section \<open>Big-endian byte encodings\<close>

text \<open>\<^verbatim>\<open>u64::to_be_bytes\<close> and \<^verbatim>\<open>u64::from_be_bytes\<close> of the Rust standard library, for any width.\<close>

primrec be_bytes :: "nat \<Rightarrow> nat \<Rightarrow> bytes" where
  "be_bytes 0 n = []"
| "be_bytes (Suc k) n = be_bytes k (n div 256) @ [word_of_nat (n mod 256)]"

definition be_value :: "bytes \<Rightarrow> nat" where
  "be_value bs = foldl (\<lambda>acc b. acc * 256 + unat b) 0 bs"

definition u64_to_be_bytes :: "u64 \<Rightarrow> bytes" where
  "u64_to_be_bytes w = be_bytes 8 (unat w)"

definition u64_from_be_bytes :: "bytes \<Rightarrow> u64" where
  "u64_from_be_bytes bs = word_of_nat (be_value bs)"

definition bytes32_to_array :: "bytes32 \<Rightarrow> bytes" where
  "bytes32_to_array w = be_bytes 32 (unat w)"

definition bytes32_of_array :: "bytes \<Rightarrow> bytes32" where
  "bytes32_of_array bs = word_of_nat (be_value bs)"

definition bytes64_to_array :: "bytes64 \<Rightarrow> bytes" where
  "bytes64_to_array w = be_bytes 64 (unat w)"

definition bytes64_of_array :: "bytes \<Rightarrow> bytes64" where
  "bytes64_of_array bs = word_of_nat (be_value bs)"

lemma length_be_bytes [simp]: "length (be_bytes k n) = k"
  by (induction k arbitrary: n) simp_all

lemma be_value_Nil [simp]: "be_value [] = 0"
  by (simp add: be_value_def)

lemma be_value_snoc [simp]: "be_value (bs @ [b]) = be_value bs * 256 + unat b"
  by (simp add: be_value_def)

lemma be_value_bytes: "be_value (be_bytes k n) = n mod 256 ^ k"
proof (induction k arbitrary: n)
  case (Suc k)
  have "unat (word_of_nat (n mod 256) :: byte) = n mod 256"
    by (simp add: unat_of_nat)
  moreover have "n mod (256 * 256 ^ k) = 256 * (n div 256 mod 256 ^ k) + n mod 256"
    by (rule mod_mult2_eq)
  ultimately show ?case
    using Suc by simp
qed simp

lemma unat_u64_less: "unat (w :: u64) < 2 ^ 64"
proof -
  have "unat w < 2 ^ LENGTH(64)"
    by (rule unsigned_less)
  then show ?thesis
    by simp
qed

lemma u64_be_roundtrip [simp]: "u64_from_be_bytes (u64_to_be_bytes w) = w"
proof -
  have "unat w < 256 ^ 8"
    using unat_u64_less [of w] by simp
  then show ?thesis
    by (simp only: u64_from_be_bytes_def u64_to_be_bytes_def be_value_bytes mod_less
        of_nat_unat ucast_id)
qed

lemma bytes32_array_roundtrip [simp]: "bytes32_of_array (bytes32_to_array w) = w"
proof -
  have "unat w < 2 ^ LENGTH(256)"
    by (rule unsigned_less)
  then have "unat w < 256 ^ 32"
    by simp
  then show ?thesis
    by (simp only: bytes32_of_array_def bytes32_to_array_def be_value_bytes mod_less
        of_nat_unat ucast_id)
qed

lemma length_u64_to_be_bytes [simp]: "length (u64_to_be_bytes w) = 8"
  by (simp add: u64_to_be_bytes_def)

lemma length_bytes32_to_array [simp]: "length (bytes32_to_array w) = 32"
  by (simp add: bytes32_to_array_def)

lemma length_bytes64_to_array [simp]: "length (bytes64_to_array w) = 64"
  by (simp add: bytes64_to_array_def)

lemma bytes32_to_array_inject [simp]: "bytes32_to_array a = bytes32_to_array b \<longleftrightarrow> a = b"
  by (metis bytes32_array_roundtrip)

lemma u64_to_be_bytes_inject [simp]: "u64_to_be_bytes a = u64_to_be_bytes b \<longleftrightarrow> a = b"
  by (metis u64_be_roundtrip)

lemma unat_byte_less: "unat (b :: byte) < 256"
proof -
  have "unat b < 2 ^ LENGTH(8)"
    by (rule unsigned_less)
  then show ?thesis
    by simp
qed

lemma be_bytes_value: "be_bytes (length bs) (be_value bs) = bs"
proof (induction bs rule: rev_induct)
  case (snoc b bs)
  have "(be_value bs * 256 + unat b) div 256 = be_value bs" and "(be_value bs * 256 + unat b) mod 256 = unat b"
    using unat_byte_less [of b] by simp_all
  with snoc show ?case
    by simp
qed simp

lemma be_value_less: "be_value bs < 256 ^ length bs"
proof (induction bs rule: rev_induct)
  case (snoc b bs)
  with unat_byte_less [of b] show ?case
    by simp
qed simp

lemma unat_word_of_be_value:
  "256 ^ length bs \<le> (2 :: nat) ^ LENGTH('w::len) \<Longrightarrow> unat (word_of_nat (be_value bs) :: 'w word) = be_value bs"
  using be_value_less [of bs] by (simp add: unat_of_nat)

lemma bytes32_to_of_array: "length bs = 32 \<Longrightarrow> bytes32_to_array (bytes32_of_array bs) = bs"
  using unat_word_of_be_value [of bs, where 'w = 256] be_bytes_value [of bs]
  by (simp add: bytes32_to_array_def bytes32_of_array_def)

lemma u64_to_from_be_bytes: "length bs = 8 \<Longrightarrow> u64_to_be_bytes (u64_from_be_bytes bs) = bs"
  using unat_word_of_be_value [of bs, where 'w = 64] be_bytes_value [of bs]
  by (simp add: u64_to_be_bytes_def u64_from_be_bytes_def)

lemma bytes64_to_of_array: "length bs = 64 \<Longrightarrow> bytes64_to_array (bytes64_of_array bs) = bs"
  using unat_word_of_be_value [of bs, where 'w = 512] be_bytes_value [of bs]
  by (simp add: bytes64_to_array_def bytes64_of_array_def)

lemma bytes64_array_roundtrip [simp]: "bytes64_of_array (bytes64_to_array w) = w"
proof -
  have "unat w < 2 ^ LENGTH(512)"
    by (rule unsigned_less)
  then have "unat w < 256 ^ 64"
    by simp
  then show ?thesis
    by (simp only: bytes64_of_array_def bytes64_to_array_def be_value_bytes mod_less
        of_nat_unat ucast_id)
qed

end
