(* ===== verification/Common_Types.thy ===== *)
theory Common_Types
  imports Prelude
begin

text \<open>
  The shared types of \<^verbatim>\<open>packages/soroban-sas-common\<close> (\<^verbatim>\<open>lib.rs\<close> and \<^verbatim>\<open>errors.rs\<close>): the error enum, the
  attestation and schema records, the compact 25-byte storage layout of an attestation, the
  content-addressed UIDs, and the host functions (hashing, signature check, XDR encoding) that the
  contracts call.
\<close>

section \<open>Errors\<close>

datatype (plugins only: code size) sas_error =
    AlreadyInitialized | NotInitialized
  | InvalidSchema | EmptySchema | InvalidSchemaDefinition | SchemaAlreadyExists | SchemaNotFound
  | AttestationNotFound | AlreadyRevoked | NotRevocable | AlreadyExpired | DuplicateAttestation
  | InvalidRevocability
  | Unauthorized | InvalidSignature | DelegationReplay | UnauthorizedAttester
  | InvalidTTL | InvalidRecipient | InvalidValue | IncompatibleDependency | BatchTooLarge
  | AttesterKeyAlreadyRegistered | AttesterKeyNotFound | AttesterKeyRevoked | ResolverRejected
  | FeeMismatch | IndexerUnavailable | CountMetadataExpired | InvalidRefUid | PayloadTooLarge
  | TreasuryNotSet | InvalidUID | LimitExceeded | InvalidTimeRange | InvalidExpirationTime
  | InvalidTimestamp | TimestampAnchorNotFound | SchemaQuarantined | CooldownActive | InvalidToken
  | RateLimitExceeded | AutoPruneDisabled
  | ContractPaused | ProtocolPaused | InsufficientFee | DelegationScopeDenied | InvalidZKProof
  | NullifierAlreadyUsed | Reentrancy

type_synonym 'a sas_result = "(sas_error, 'a) result"

section \<open>Host functions\<close>

text \<open>
  The Soroban host provides hashing, Ed25519 verification and the XDR encoding of values. They are
  parameters of the model: a record of functions that every definition depending on them takes.
  \<open>scval\<close> lists the values that the contracts encode with \<^verbatim>\<open>to_xdr\<close>.
\<close>

type_synonym uid = bytes32

datatype scval =
    XUid uid | XAddress address | XBytes bytes | XString bytes | XBytes32 bytes32
  | XU64 u64 | XU32 nat | XI128 int

record host =
  sha256 :: "bytes \<Rightarrow> bytes32"
  keccak256 :: "bytes \<Rightarrow> bytes32"
  ed25519_valid :: "bytes32 \<Rightarrow> bytes \<Rightarrow> bytes64 \<Rightarrow> bool"
  to_xdr :: "scval \<Rightarrow> bytes"

text \<open>
  The ledger context of one invocation: the ledger's close time and sequence number, the network
  and contract identities, and the addresses whose authorization the transaction carries.
\<close>

record ledger_env =
  timestamp :: u64
  sequence :: nat
  network_id :: bytes32
  current_contract :: address
  authorized :: "address \<Rightarrow> bool"

definition require_auth :: "ledger_env \<Rightarrow> address \<Rightarrow> ('e, unit) result" where
  "require_auth env who = (if authorized env who then Inr () else Inl AuthFailed)"

lemma require_auth_Inr_iff [result_iff]: "require_auth env who = Inr u \<longleftrightarrow> authorized env who"
  by (simp add: require_auth_def)

section \<open>Constants and UIDs\<close>

definition LEDGERS_IN_ONE_YEAR :: nat where
  "LEDGERS_IN_ONE_YEAR = 6307200"

definition MAX_ATTESTATION_DATA_BYTES :: nat where
  "MAX_ATTESTATION_DATA_BYTES = 10000"

definition MAX_MULTI_ATTEST :: nat where
  "MAX_MULTI_ATTEST = 100"

definition schema_uid :: "host \<Rightarrow> bytes \<Rightarrow> address \<Rightarrow> bool \<Rightarrow> uid" where
  "schema_uid h schema resolver revocable =
     sha256 h (to_xdr h (XString schema) @ to_xdr h (XAddress resolver) @ [of_bool revocable])"

definition attestation_uid :: "host \<Rightarrow> uid \<Rightarrow> address \<Rightarrow> address \<Rightarrow> bytes \<Rightarrow> uid" where
  "attestation_uid h suid recipient attester payload =
     sha256 h (to_xdr h (XUid suid) @ to_xdr h (XAddress recipient) @
               to_xdr h (XAddress attester) @ to_xdr h (XBytes payload))"

section \<open>Records\<close>

record attester_key_record =
  k_public_key :: bytes32
  k_version :: nat
  k_revoked :: bool

datatype revocation_policy = RevocableOnly | IrrevocableOnly | Permissive

definition policy_from_bool :: "bool \<Rightarrow> revocation_policy" where
  "policy_from_bool revocable = (if revocable then Permissive else IrrevocableOnly)"

datatype schema_status = Active | Deprecated | Quarantined

record schema_record =
  sr_uid :: uid
  sr_resolver :: address
  sr_revocable :: bool
  sr_schema :: bytes
  sr_deprecated :: bool
  sr_parent_schema_uid :: "uid option"

record attestation =
  a_uid :: uid
  a_schema_uid :: uid
  a_time :: u64
  a_expiration_time :: u64
  a_revocation_time :: u64
  a_ref_uid :: uid
  a_recipient :: address
  a_attester :: address
  a_revocable :: bool
  a_data :: bytes
  a_valid_from :: u64

record schema_fee_config =
  sf_fee_type :: nat
  sf_fixed_amount :: int
  sf_basis_points :: nat

record fee_ceilings =
  fc_max_fixed_fee :: int
  fc_max_basis_points :: nat

datatype expiration_status = Perpetual | Expiring

section \<open>The compact attestation layout\<close>

record compact_attestation =
  c_schema_uid :: uid
  c_ref_uid :: uid
  c_recipient :: address
  c_attester :: address
  c_packed_meta :: bytes
  c_data :: bytes

definition FLAG_REVOCABLE :: byte where "FLAG_REVOCABLE = 1"
definition FLAG_REVOKED :: byte where "FLAG_REVOKED = 2"
definition FLAG_DEPRECATED :: byte where "FLAG_DEPRECATED = 4"

definition pack_meta :: "u64 \<Rightarrow> u64 \<Rightarrow> u64 \<Rightarrow> bool \<Rightarrow> bool \<Rightarrow> bytes" where
  "pack_meta time expiration_time revocation_time revocable deprecated =
     (let flags = 0;
          flags = (if revocable then flags OR FLAG_REVOCABLE else flags);
          flags = (if revocation_time > 0 then flags OR FLAG_REVOKED else flags);
          flags = (if deprecated then flags OR FLAG_DEPRECATED else flags)
      in [flags] @ u64_to_be_bytes time @ u64_to_be_bytes expiration_time @
         u64_to_be_bytes revocation_time)"

definition unpack_meta :: "bytes \<Rightarrow> u64 \<times> u64 \<times> u64 \<times> bool \<times> bool \<times> bool" where
  "unpack_meta buf =
     (let flags = buf ! 0;
          revocable = (flags AND FLAG_REVOCABLE) \<noteq> 0;
          revoked = (flags AND FLAG_REVOKED) \<noteq> 0;
          deprecated = (flags AND FLAG_DEPRECATED) \<noteq> 0;
          time = u64_from_be_bytes (take 8 (drop 1 buf));
          expiration_time = u64_from_be_bytes (take 8 (drop 9 buf));
          revocation_time = u64_from_be_bytes (take 8 (drop 17 buf))
      in (time, expiration_time, revocation_time, revocable, revoked, deprecated))"

definition from_attestation :: "attestation \<Rightarrow> compact_attestation" where
  "from_attestation a =
     \<lparr> c_schema_uid = a_schema_uid a, c_ref_uid = a_ref_uid a, c_recipient = a_recipient a,
       c_attester = a_attester a,
       c_packed_meta = pack_meta (a_time a) (a_expiration_time a) (a_revocation_time a)
                         (a_revocable a) False,
       c_data = a_data a \<rparr>"

definition to_attestation :: "compact_attestation \<Rightarrow> uid \<Rightarrow> attestation" where
  "to_attestation c u =
     (let (time, expiration_time, revocation_time, revocable, _, _) = unpack_meta (c_packed_meta c)
      in \<lparr> a_uid = u, a_schema_uid = c_schema_uid c, a_time = time,
           a_expiration_time = expiration_time, a_revocation_time = revocation_time,
           a_ref_uid = c_ref_uid c, a_recipient = c_recipient c, a_attester = c_attester c,
           a_revocable = revocable, a_data = c_data c, a_valid_from = 0 \<rparr>)"

definition is_revoked :: "compact_attestation \<Rightarrow> bool" where
  "is_revoked c = (let (_, _, _, _, revoked, _) = unpack_meta (c_packed_meta c) in revoked)"

definition is_deprecated :: "compact_attestation \<Rightarrow> bool" where
  "is_deprecated c = (let (_, _, _, _, _, deprecated) = unpack_meta (c_packed_meta c) in deprecated)"

definition set_revocation_time :: "u64 \<Rightarrow> compact_attestation \<Rightarrow> compact_attestation" where
  "set_revocation_time new_revocation_time c =
     (let (time, expiration_time, _, revocable, _, deprecated) = unpack_meta (c_packed_meta c)
      in c\<lparr>c_packed_meta :=
             pack_meta time expiration_time new_revocation_time revocable deprecated\<rparr>)"

definition set_time :: "u64 \<Rightarrow> compact_attestation \<Rightarrow> compact_attestation" where
  "set_time new_time c =
     (let (_, expiration_time, revocation_time, revocable, _, deprecated) =
            unpack_meta (c_packed_meta c)
      in c\<lparr>c_packed_meta :=
             pack_meta new_time expiration_time revocation_time revocable deprecated\<rparr>)"

definition set_deprecated :: "bool \<Rightarrow> compact_attestation \<Rightarrow> compact_attestation" where
  "set_deprecated new_deprecated c =
     (let (time, expiration_time, revocation_time, revocable, _, _) = unpack_meta (c_packed_meta c)
      in c\<lparr>c_packed_meta :=
             pack_meta time expiration_time revocation_time revocable new_deprecated\<rparr>)"

section \<open>Lemmas\<close>

lemma length_pack_meta [simp]: "length (pack_meta t e r rv d) = 25"
  by (simp add: pack_meta_def Let_def)

lemma unpack_pack_meta [simp]: "unpack_meta (pack_meta t e r rv d) = (t, e, r, rv, r > 0, d)"
  by (simp add: pack_meta_def unpack_meta_def Let_def FLAG_REVOCABLE_def FLAG_REVOKED_def
      FLAG_DEPRECATED_def)

lemma to_from_attestation [simp]:
  "to_attestation (from_attestation a) (a_uid a) = a\<lparr>a_valid_from := 0\<rparr>"
  by (cases a) (simp add: to_attestation_def from_attestation_def)

lemma to_from_attestation_at [simp]:
  "to_attestation (from_attestation a) u = a\<lparr>a_uid := u, a_valid_from := 0\<rparr>"
  by (cases a) (simp add: to_attestation_def from_attestation_def)

lemma is_revoked_from_attestation:
  "is_revoked (from_attestation a) \<longleftrightarrow> a_revocation_time a > 0"
  by (simp add: is_revoked_def from_attestation_def)

lemma compact_setters_view:
  "to_attestation (set_revocation_time r c) u = (to_attestation c u)\<lparr>a_revocation_time := r\<rparr>"
  "to_attestation (set_time t c) u = (to_attestation c u)\<lparr>a_time := t\<rparr>"
  "to_attestation (set_deprecated d c) u = to_attestation c u"
  "is_deprecated (set_deprecated d c) = d"
  "is_revoked (set_revocation_time r c) \<longleftrightarrow> r > 0"
  by (simp_all add: to_attestation_def set_revocation_time_def set_time_def set_deprecated_def
      is_deprecated_def is_revoked_def split_def Let_def)

end
