(* ===== verification/Typed_Data.thy ===== *)
theory Typed_Data
  imports Common_Types
begin

text \<open>
  The signed payloads of \<^verbatim>\<open>packages/soroban-sas-common/src/typed_data.rs\<close> and the FROST group check of
  \<^verbatim>\<open>frost.rs\<close>: the digests an issuer signs, the canonical-scalar test and the structural match of an
  account address with its key. The lemmas show what each digest binds: two equal digests come from
  equal committed fields, or exhibit a SHA-256 collision between two listed preimages.
\<close>

section \<open>Digests\<close>

definition ascii :: "string \<Rightarrow> bytes" where
  "ascii s = map (\<lambda>c. word_of_nat (of_char c)) s"

definition PAYLOAD_PREFIX :: bytes where
  "PAYLOAD_PREFIX = [0x19] @ ascii ''SorobanSAS'' @ [0x01]"

definition DOMAIN_TYPE_TAG :: bytes where
  "DOMAIN_TYPE_TAG = ascii ''SorobanSAS Domain v1(network_id,contract,nonce)''"

definition ATTESTATION_TYPE_TAG :: bytes where
  "ATTESTATION_TYPE_TAG = ascii ''SorobanSAS Attestation v1(uid,schema_uid,time,expiration_time,ref_uid,recipient,attester,revocable,data)''"

definition DELEGATED_REVOCATION_TYPE_TAG :: bytes where
  "DELEGATED_REVOCATION_TYPE_TAG = ascii ''SorobanSAS DelegatedRevocation v1(uid,attester)''"

definition DELEGATED_REPLACEMENT_CONSENT_TYPE_TAG :: bytes where
  "DELEGATED_REPLACEMENT_CONSENT_TYPE_TAG = ascii ''SorobanSAS DelegatedReplacementConsent v1(network_id,contract,attester_nonce,recipient_nonce,old_uid,new_attestation)''"

definition DELEGATED_NONCE_INVALIDATION_TYPE_TAG :: bytes where
  "DELEGATED_NONCE_INVALIDATION_TYPE_TAG = ascii ''SAS:delegated_nonce_invalidation:v1''"

definition SCOPED_DELEGATION_TAG :: bytes where
  "SCOPED_DELEGATION_TAG = ascii ''SorobanSAS ScopedDelegation v1''"

record replacement_consent_domain =
  rc_network_id :: bytes32
  rc_contract :: address
  rc_attester_nonce :: u64
  rc_recipient_nonce :: u64

record replacement_approval =
  ra_nonce :: u64
  ra_signature :: bytes64
  ra_public_key :: bytes32

record attestation_domain =
  d_network_id :: bytes32
  d_contract :: address
  d_nonce :: u64

datatype delegation_schema_scope = AnySchema | OnlySchema uid

record delegation_authorization =
  da_schema_scope :: delegation_schema_scope
  da_permissions :: nat
  da_valid_until :: u64

definition hash_domain_preimage :: "host \<Rightarrow> attestation_domain \<Rightarrow> bytes" where
  "hash_domain_preimage h d =
     DOMAIN_TYPE_TAG @ bytes32_to_array (d_network_id d) @ to_xdr h (XAddress (d_contract d)) @
     u64_to_be_bytes (d_nonce d)"

definition hash_domain :: "host \<Rightarrow> attestation_domain \<Rightarrow> bytes32" where
  "hash_domain h d = sha256 h (hash_domain_preimage h d)"

definition attestation_struct_preimage :: "host \<Rightarrow> attestation \<Rightarrow> bytes" where
  "attestation_struct_preimage h a =
     ATTESTATION_TYPE_TAG @ bytes32_to_array (a_uid a) @ bytes32_to_array (a_schema_uid a) @
     u64_to_be_bytes (a_time a) @ u64_to_be_bytes (a_expiration_time a) @
     bytes32_to_array (a_ref_uid a) @ to_xdr h (XAddress (a_recipient a)) @
     to_xdr h (XAddress (a_attester a)) @ [of_bool (a_revocable a)] @
     bytes32_to_array (sha256 h (a_data a))"

definition hash_attestation_struct :: "host \<Rightarrow> attestation \<Rightarrow> bytes32" where
  "hash_attestation_struct h a = sha256 h (attestation_struct_preimage h a)"

definition offchain_preimage :: "host \<Rightarrow> attestation \<Rightarrow> attestation_domain \<Rightarrow> bytes" where
  "offchain_preimage h a d =
     PAYLOAD_PREFIX @ bytes32_to_array (hash_domain h d) @
     bytes32_to_array (hash_attestation_struct h a)"

definition hash_offchain_attestation :: "host \<Rightarrow> attestation \<Rightarrow> attestation_domain \<Rightarrow> bytes32" where
  "hash_offchain_attestation h a d = sha256 h (offchain_preimage h a d)"

definition scoped_preimage ::
  "host \<Rightarrow> attestation \<Rightarrow> attestation_domain \<Rightarrow> delegation_authorization \<Rightarrow> bytes" where
  "scoped_preimage h a d z =
     SCOPED_DELEGATION_TAG @ bytes32_to_array (hash_offchain_attestation h a d) @
     (case da_schema_scope z of
        OnlySchema s \<Rightarrow> [1] @ bytes32_to_array s
      | AnySchema \<Rightarrow> [0]) @
     be_bytes 4 (da_permissions z) @ u64_to_be_bytes (da_valid_until z)"

definition hash_scoped_attestation ::
  "host \<Rightarrow> attestation \<Rightarrow> attestation_domain \<Rightarrow> delegation_authorization \<Rightarrow> bytes32" where
  "hash_scoped_attestation h a d z = sha256 h (scoped_preimage h a d z)"

definition revocation_preimage :: "host \<Rightarrow> uid \<Rightarrow> address \<Rightarrow> attestation_domain \<Rightarrow> bytes" where
  "revocation_preimage h u attester d =
     DELEGATED_REVOCATION_TYPE_TAG @ bytes32_to_array (hash_domain h d) @ bytes32_to_array u @
     to_xdr h (XAddress attester)"

definition hash_delegated_revocation :: "host \<Rightarrow> uid \<Rightarrow> address \<Rightarrow> attestation_domain \<Rightarrow> bytes32" where
  "hash_delegated_revocation h u attester d = sha256 h (revocation_preimage h u attester d)"

definition consent_preimage ::
  "host \<Rightarrow> uid \<Rightarrow> attestation \<Rightarrow> replacement_consent_domain \<Rightarrow> bytes" where
  "consent_preimage h old_uid new d =
     DELEGATED_REPLACEMENT_CONSENT_TYPE_TAG @ bytes32_to_array (rc_network_id d) @
     to_xdr h (XAddress (rc_contract d)) @ u64_to_be_bytes (rc_attester_nonce d) @
     u64_to_be_bytes (rc_recipient_nonce d) @ bytes32_to_array old_uid @
     bytes32_to_array (hash_attestation_struct h new)"

definition hash_delegated_replacement_consent ::
  "host \<Rightarrow> uid \<Rightarrow> attestation \<Rightarrow> replacement_consent_domain \<Rightarrow> bytes32" where
  "hash_delegated_replacement_consent h old_uid new d = sha256 h (consent_preimage h old_uid new d)"

definition nonce_invalidation_preimage ::
  "host \<Rightarrow> address \<Rightarrow> u64 \<Rightarrow> u64 \<Rightarrow> attestation_domain \<Rightarrow> bytes" where
  "nonce_invalidation_preimage h attester min_nonce max_nonce d =
     DELEGATED_NONCE_INVALIDATION_TYPE_TAG @ bytes32_to_array (hash_domain h d) @
     to_xdr h (XAddress attester) @ u64_to_be_bytes min_nonce @ u64_to_be_bytes max_nonce"

definition hash_delegated_nonce_invalidation ::
  "host \<Rightarrow> address \<Rightarrow> u64 \<Rightarrow> u64 \<Rightarrow> attestation_domain \<Rightarrow> bytes32" where
  "hash_delegated_nonce_invalidation h attester min_nonce max_nonce d =
     sha256 h (nonce_invalidation_preimage h attester min_nonce max_nonce d)"

section \<open>Signatures\<close>

definition ED25519_GROUP_ORDER_L_LE :: bytes where
  "ED25519_GROUP_ORDER_L_LE =
     [0xed, 0xd3, 0xf5, 0x5c, 0x1a, 0x63, 0x12, 0x58, 0xd6, 0x9c, 0xf7, 0xa2, 0xde, 0xf9, 0xde, 0x14,
      0x00, 0x00, 0x00, 0x00, 0x00, 0x00, 0x00, 0x00, 0x00, 0x00, 0x00, 0x00, 0x00, 0x00, 0x00, 0x10]"

text \<open>The order of Rust byte arrays: lexicographic.\<close>

fun array_less :: "bytes \<Rightarrow> bytes \<Rightarrow> bool" where
  "array_less [] ys = (ys \<noteq> [])"
| "array_less (x # xs) [] = False"
| "array_less (x # xs) (y # ys) = (x < y \<or> x = y \<and> array_less xs ys)"

definition signature_scalar_is_canonical :: "bytes64 \<Rightarrow> bool" where
  "signature_scalar_is_canonical signature =
     (let sig = bytes64_to_array signature;
          s_be = rev (drop 32 sig);
          l_be = rev ED25519_GROUP_ORDER_L_LE
      in array_less s_be l_be)"

definition verify_offchain_signature ::
  "host \<Rightarrow> bytes32 \<Rightarrow> bytes32 \<Rightarrow> bytes64 \<Rightarrow> unit sas_result" where
  "verify_offchain_signature h payload_hash public_key signature =
     (if \<not> signature_scalar_is_canonical signature then Inl (Panic InvalidSignature)
      else if \<not> ed25519_valid h public_key (bytes32_to_array payload_hash) signature then Inl HostTrap
      else Inr ())"

definition ACCOUNT_ADDRESS_XDR_PREFIX :: bytes where
  "ACCOUNT_ADDRESS_XDR_PREFIX = [0, 0, 0, 18, 0, 0, 0, 0, 0, 0, 0, 0]"

definition attester_matches_key :: "host \<Rightarrow> address \<Rightarrow> bytes32 \<Rightarrow> bool" where
  "attester_matches_key h attester public_key =
     (to_xdr h (XAddress attester) = ACCOUNT_ADDRESS_XDR_PREFIX @ bytes32_to_array public_key)"

record frost_group =
  fg_group_public_key :: bytes32
  fg_threshold :: nat
  fg_max_signers :: nat

definition MAX_FROST_SIGNERS :: nat where "MAX_FROST_SIGNERS = 255"
definition MIN_FROST_THRESHOLD :: nat where "MIN_FROST_THRESHOLD = 2"

definition validate_frost_group :: "frost_group \<Rightarrow> unit sas_result" where
  "validate_frost_group g =
     (if fg_max_signers g > MAX_FROST_SIGNERS then Inl (Panic LimitExceeded)
      else if fg_threshold g < MIN_FROST_THRESHOLD \<or> fg_threshold g > fg_max_signers g
              \<or> fg_group_public_key g = 0
      then Inl (Panic InvalidValue)
      else Inr ())"

definition verify_frost_aggregate_signature ::
  "host \<Rightarrow> bytes32 \<Rightarrow> frost_group \<Rightarrow> bytes64 \<Rightarrow> unit sas_result" where
  "verify_frost_aggregate_signature h payload_hash g signature =
     verify_offchain_signature h payload_hash (fg_group_public_key g) signature"

section \<open>What the host is relied on for\<close>

text \<open>
  The XDR encoding of an address (Stellar's \<^verbatim>\<open>ScVal\<close>: discriminant 18, then the kind of the address,
  then its 32 bytes), and a collision of the host's SHA-256 on two given inputs.
\<close>

definition xdr_address_shape :: "host \<Rightarrow> bool" where
  "xdr_address_shape h =
     ((\<forall>k. to_xdr h (XAddress (Account k)) = ACCOUNT_ADDRESS_XDR_PREFIX @ bytes32_to_array k) \<and>
      (\<forall>c. to_xdr h (XAddress (Contract c)) = [0, 0, 0, 18, 0, 0, 0, 1] @ bytes32_to_array c))"

definition sha256_collision :: "host \<Rightarrow> bytes \<Rightarrow> bytes \<Rightarrow> bool" where
  "sha256_collision h x y = (x \<noteq> y \<and> sha256 h x = sha256 h y)"

lemma sha256_eqD: "sha256 h x = sha256 h y \<Longrightarrow> x = y \<or> sha256_collision h x y"
  by (auto simp: sha256_collision_def)

lemma xdr_address_delimited:
  assumes "xdr_address_shape h"
    and "to_xdr h (XAddress a) @ r = to_xdr h (XAddress b) @ r'"
  shows "a = b \<and> r = r'"
  using assms
  by (cases a; cases b) (auto simp: xdr_address_shape_def ACCOUNT_ADDRESS_XDR_PREFIX_def)

lemma xdr_address_inject:
  "xdr_address_shape h \<Longrightarrow> to_xdr h (XAddress a) = to_xdr h (XAddress b) \<longleftrightarrow> a = b"
  using xdr_address_delimited [of h a "[]" b "[]"] by auto

section \<open>What the digests bind\<close>

definition signed_view :: "attestation \<Rightarrow> attestation" where
  "signed_view a = a\<lparr>a_revocation_time := 0, a_valid_from := 0\<rparr>"

lemma hash_domain_binds:
  assumes "xdr_address_shape h" and "hash_domain h d = hash_domain h e"
  shows "d = e \<or> sha256_collision h (hash_domain_preimage h d) (hash_domain_preimage h e)"
proof -
  have "d = e" if "hash_domain_preimage h d = hash_domain_preimage h e"
    using that xdr_address_delimited [OF assms(1), of "d_contract d" _ "d_contract e"]
    by (cases d; cases e) (auto simp: hash_domain_preimage_def)
  with assms(2) show ?thesis
    by (auto simp: hash_domain_def dest: sha256_eqD)
qed

lemma attestation_struct_preimage_inject:
  assumes "xdr_address_shape h"
    and "attestation_struct_preimage h a = attestation_struct_preimage h b"
  shows "signed_view a = signed_view b \<or> sha256_collision h (a_data a) (a_data b)"
proof -
  from assms(2) have eqs:
    "a_uid a = a_uid b" "a_schema_uid a = a_schema_uid b" "a_time a = a_time b"
    "a_expiration_time a = a_expiration_time b" "a_ref_uid a = a_ref_uid b"
    and tail: "to_xdr h (XAddress (a_recipient a)) @ to_xdr h (XAddress (a_attester a)) @
      [of_bool (a_revocable a)] @ bytes32_to_array (sha256 h (a_data a)) =
      to_xdr h (XAddress (a_recipient b)) @ to_xdr h (XAddress (a_attester b)) @
      [of_bool (a_revocable b)] @ bytes32_to_array (sha256 h (a_data b))"
    by (simp_all add: attestation_struct_preimage_def)
  from xdr_address_delimited [OF assms(1) tail] have rcpt: "a_recipient a = a_recipient b"
    and tail': "to_xdr h (XAddress (a_attester a)) @
      [of_bool (a_revocable a)] @ bytes32_to_array (sha256 h (a_data a)) =
      to_xdr h (XAddress (a_attester b)) @
      [of_bool (a_revocable b)] @ bytes32_to_array (sha256 h (a_data b))"
    by simp_all
  from xdr_address_delimited [OF assms(1) tail'] have att: "a_attester a = a_attester b"
    and flag: "a_revocable a = a_revocable b"
    and hash: "sha256 h (a_data a) = sha256 h (a_data b)"
    by (auto split: if_splits)
  from sha256_eqD [OF hash] eqs rcpt att flag show ?thesis
    by (cases a; cases b) (auto simp: signed_view_def)
qed

lemma offchain_preimage_inject:
  "offchain_preimage h a d = offchain_preimage h b e \<Longrightarrow>
   hash_domain h d = hash_domain h e \<and> hash_attestation_struct h a = hash_attestation_struct h b"
  by (simp add: offchain_preimage_def)

lemma offchain_digest_binds:
  assumes "xdr_address_shape h"
    and "hash_offchain_attestation h a d = hash_offchain_attestation h b e"
  shows "d = e \<and> signed_view a = signed_view b
    \<or> sha256_collision h (offchain_preimage h a d) (offchain_preimage h b e)
    \<or> sha256_collision h (hash_domain_preimage h d) (hash_domain_preimage h e)
    \<or> sha256_collision h (attestation_struct_preimage h a) (attestation_struct_preimage h b)
    \<or> sha256_collision h (a_data a) (a_data b)"
  using assms(2) sha256_eqD [of h "offchain_preimage h a d" "offchain_preimage h b e"]
    offchain_preimage_inject [of h a d b e] hash_domain_binds [OF assms(1), of d e]
    sha256_eqD [of h "attestation_struct_preimage h a" "attestation_struct_preimage h b"]
    attestation_struct_preimage_inject [OF assms(1), of a b]
  by (auto simp: hash_offchain_attestation_def hash_attestation_struct_def)

lemma hash_attestation_struct_signed_view:
  "signed_view a = signed_view b \<Longrightarrow> hash_attestation_struct h a = hash_attestation_struct h b"
  by (cases a; cases b)
    (simp add: signed_view_def hash_attestation_struct_def attestation_struct_preimage_def)

text \<open>The actions carry different tags, so a payload of one kind is never a payload of another.\<close>

lemmas tag_defs = PAYLOAD_PREFIX_def DELEGATED_REVOCATION_TYPE_TAG_def
  DELEGATED_REPLACEMENT_CONSENT_TYPE_TAG_def DELEGATED_NONCE_INVALIDATION_TYPE_TAG_def
  SCOPED_DELEGATION_TAG_def ascii_def

lemma action_preimages_differ:
  "offchain_preimage h a d \<noteq> revocation_preimage h u w e"
  "offchain_preimage h a d \<noteq> consent_preimage h u b c"
  "offchain_preimage h a d \<noteq> nonce_invalidation_preimage h w m n e"
  "offchain_preimage h a d \<noteq> scoped_preimage h b e z"
  "revocation_preimage h u w e \<noteq> consent_preimage h v b c"
  "revocation_preimage h u w e \<noteq> nonce_invalidation_preimage h w' m n e'"
  "revocation_preimage h u w e \<noteq> scoped_preimage h b e' z"
  "consent_preimage h v b c \<noteq> nonce_invalidation_preimage h w' m n e'"
  "consent_preimage h v b c \<noteq> scoped_preimage h b' e' z"
  "nonce_invalidation_preimage h w' m n e' \<noteq> scoped_preimage h b e z"
  by (simp_all add: offchain_preimage_def revocation_preimage_def consent_preimage_def
      nonce_invalidation_preimage_def scoped_preimage_def tag_defs)

section \<open>Canonical scalars\<close>

lemma be_value_Cons: "be_value (x # xs) = unat x * 256 ^ length xs + be_value xs"
proof (induction xs rule: rev_induct)
  case (snoc y xs)
  then show ?case
    by (simp flip: append_Cons add: algebra_simps)
qed (simp add: be_value_def)

lemma array_less_iff_be_value:
  "length xs = length ys \<Longrightarrow> array_less xs ys \<longleftrightarrow> be_value xs < be_value ys"
proof (induction xs ys rule: list_induct2)
  case (Cons x xs y ys)
  have step: "unat u * 256 ^ length ys + be_value us < unat v * 256 ^ length ys + be_value vs"
    if "u < v" "length us = length ys" for u v :: byte and us vs
  proof -
    have "unat u * 256 ^ length ys + be_value us < (unat u + 1) * 256 ^ length ys"
      using be_value_less [of us] that(2) by simp
    also have "\<dots> \<le> unat v * 256 ^ length ys"
      using that(1) by (intro mult_right_mono) (simp_all add: word_less_nat_alt)
    finally show ?thesis
      by simp
  qed
  show ?case
    using Cons step [of x y xs ys] step [of y x ys xs]
    by (cases x y rule: linorder_cases) (auto simp: be_value_Cons)
qed simp

lemma be_value_group_order:
  "be_value (rev ED25519_GROUP_ORDER_L_LE) = 2 ^ 252 + 27742317777372353535851937790883648493"
  by (simp add: be_value_def ED25519_GROUP_ORDER_L_LE_def)

lemma signature_scalar_is_canonical_iff:
  "signature_scalar_is_canonical s \<longleftrightarrow>
   be_value (rev (drop 32 (bytes64_to_array s))) < 2 ^ 252 + 27742317777372353535851937790883648493"
proof -
  have "length (rev (drop 32 (bytes64_to_array s))) = length (rev ED25519_GROUP_ORDER_L_LE)"
    by (simp add: ED25519_GROUP_ORDER_L_LE_def)
  then show ?thesis
    by (simp only: signature_scalar_is_canonical_def Let_def array_less_iff_be_value
        be_value_group_order)
qed

lemma verify_offchain_signature_Inr_iff [result_iff]:
  "verify_offchain_signature h p k s = Inr u \<longleftrightarrow>
   signature_scalar_is_canonical s \<and> ed25519_valid h k (bytes32_to_array p) s"
  by (auto simp: verify_offchain_signature_def)

lemma attester_matches_key_iff:
  assumes "xdr_address_shape h"
  shows "attester_matches_key h who k \<longleftrightarrow> who = Account k"
  using assms
  by (cases who) (auto simp: attester_matches_key_def xdr_address_shape_def
      ACCOUNT_ADDRESS_XDR_PREFIX_def)

section \<open>Properties\<close>

text \<open>
  A host that meets \<open>xdr_address_shape\<close>, on which the properties are evaluated: its hash reads its
  input as a big-endian number, and its signature check accepts one key.
\<close>

definition sample_host :: host where
  "sample_host =
     \<lparr> sha256 = bytes32_of_array, keccak256 = bytes32_of_array,
       ed25519_valid = (\<lambda>key msg sig. key = 7),
       to_xdr = (\<lambda>v. case v of
            XAddress (Account k) \<Rightarrow> ACCOUNT_ADDRESS_XDR_PREFIX @ bytes32_to_array k
          | XAddress (Contract c) \<Rightarrow> [0, 0, 0, 18, 0, 0, 0, 1] @ bytes32_to_array c
          | XUid u \<Rightarrow> bytes32_to_array u | XBytes b \<Rightarrow> b | XString b \<Rightarrow> b
          | XBytes32 b \<Rightarrow> bytes32_to_array b | XU64 w \<Rightarrow> u64_to_be_bytes w
          | XU32 n \<Rightarrow> be_bytes 4 n | XI128 i \<Rightarrow> []) \<rparr>"

lemma sample_host_shape: "xdr_address_shape sample_host"
  by (simp add: xdr_address_shape_def sample_host_def)

text \<open>
  C32: The digest an issuer signs for an attestation binds every field the digest is meant to cover.
  If two signed payloads have the same digest, then their domains (network, contract and nonce)
  agree and the attestations agree in every field other than the revocation time and the activation
  time, unless SHA-256 collides on two of the inputs hashed while computing the two digests.
\<close>

theorem signed_digest_binds_payload:
  assumes "xdr_address_shape h"
    and "hash_offchain_attestation h a d = hash_offchain_attestation h b e"
  shows "d = e \<and> a\<lparr>a_revocation_time := 0, a_valid_from := 0\<rparr> = b\<lparr>a_revocation_time := 0, a_valid_from := 0\<rparr>
    \<or> sha256_collision h (offchain_preimage h a d) (offchain_preimage h b e)
    \<or> sha256_collision h (hash_domain_preimage h d) (hash_domain_preimage h e)
    \<or> sha256_collision h (attestation_struct_preimage h a) (attestation_struct_preimage h b)
    \<or> sha256_collision h (a_data a) (a_data b)"
  using offchain_digest_binds [OF assms] by (simp add: signed_view_def)

definition sample_attestation :: attestation where
  "sample_attestation =
     \<lparr> a_uid = 11, a_schema_uid = 12, a_time = 0, a_expiration_time = 0, a_revocation_time = 0,
       a_ref_uid = 0, a_recipient = Account 5, a_attester = Account 7, a_revocable = True,
       a_data = [1, 2, 3], a_valid_from = 0 \<rparr>"

definition sample_domain :: attestation_domain where
  "sample_domain = \<lparr> d_network_id = 1, d_contract = Contract 2, d_nonce = 3 \<rparr>"

theorem signed_digest_binds_payload_witness:
  "xdr_address_shape sample_host
   \<and> hash_offchain_attestation sample_host sample_attestation sample_domain
     = hash_offchain_attestation sample_host (sample_attestation\<lparr>a_valid_from := 9\<rparr>) sample_domain
   \<and> sample_attestation \<noteq> sample_attestation\<lparr>a_valid_from := 9\<rparr>"
proof -
  have same: "hash_offchain_attestation sample_host sample_attestation sample_domain
     = hash_offchain_attestation sample_host (sample_attestation\<lparr>a_valid_from := 9\<rparr>) sample_domain"
    by (simp add: hash_offchain_attestation_def offchain_preimage_def hash_attestation_struct_def
        attestation_struct_preimage_def sample_attestation_def)
  from signed_digest_binds_payload [OF sample_host_shape same] same sample_host_shape
  show ?thesis
    by (simp add: sample_attestation_def)
qed

end
