(* ===== verification/Sas_State.thy ===== *)
theory Sas_State
  imports Typed_Data
begin

text \<open>
  The state of the SAS contract (\<^verbatim>\<open>contracts/sas/src/lib.rs\<close>): one record field per family of storage
  keys, grouped by concern; the contracts SAS calls, as a record of functions over an external world
  of any type; the published events; and the storage helpers (\<^verbatim>\<open>read_attestation\<close>,
  \<^verbatim>\<open>write_attestation\<close>, \<^verbatim>\<open>remove_attestation\<close>, the timestamp anchors of \<^verbatim>\<open>timestamp.rs\<close>). The attestation
  store meets the contract of the locale \<open>attestation_store\<close>, which every later theory uses.
  Rent (the TTL of an entry) is kept by the host and is not part of the state.
\<close>

section \<open>Validation of parties and policies\<close>

text \<open>The zero account and the zero contract, which \<^verbatim>\<open>validation.rs\<close> names by their strkeys.\<close>

definition zero_account :: address where "zero_account = Account 0"
definition zero_contract :: address where "zero_contract = Contract 0"

definition validate_ttl :: "u64 \<Rightarrow> u64 \<Rightarrow> unit sas_result" where
  "validate_ttl current_time expiration_time =
     (if expiration_time > 0 \<and> current_time \<ge> expiration_time then Inl (Panic InvalidTTL) else Inr ())"

definition validate_recipient :: "address \<Rightarrow> unit sas_result" where
  "validate_recipient recipient =
     (if recipient = zero_account \<or> recipient = zero_contract then Inl (Panic InvalidRecipient)
      else Inr ())"

definition validate_attestation_parties :: "address \<Rightarrow> address \<Rightarrow> unit sas_result" where
  "validate_attestation_parties recipient attester =
     bind_r (validate_recipient recipient) (\<lambda>_.
     bind_r (validate_recipient attester) (\<lambda>_.
     if recipient = attester then Inl (Panic InvalidRecipient) else Inr ()))"

definition check_policy :: "revocation_policy \<Rightarrow> bool \<Rightarrow> unit sas_result" where
  "check_policy policy attestation_revocable =
     (case policy of
        RevocableOnly \<Rightarrow>
          if \<not> attestation_revocable then Inl (Panic InvalidRevocability) else Inr ()
      | IrrevocableOnly \<Rightarrow> if attestation_revocable then Inl (Panic NotRevocable) else Inr ()
      | Permissive \<Rightarrow> Inr ())"

definition check_revocable :: "bool \<Rightarrow> bool \<Rightarrow> unit sas_result" where
  "check_revocable schema_revocable attestation_revocable =
     check_policy (policy_from_bool schema_revocable) attestation_revocable"

section \<open>State\<close>

record delegation_policy =
  dp_authorized_schema_uid :: delegation_schema_scope
  dp_permissions :: nat
  dp_valid_until :: u64

record timestamp_anchor =
  ta_ledger_sequence :: nat
  ta_ledger_timestamp :: u64

text \<open>The value under a UID key: the compact layout, or a legacy full record.\<close>

datatype stored_value = CompactVal compact_attestation | LegacyVal attestation

record att_store =
  compact_records :: "uid \<rightharpoonup> compact_attestation"
  uid_records :: "uid \<rightharpoonup> stored_value"
  valid_froms :: "uid \<rightharpoonup> u64"
  anchors :: "uid \<times> bool \<rightharpoonup> timestamp_anchor"

record sas_config =
  sas_admin :: "address option"
  pending_admin :: "address option"
  schema_registry :: "address option"
  indexer :: "address option"
  treasury :: "address option"
  zk_verifier :: "address option"
  sas_version :: "nat option"
  current_wasm_hash :: "bytes32 option"
  paused :: bool
  indexer_strict :: bool
  auto_prune :: bool

record fee_state =
  fee_config :: "(address \<times> int) option"
  fee_per_byte :: int
  zero_fee_schemas :: "uid \<Rightarrow> bool"
  fee_assets :: "address \<rightharpoonup> int"
  multi_asset_active :: bool
  schema_fees :: "uid \<rightharpoonup> schema_fee_config"
  treasury_fees :: "address \<Rightarrow> int"
  creator_fees :: "address \<times> address \<Rightarrow> int"
  ceilings :: "fee_ceilings option"

record key_state =
  attester_keys :: "address \<rightharpoonup> attester_key_record"
  delegation_nonces :: "address \<rightharpoonup> u64"
  consent_nonces :: "address \<rightharpoonup> u64"
  delegation_policies :: "address \<rightharpoonup> delegation_policy"
  zk_nullifiers :: "bytes32 \<Rightarrow> bool"

record rate_state =
  rate_limit_config :: "(nat \<times> nat) option"
  rate_exempt :: "address \<Rightarrow> bool"
  rate_history :: "address \<Rightarrow> nat list"

record guard_state =
  reentrancy_guard :: bool
  call_depth :: nat

datatype (plugins only: code size) sas_event =
    Attested uid uid address address
  | AttestedWithFee uid uid address address int
  | RevokedEv uid u64
  | IndexerUpdated "address option" address address
  | IndexerStrictUpdated bool bool address
  | ContractUpgraded bytes32 bytes32 address
  | IndexFailed uid
  | Reindexed uid
  | BatchAttested nat nat
  | BatchRevoked nat nat
  | Withdrawal address int address address
  | AdminTransferProposed address address
  | AdminTransferCompleted address address
  | FeeConfigUpdated "(address \<times> int) option" "(address \<times> int) option" address
  | ContractPausedEv address
  | ContractUnpausedEv address
  | ProtocolPausedEv address u64
  | ProtocolUnpausedEv address u64
  | AttestationRenewed uid address u64
  | NoncesInvalidated address u64 u64
  | FeeDistributed uid address int int int address
  | FeeSplit uid int int
  | Pruned uid
  | AttesterKeyRegistered address bytes32 nat
  | AttesterKeyRotated address bytes32 bytes32 nat
  | AttesterKeyRevokedEv address bytes32 nat

record 'w sas_state =
  st_config :: sas_config
  st_fees :: fee_state
  st_keys :: key_state
  st_rate :: rate_state
  st_guard :: guard_state
  st_store :: att_store
  st_events :: "sas_event list"
  st_world :: 'w

section \<open>The contracts SAS calls\<close>

text \<open>
  Every cross-contract call of SAS, over a world of type \<open>'w\<close> that holds the state of the other
  contracts. A read that the code makes with \<^verbatim>\<open>try_invoke_contract\<close> returns \<open>None\<close> when the call fails; a
  state-changing call returns the new world, or \<open>None\<close> when it fails and its writes are discarded.
  The host refuses a call back into SAS, so a callee never changes the state of SAS.
\<close>

record 'w externs =
  x_sasreg_upper :: "ledger_env \<Rightarrow> address \<Rightarrow> 'w \<Rightarrow> bool option"
  x_sasreg_lower :: "ledger_env \<Rightarrow> address \<Rightarrow> 'w \<Rightarrow> bool option"
  x_get_schema :: "ledger_env \<Rightarrow> address \<Rightarrow> uid \<Rightarrow> 'w \<Rightarrow> schema_record option option"
  x_is_schema_quarantined :: "ledger_env \<Rightarrow> address \<Rightarrow> uid \<Rightarrow> 'w \<Rightarrow> bool option"
  x_get_max_ttl :: "ledger_env \<Rightarrow> address \<Rightarrow> uid \<Rightarrow> 'w \<Rightarrow> u64 option"
  x_is_authorized :: "ledger_env \<Rightarrow> address \<Rightarrow> uid \<Rightarrow> address \<Rightarrow> 'w \<Rightarrow> bool option"
  x_is_attester_authorized :: "ledger_env \<Rightarrow> address \<Rightarrow> uid \<Rightarrow> address \<Rightarrow> 'w \<Rightarrow> bool option"
  x_is_schema_restricted :: "ledger_env \<Rightarrow> address \<Rightarrow> uid \<Rightarrow> 'w \<Rightarrow> bool option"
  x_get_schema_policy :: "ledger_env \<Rightarrow> address \<Rightarrow> uid \<Rightarrow> 'w \<Rightarrow> revocation_policy option"
  x_get_creator :: "ledger_env \<Rightarrow> address \<Rightarrow> uid \<Rightarrow> 'w \<Rightarrow> address option option"
  x_get_creator_royalty :: "ledger_env \<Rightarrow> address \<Rightarrow> uid \<Rightarrow> 'w \<Rightarrow> nat option"
  x_get_schema_frost_group :: "ledger_env \<Rightarrow> address \<Rightarrow> uid \<Rightarrow> 'w \<Rightarrow> frost_group option option"
  x_on_attest :: "ledger_env \<Rightarrow> address \<Rightarrow> attestation \<Rightarrow> 'w \<Rightarrow> 'w option"
  x_on_revoke :: "ledger_env \<Rightarrow> address \<Rightarrow> attestation \<Rightarrow> 'w \<Rightarrow> 'w option"
  x_index_attestation ::
    "ledger_env \<Rightarrow> address \<Rightarrow> uid \<Rightarrow> address \<Rightarrow> uid \<Rightarrow> address \<Rightarrow> u64 \<Rightarrow> 'w \<Rightarrow> 'w option"
  x_set_valid_from :: "ledger_env \<Rightarrow> address \<Rightarrow> uid \<Rightarrow> u64 \<Rightarrow> 'w \<Rightarrow> 'w option"
  x_handle_revoke :: "ledger_env \<Rightarrow> address \<Rightarrow> uid \<Rightarrow> 'w \<Rightarrow> 'w option"
  x_handle_replace :: "ledger_env \<Rightarrow> address \<Rightarrow> uid \<Rightarrow> uid \<Rightarrow> 'w \<Rightarrow> 'w option"
  x_handle_renew :: "ledger_env \<Rightarrow> address \<Rightarrow> uid \<Rightarrow> u64 \<Rightarrow> 'w \<Rightarrow> 'w option"
  x_verify_proof :: "ledger_env \<Rightarrow> address \<Rightarrow> bytes \<Rightarrow> bytes32 list \<Rightarrow> 'w \<Rightarrow> (bool \<times> 'w) option"
  x_balance :: "ledger_env \<Rightarrow> address \<Rightarrow> address \<Rightarrow> 'w \<Rightarrow> int option"
  x_transfer :: "ledger_env \<Rightarrow> address \<Rightarrow> address \<Rightarrow> address \<Rightarrow> int \<Rightarrow> 'w \<Rightarrow> 'w option"

text \<open>What an invocation of SAS runs in: the host, the other contracts and the ledger.\<close>

record 'w ctx =
  hst :: host
  ext :: "'w externs"
  led :: ledger_env

definition emit :: "sas_event \<Rightarrow> 'w sas_state \<Rightarrow> 'w sas_state" where
  "emit ev s = s\<lparr>st_events := st_events s @ [ev]\<rparr>"

section \<open>Timestamp anchors\<close>

definition write_anchor :: "ledger_env \<Rightarrow> uid \<Rightarrow> bool \<Rightarrow> att_store \<Rightarrow> att_store sas_result" where
  "write_anchor env u revocation st =
     (if anchors st (u, revocation) \<noteq> None then Inl (Panic InvalidTimestamp)
      else Inr (st\<lparr>anchors := (anchors st)((u, revocation) \<mapsto>
             \<lparr>ta_ledger_sequence = sequence env, ta_ledger_timestamp = timestamp env\<rparr>)\<rparr>))"

definition remove_anchors :: "uid \<Rightarrow> att_store \<Rightarrow> att_store" where
  "remove_anchors u st = st\<lparr>anchors := (anchors st)((u, False) := None, (u, True) := None)\<rparr>"

definition read_anchor :: "att_store \<Rightarrow> uid \<Rightarrow> bool \<Rightarrow> timestamp_anchor option" where
  "read_anchor st u revocation = anchors st (u, revocation)"

definition anchors_out_of_order :: "timestamp_anchor option \<Rightarrow> timestamp_anchor option \<Rightarrow> bool" where
  "anchors_out_of_order issuance revocation =
     (case (issuance, revocation) of
        (Some issued, Some revoked) \<Rightarrow>
          ta_ledger_sequence revoked < ta_ledger_sequence issued
          \<or> ta_ledger_timestamp revoked < ta_ledger_timestamp issued
      | _ \<Rightarrow> False)"

definition check_claim :: "ledger_env \<Rightarrow> att_store \<Rightarrow> uid \<Rightarrow> timestamp_anchor \<Rightarrow> unit sas_result" where
  "check_claim env st u claim =
     (let issuance = read_anchor st u False; revocation = read_anchor st u True in
      if issuance = None \<and> revocation = None then Inl (Panic TimestampAnchorNotFound)
      else if anchors_out_of_order issuance revocation then Inl (Panic InvalidTimestamp)
      else if ta_ledger_sequence claim > sequence env \<or> ta_ledger_timestamp claim > timestamp env
      then Inl (Panic InvalidTimestamp)
      else if issuance = Some claim \<or> revocation = Some claim then Inr ()
      else Inl (Panic InvalidTimestamp))"

section \<open>The attestation store\<close>

definition raw_attestation :: "att_store \<Rightarrow> uid \<Rightarrow> attestation option" where
  "raw_attestation st u =
     (case compact_records st u of
        Some compact \<Rightarrow> Some (to_attestation compact u)
      | None \<Rightarrow>
          (case uid_records st u of
             Some (CompactVal compact) \<Rightarrow> Some (to_attestation compact u)
           | Some (LegacyVal legacy) \<Rightarrow> Some legacy
           | None \<Rightarrow> None))"

definition read_attestation :: "att_store \<Rightarrow> uid \<Rightarrow> attestation option" where
  "read_attestation st u =
     (case raw_attestation st u of
        None \<Rightarrow> None
      | Some a \<Rightarrow>
          (case valid_froms st u of
             Some valid_from \<Rightarrow> Some (a\<lparr>a_valid_from := valid_from\<rparr>)
           | None \<Rightarrow> Some a))"

definition has_attestation :: "att_store \<Rightarrow> uid \<Rightarrow> bool" where
  "has_attestation st u = (compact_records st u \<noteq> None \<or> uid_records st u \<noteq> None)"

definition write_attestation :: "attestation \<Rightarrow> att_store \<Rightarrow> att_store" where
  "write_attestation a st =
     (let compact = from_attestation a;
          st = (if compact_records st (a_uid a) \<noteq> None
                then st\<lparr>compact_records := (compact_records st)(a_uid a \<mapsto> compact)\<rparr>
                else st\<lparr>uid_records := (uid_records st)(a_uid a \<mapsto> CompactVal compact)\<rparr>)
      in if a_valid_from a \<noteq> 0
         then st\<lparr>valid_froms := (valid_froms st)(a_uid a \<mapsto> a_valid_from a)\<rparr>
         else st\<lparr>valid_froms := (valid_froms st)(a_uid a := None)\<rparr>)"

definition remove_attestation :: "uid \<Rightarrow> att_store \<Rightarrow> att_store" where
  "remove_attestation u st =
     remove_anchors u
       (st\<lparr>compact_records := (compact_records st)(u := None),
           uid_records := (uid_records st)(u := None),
           valid_froms := (valid_froms st)(u := None)\<rparr>)"

text \<open>A legacy record is stored under its own UID, is the only record there, and a separately stored
  activation time agrees with its own.\<close>

definition store_wf :: "att_store \<Rightarrow> bool" where
  "store_wf st \<longleftrightarrow> (\<forall>u a. uid_records st u = Some (LegacyVal a) \<longrightarrow>
     a_uid a = u \<and> compact_records st u = None \<and>
     (valid_froms st u = None \<or> valid_froms st u = Some (a_valid_from a)))"

definition empty_store :: att_store where
  "empty_store = \<lparr>compact_records = (\<lambda>_. None), uid_records = (\<lambda>_. None), valid_froms = (\<lambda>_. None),
     anchors = (\<lambda>_. None)\<rparr>"

section \<open>The store interface\<close>

text \<open>
  What the entry points rely on: a keyed store in which reading after a write gives the record
  written, reading after a removal gives nothing, other keys are untouched and the presence test
  agrees with reading.
\<close>

locale attestation_store =
  fixes read :: "'s \<Rightarrow> uid \<Rightarrow> attestation option"
    and has :: "'s \<Rightarrow> uid \<Rightarrow> bool"
    and write_rec :: "attestation \<Rightarrow> 's \<Rightarrow> 's"
    and remove :: "uid \<Rightarrow> 's \<Rightarrow> 's"
    and wf_store :: "'s \<Rightarrow> bool"
  assumes read_write: "read (write_rec a s) u = (if u = a_uid a then Some a else read s u)"
    and read_remove: "read (remove v s) u = (if u = v then None else read s u)"
    and has_read: "has s u \<longleftrightarrow> read s u \<noteq> None"
    and read_uid: "wf_store s \<Longrightarrow> read s u = Some a \<Longrightarrow> a_uid a = u"
    and wf_write: "wf_store s \<Longrightarrow> wf_store (write_rec a s)"
    and wf_remove: "wf_store s \<Longrightarrow> wf_store (remove v s)"
begin

lemma has_write: "has (write_rec a s) u \<longleftrightarrow> u = a_uid a \<or> has s u"
  by (simp add: has_read read_write)

lemma has_remove: "has (remove v s) u \<longleftrightarrow> u \<noteq> v \<and> has s u"
  by (simp add: has_read read_remove)

text \<open>Updating one field of a stored record changes that record's field and nothing else.\<close>

lemma update_record:
  assumes "wf_store s" and "read s u = Some a" and "a_uid (f a) = a_uid a"
  shows "read (write_rec (f a) s) v = (if v = u then Some (f a) else read s v)"
  using assms read_uid [OF assms(1,2)] by (simp add: read_write)

end

lemma read_write_attestation:
  "read_attestation (write_attestation a st) u =
   (if u = a_uid a then Some a else read_attestation st u)"
proof (cases "u = a_uid a")
  case True
  then show ?thesis
    by (cases a) (auto simp: read_attestation_def raw_attestation_def write_attestation_def Let_def)
next
  case False
  then show ?thesis
    by (auto simp: read_attestation_def raw_attestation_def write_attestation_def Let_def
        split: option.splits stored_value.splits)
qed

interpretation store: attestation_store read_attestation has_attestation write_attestation
  remove_attestation store_wf
proof (unfold_locales, goal_cases)
  case (1 a s u)
  show ?case
    by (rule read_write_attestation)
next
  case (2 v s u)
  show ?case
    by (auto simp: read_attestation_def raw_attestation_def remove_attestation_def
        remove_anchors_def split: option.splits stored_value.splits)
next
  case (3 s u)
  show ?case
    by (auto simp: has_attestation_def read_attestation_def raw_attestation_def
        split: option.splits stored_value.splits)
next
  case (4 s u a)
  then show ?case
    by (auto simp: store_wf_def read_attestation_def raw_attestation_def to_attestation_def
        split: option.splits stored_value.splits prod.splits)
next
  case (5 s a)
  then show ?case
    by (auto simp: store_wf_def write_attestation_def Let_def split: if_splits)
next
  case (6 s v)
  then show ?case
    by (auto simp: store_wf_def remove_attestation_def remove_anchors_def)
qed

lemma anchors_write_attestation [simp]: "anchors (write_attestation a st) = anchors st"
  by (simp add: write_attestation_def Let_def)

lemma write_anchor_Inr_iff [result_iff]:
  "write_anchor env u r st = Inr st' \<longleftrightarrow>
   anchors st (u, r) = None \<and>
   st' = st\<lparr>anchors := (anchors st)((u, r) \<mapsto>
     \<lparr>ta_ledger_sequence = sequence env, ta_ledger_timestamp = timestamp env\<rparr>)\<rparr>"
  by (auto simp: write_anchor_def)

lemma read_anchors_update [simp]: "read_attestation (st\<lparr>anchors := f\<rparr>) u = read_attestation st u"
  by (simp add: read_attestation_def raw_attestation_def cong: option.case_cong)

lemma store_wf_anchors [simp]: "store_wf (st\<lparr>anchors := f\<rparr>) = store_wf st"
  by (simp add: store_wf_def)

lemma has_anchors_update [simp]: "has_attestation (st\<lparr>anchors := f\<rparr>) u = has_attestation st u"
  by (simp add: has_attestation_def)

lemma store_wf_empty: "store_wf empty_store"
  by (simp add: store_wf_def empty_store_def)

end
