(* ===== verification/Sas_Core.thy ===== *)
theory Sas_Core
  imports Sas_State
begin

text \<open>
  The internal operations of the SAS contract (\<^verbatim>\<open>contracts/sas/src/lib.rs\<close>) that every entry point is
  built from: configuration guards, the reentrancy guard, the issuance quota, the fee quote, the
  verification verdict, and the issuance, revocation and replacement of an attestation. The lemmas
  give the exact effect of each on the attestation store and what it leaves alone.
\<close>

section \<open>Constants\<close>

definition MAX_CREATOR_BPS :: nat where "MAX_CREATOR_BPS = 10000"
definition DELEGATION_PERMISSION_ISSUE :: nat where "DELEGATION_PERMISSION_ISSUE = 1"
definition MAX_KNOWN_VERSION :: nat where "MAX_KNOWN_VERSION = 2"
definition MAX_MULTI_REVOKE :: nat where "MAX_MULTI_REVOKE = 100"
definition MAX_REVOKE_BY_SCHEMA :: nat where "MAX_REVOKE_BY_SCHEMA = 100"
definition MAX_VERIFY_BATCH :: nat where "MAX_VERIFY_BATCH = 100"
definition MAX_PRUNE_BATCH :: nat where "MAX_PRUNE_BATCH = 100"

section \<open>Guards\<close>

definition require_admin :: "'w sas_state \<Rightarrow> address sas_result" where
  "require_admin s = or_panic NotInitialized (sas_admin (st_config s))"

definition require_registry :: "'w sas_state \<Rightarrow> address sas_result" where
  "require_registry s = or_panic NotInitialized (schema_registry (st_config s))"

definition is_paused_status :: "'w sas_state \<Rightarrow> bool" where
  "is_paused_status s = paused (st_config s)"

definition enter_reentrancy_guard :: "'w sas_state \<Rightarrow> 'w sas_state sas_result" where
  "enter_reentrancy_guard s =
     (if reentrancy_guard (st_guard s) then Inl (Panic Reentrancy)
      else Inr (s\<lparr>st_guard := (st_guard s)\<lparr>reentrancy_guard := True\<rparr>\<rparr>))"

definition exit_reentrancy_guard :: "'w sas_state \<Rightarrow> 'w sas_state" where
  "exit_reentrancy_guard s = s\<lparr>st_guard := (st_guard s)\<lparr>reentrancy_guard := False\<rparr>\<rparr>"

definition reject_reentrant :: "'w sas_state \<Rightarrow> unit sas_result" where
  "reject_reentrant s =
     (if reentrancy_guard (st_guard s) \<or> call_depth (st_guard s) > 0 then Inl (Panic Reentrancy)
      else Inr ())"

definition enter_callback_context :: "'w sas_state \<Rightarrow> (bool \<times> 'w sas_state) sas_result" where
  "enter_callback_context s =
     (let guarded = reentrancy_guard (st_guard s); depth = call_depth (st_guard s) in
      bind_r (or_panic Reentrancy (checked_add_u32 depth 1)) (\<lambda>next.
      let s = s\<lparr>st_guard := (st_guard s)\<lparr>call_depth := next\<rparr>\<rparr>;
          s = (if \<not> guarded then s\<lparr>st_guard := (st_guard s)\<lparr>reentrancy_guard := True\<rparr>\<rparr> else s)
      in Inr (\<not> guarded, s)))"

definition exit_callback_context :: "bool \<Rightarrow> 'w sas_state \<Rightarrow> 'w sas_state" where
  "exit_callback_context owns_guard s =
     (let depth = call_depth (st_guard s);
          s = (if depth \<le> 1 then s\<lparr>st_guard := (st_guard s)\<lparr>call_depth := 0\<rparr>\<rparr>
               else s\<lparr>st_guard := (st_guard s)\<lparr>call_depth := depth - 1\<rparr>\<rparr>)
      in if owns_guard then exit_reentrancy_guard s else s)"

section \<open>Fees, delegation policy and quota\<close>

definition fee_quote :: "'w sas_state \<Rightarrow> uid \<Rightarrow> nat \<Rightarrow> int sas_result" where
  "fee_quote s suid len =
     (if len > MAX_ATTESTATION_DATA_BYTES then Inl (Panic PayloadTooLarge)
      else if zero_fee_schemas (st_fees s) suid then Inr 0
      else
        let base = (case fee_config (st_fees s) of Some (_, amount) \<Rightarrow> amount | None \<Rightarrow> 0);
            per_byte = fee_per_byte (st_fees s)
        in bind_r (or_panic InvalidValue (checked_i128 (per_byte * int len))) (\<lambda>extra.
           or_panic InvalidValue (checked_i128 (base + extra))))"

definition require_unpaid_allowed :: "'w sas_state \<Rightarrow> attestation \<Rightarrow> unit sas_result" where
  "require_unpaid_allowed s a =
     (if fee_per_byte (st_fees s) > 0
      then bind_r (fee_quote s (a_schema_uid a) (length (a_data a))) (\<lambda>quote.
             if quote > 0 then Inl (Panic InsufficientFee) else Inr ())
      else Inr ())"

definition scope_excludes :: "delegation_schema_scope \<Rightarrow> uid \<Rightarrow> bool" where
  "scope_excludes scope suid = (case scope of OnlySchema u \<Rightarrow> u \<noteq> suid | AnySchema \<Rightarrow> False)"

definition require_delegation_policy ::
  "ledger_env \<Rightarrow> 'w sas_state \<Rightarrow> address \<Rightarrow> uid \<Rightarrow> unit sas_result" where
  "require_delegation_policy env s attester suid =
     (case delegation_policies (st_keys s) attester of
        None \<Rightarrow> Inr ()
      | Some policy \<Rightarrow>
          if (dp_permissions policy AND DELEGATION_PERMISSION_ISSUE) = 0
             \<or> (dp_valid_until policy \<noteq> 0 \<and> timestamp env > dp_valid_until policy)
             \<or> scope_excludes (dp_authorized_schema_uid policy) suid
          then Inl (Panic DelegationScopeDenied)
          else Inr ())"

definition recent_issuances :: "ledger_env \<Rightarrow> nat \<Rightarrow> nat list \<Rightarrow> nat list" where
  "recent_issuances env window prior =
     (let now = sequence env; oldest = now - (window - 1)
      in filter (\<lambda>issued_at. issued_at \<ge> oldest \<and> issued_at \<le> now) prior)"

definition consume_issuance_quota ::
  "ledger_env \<Rightarrow> address \<Rightarrow> 'w sas_state \<Rightarrow> 'w sas_state sas_result" where
  "consume_issuance_quota env attester s =
     (case rate_limit_config (st_rate s) of
        None \<Rightarrow> Inr s
      | Some (max_issuances, window) \<Rightarrow>
          if rate_exempt (st_rate s) attester then Inr s
          else
            let recent = recent_issuances env window (rate_history (st_rate s) attester) in
            if length recent \<ge> max_issuances then Inl (Panic RateLimitExceeded)
            else Inr (s\<lparr>st_rate := (st_rate s)\<lparr>rate_history :=
                   (rate_history (st_rate s))(attester := recent @ [sequence env])\<rparr>\<rparr>))"

section \<open>Expiration, retention and verdicts\<close>

definition validate_expiration :: "ledger_env \<Rightarrow> u64 \<Rightarrow> unit sas_result" where
  "validate_expiration env expiration_time =
     (if expiration_time \<noteq> 0 \<and> expiration_time \<le> timestamp env then Inl (Panic AlreadyExpired)
      else Inr ())"

definition compute_storage_ttl :: "ledger_env \<Rightarrow> u64 \<Rightarrow> nat" where
  "compute_storage_ttl env expiration_time =
     (if expiration_time = 0 then LEDGERS_IN_ONE_YEAR
      else if expiration_time \<le> timestamp env then LEDGERS_IN_ONE_YEAR
      else
        let seconds_remaining = expiration_time - timestamp env;
            ledgers_remaining = as_u32 ((unat seconds_remaining + 4) div 5);
            max_ttl = LEDGERS_IN_ONE_YEAR * 5
        in min (saturating_add_u32 ledgers_remaining LEDGERS_IN_ONE_YEAR) max_ttl)"

definition verify_attestation_record :: "ledger_env \<Rightarrow> att_store \<Rightarrow> uid \<Rightarrow> bool" where
  "verify_attestation_record env st u =
     (case read_attestation st u of
        None \<Rightarrow> False
      | Some a \<Rightarrow>
          if a_revocation_time a \<noteq> 0 then False
          else if a_valid_from a \<noteq> 0 \<and> timestamp env < a_valid_from a then False
          else is_ok (validate_expiration env (a_expiration_time a)))"

section \<open>Issuance\<close>

definition schema_attester_acl_status ::
  "'w ctx \<Rightarrow> address \<Rightarrow> uid \<Rightarrow> address \<Rightarrow> 'w \<Rightarrow> bool \<times> bool" where
  "schema_attester_acl_status cx registry suid attester w =
     (let on_acl = (x_is_attester_authorized (ext cx) (led cx) registry suid attester w
                    = Some True)
      in if on_acl then (True, True)
         else (False, x_is_schema_restricted (ext cx) (led cx) registry suid w = Some True))"

text \<open>The payload checks of \<^verbatim>\<open>attest_internal\<close>, up to the first cross-contract call.\<close>

definition validate_new_attestation :: "'w ctx \<Rightarrow> attestation \<Rightarrow> att_store \<Rightarrow> unit sas_result" where
  "validate_new_attestation cx a st =
     (if length (a_data a) > MAX_ATTESTATION_DATA_BYTES then Inl (Panic PayloadTooLarge)
      else if has_attestation st (a_uid a) then Inl (Panic DuplicateAttestation)
      else if a_uid a \<noteq> attestation_uid (hst cx) (a_schema_uid a) (a_recipient a) (a_attester a)
                (a_data a)
      then Inl (Panic InvalidUID)
      else
        bind_r (validate_expiration (led cx) (a_expiration_time a)) (\<lambda>_.
        if a_expiration_time a > 0 \<and> a_valid_from a \<ge> a_expiration_time a
        then Inl (Panic InvalidTimeRange)
        else
          bind_r (validate_attestation_parties (a_recipient a) (a_attester a)) (\<lambda>_.
          if a_ref_uid a = a_uid a then Inl (Panic InvalidRefUid)
          else if a_ref_uid a \<noteq> 0 \<and> \<not> has_attestation st (a_ref_uid a)
          then Inl (Panic InvalidRefUid)
          else Inr ())))"

text \<open>The per-schema expiration window, shared by issuance and renewal.\<close>

definition check_max_ttl ::
  "'w ctx \<Rightarrow> address \<Rightarrow> uid \<Rightarrow> u64 \<Rightarrow> 'w \<Rightarrow> unit sas_result" where
  "check_max_ttl cx registry suid expiration_time w =
     (let max_ttl = (case x_get_max_ttl (ext cx) (led cx) registry suid w of
                       Some ttl \<Rightarrow> ttl | None \<Rightarrow> 0)
      in if max_ttl > 0
         then if expiration_time = 0 then Inl (Panic InvalidExpirationTime)
              else if expiration_time > timestamp (led cx)
                      \<and> expiration_time - timestamp (led cx) > max_ttl
              then Inl (Panic InvalidExpirationTime)
              else Inr ()
         else Inr ())"

text \<open>The registry checks: the schema exists and is open to this attester.\<close>

definition authorize_attester ::
  "'w ctx \<Rightarrow> address \<Rightarrow> attestation \<Rightarrow> 'w \<Rightarrow> unit sas_result" where
  "authorize_attester cx registry a w =
     (if x_is_authorized (ext cx) (led cx) registry (a_schema_uid a) (a_attester a) w
           = Some True
      then Inr ()
      else
        let (on_acl, restricted) =
              schema_attester_acl_status cx registry (a_schema_uid a) (a_attester a) w
        in if on_acl then Inr ()
           else if restricted then Inl (Panic UnauthorizedAttester)
           else Inl (Panic Unauthorized))"

definition resolve_schema ::
  "'w ctx \<Rightarrow> address \<Rightarrow> attestation \<Rightarrow> 'w \<Rightarrow> schema_record sas_result" where
  "resolve_schema cx registry a w =
     bind_r (or_trap (x_get_schema (ext cx) (led cx) registry (a_schema_uid a) w))
       (\<lambda>schema_opt.
     bind_r (or_panic InvalidSchema schema_opt) (\<lambda>schema.
     if x_is_schema_quarantined (ext cx) (led cx) registry (a_schema_uid a) w = Some True
     then Inl (Panic SchemaQuarantined)
     else
       bind_r (check_max_ttl cx registry (a_schema_uid a) (a_expiration_time a) w) (\<lambda>_.
       bind_r (authorize_attester cx registry a w) (\<lambda>_. Inr schema))))"

definition push_to_indexer ::
  "'w ctx \<Rightarrow> address \<Rightarrow> attestation \<Rightarrow> 'w sas_state \<Rightarrow> bool \<times> 'w sas_state" where
  "push_to_indexer cx ix a s =
     (case x_index_attestation (ext cx) (led cx) ix (a_uid a) (a_recipient a) (a_schema_uid a)
             (a_attester a) (a_expiration_time a) (st_world s) of
        Some w \<Rightarrow> (True, s\<lparr>st_world := w\<rparr>)
      | None \<Rightarrow> (False, s))"

definition best_effort :: "('w \<Rightarrow> 'w option) \<Rightarrow> 'w sas_state \<Rightarrow> 'w sas_state" where
  "best_effort call s = (case call (st_world s) of Some w \<Rightarrow> s\<lparr>st_world := w\<rparr> | None \<Rightarrow> s)"

definition notify_indexer_of_issuance ::
  "'w ctx \<Rightarrow> address \<Rightarrow> attestation \<Rightarrow> 'w sas_state \<Rightarrow> 'w sas_state sas_result" where
  "notify_indexer_of_issuance cx ix a s =
     (let (pushed, s) = push_to_indexer cx ix a s in
      if pushed
      then Inr (if a_valid_from a > 0
                then best_effort (x_set_valid_from (ext cx) (led cx) ix (a_uid a) (a_valid_from a)) s
                else s)
      else if indexer_strict (st_config s) then Inl (Panic IndexerUnavailable)
      else Inr (emit (IndexFailed (a_uid a)) s))"

text \<open>The two ways a bound indexer is called: as part of issuance, and as a best-effort notice.\<close>

definition index_if_bound ::
  "'w ctx \<Rightarrow> attestation \<Rightarrow> 'w sas_state \<Rightarrow> 'w sas_state sas_result" where
  "index_if_bound cx a s =
     (case indexer (st_config s) of
        Some ix \<Rightarrow> notify_indexer_of_issuance cx ix a s
      | None \<Rightarrow> Inr s)"

definition tell_indexer :: "(address \<Rightarrow> 'w \<Rightarrow> 'w option) \<Rightarrow> 'w sas_state \<Rightarrow> 'w sas_state" where
  "tell_indexer call s =
     (case indexer (st_config s) of Some ix \<Rightarrow> best_effort (call ix) s | None \<Rightarrow> s)"

definition attest_internal ::
  "'w ctx \<Rightarrow> attestation \<Rightarrow> 'w sas_state \<Rightarrow> (uid \<times> 'w sas_state) sas_result" where
  "attest_internal cx a s =
     bind_r (enter_callback_context s) (\<lambda>(owns_guard, s).
     bind_r (require_registry s) (\<lambda>registry.
     bind_r (validate_new_attestation cx a (st_store s)) (\<lambda>_.
     bind_r (resolve_schema cx registry a (st_world s)) (\<lambda>schema.
     bind_r (consume_issuance_quota (led cx) (a_attester a) s) (\<lambda>s.
     let policy = (case x_get_schema_policy (ext cx) (led cx) registry (a_schema_uid a) (st_world s) of
                     Some p \<Rightarrow> p | None \<Rightarrow> policy_from_bool (sr_revocable schema)) in
     bind_r (check_policy policy (a_revocable a)) (\<lambda>_.
     bind_r (or_panic ResolverRejected
              (x_on_attest (ext cx) (led cx) (sr_resolver schema) a (st_world s))) (\<lambda>w.
     let s = s\<lparr>st_world := w\<rparr>;
         a = a\<lparr>a_time := timestamp (led cx)\<rparr>;
         s = s\<lparr>st_store := write_attestation a (st_store s)\<rparr> in
     bind_r (write_anchor (led cx) (a_uid a) False (st_store s)) (\<lambda>st.
     let s = s\<lparr>st_store := st\<rparr> in
     bind_r (index_if_bound cx a s) (\<lambda>s.
     let s = emit (Attested (a_uid a) (a_schema_uid a) (a_attester a) (a_recipient a)) s
     in Inr (a_uid a, exit_callback_context owns_guard s))))))))))"

section \<open>Revocation and replacement\<close>

definition revoke_internal :: "'w ctx \<Rightarrow> uid \<Rightarrow> 'w sas_state \<Rightarrow> 'w sas_state sas_result" where
  "revoke_internal cx u s =
     bind_r (enter_callback_context s) (\<lambda>(owns_guard, s).
     bind_r (or_panic AttestationNotFound (read_attestation (st_store s) u)) (\<lambda>a.
     if \<not> a_revocable a then Inl (Panic NotRevocable)
     else if a_revocation_time a \<noteq> 0 then Inl (Panic AlreadyRevoked)
     else
       let a = a\<lparr>a_revocation_time := timestamp (led cx)\<rparr>;
           s = s\<lparr>st_store := write_attestation a (st_store s)\<rparr> in
       bind_r (write_anchor (led cx) u True (st_store s)) (\<lambda>st.
       let s = emit (RevokedEv u (timestamp (led cx))) (s\<lparr>st_store := st\<rparr>) in
       bind_r (require_registry s) (\<lambda>registry.
       bind_r (or_trap (x_get_schema (ext cx) (led cx) registry (a_schema_uid a) (st_world s)))
         (\<lambda>schema_opt.
       bind_r (or_panic InvalidSchema schema_opt) (\<lambda>schema.
       bind_r (or_panic ResolverRejected
                (x_on_revoke (ext cx) (led cx) (sr_resolver schema) a (st_world s))) (\<lambda>w.
       let s = s\<lparr>st_world := w\<rparr>;
           s = tell_indexer (\<lambda>ix. x_handle_revoke (ext cx) (led cx) ix u) s
       in Inr (exit_callback_context owns_guard s))))))))"

definition replace_internal ::
  "'w ctx \<Rightarrow> uid \<Rightarrow> attestation \<Rightarrow> attestation \<Rightarrow> 'w sas_state \<Rightarrow> (uid \<times> 'w sas_state) sas_result" where
  "replace_internal cx old_uid new_data old s =
     (if \<not> a_revocable old then Inl (Panic NotRevocable)
      else if a_revocation_time old \<noteq> 0 then Inl (Panic AlreadyRevoked)
      else if \<not> is_ok (validate_expiration (led cx) (a_expiration_time old))
      then Inl (Panic InvalidTTL)
      else if a_attester new_data \<noteq> a_attester old \<or> a_recipient new_data \<noteq> a_recipient old
      then Inl (Panic Unauthorized)
      else if a_expiration_time old \<noteq> 0 \<and> a_expiration_time new_data \<noteq> 0
              \<and> a_expiration_time new_data < a_expiration_time old
      then Inl (Panic InvalidTTL)
      else
        let new_data = new_data\<lparr>a_ref_uid := old_uid\<rparr> in
        bind_r (revoke_internal cx old_uid s) (\<lambda>s.
        bind_r (attest_internal cx new_data s) (\<lambda>(issued_uid, s).
        let s = tell_indexer
                  (\<lambda>ix. x_handle_replace (ext cx) (led cx) ix old_uid (a_uid new_data)) s
        in Inr (issued_uid, s))))"

section \<open>Guards: lemmas\<close>

lemma require_admin_Inr_iff [result_iff]:
  "require_admin s = Inr a \<longleftrightarrow> sas_admin (st_config s) = Some a"
  by (simp add: require_admin_def result_iff)

lemma require_registry_Inr_iff [result_iff]:
  "require_registry s = Inr r \<longleftrightarrow> schema_registry (st_config s) = Some r"
  by (simp add: require_registry_def result_iff)

lemma reject_reentrant_Inr_iff [result_iff]:
  "reject_reentrant s = Inr u \<longleftrightarrow> \<not> reentrancy_guard (st_guard s) \<and> call_depth (st_guard s) = 0"
  by (simp add: reject_reentrant_def)

lemma enter_reentrancy_guard_Inr_iff [result_iff]:
  "enter_reentrancy_guard s = Inr s' \<longleftrightarrow>
   \<not> reentrancy_guard (st_guard s) \<and> s' = s\<lparr>st_guard := (st_guard s)\<lparr>reentrancy_guard := True\<rparr>\<rparr>"
  by (auto simp: enter_reentrancy_guard_def)

lemma validate_expiration_Inr_iff [result_iff]:
  "validate_expiration env t = Inr u \<longleftrightarrow> t = 0 \<or> timestamp env < t"
  by (auto simp: validate_expiration_def)

lemma validate_recipient_Inr_iff [result_iff]:
  "validate_recipient r = Inr u \<longleftrightarrow> r \<noteq> zero_account \<and> r \<noteq> zero_contract"
  by (simp add: validate_recipient_def)

lemma validate_attestation_parties_Inr_iff [result_iff]:
  "validate_attestation_parties r a = Inr u \<longleftrightarrow>
   {r, a} \<inter> {zero_account, zero_contract} = {} \<and> r \<noteq> a"
  by (auto simp: validate_attestation_parties_def result_iff)

lemma check_policy_Inr_iff [result_iff]:
  "check_policy p r = Inr u \<longleftrightarrow> (p = RevocableOnly \<longrightarrow> r) \<and> (p = IrrevocableOnly \<longrightarrow> \<not> r)"
  by (cases p) (auto simp: check_policy_def)

lemma enter_callback_context_Inr_iff [result_iff]:
  "enter_callback_context s = Inr (g, s') \<longleftrightarrow>
   call_depth (st_guard s) < u32_max \<and> g = (\<not> reentrancy_guard (st_guard s)) \<and>
   s' = s\<lparr>st_guard := \<lparr>reentrancy_guard = True, call_depth = Suc (call_depth (st_guard s))\<rparr>\<rparr>"
  by (cases s; cases "st_guard s")
    (auto simp: enter_callback_context_def checked_add_u32_def Let_def result_iff)

lemma exit_callback_context_restores:
  assumes "st_guard s' = \<lparr>reentrancy_guard = True, call_depth = Suc (call_depth g)\<rparr>"
  shows "exit_callback_context (\<not> reentrancy_guard g) s' = s'\<lparr>st_guard := g\<rparr>"
  using assms
  by (cases g) (auto simp: exit_callback_context_def exit_reentrancy_guard_def Let_def)

lemma emit_simps [simp]:
  "st_config (emit ev s) = st_config s" "st_fees (emit ev s) = st_fees s"
  "st_keys (emit ev s) = st_keys s" "st_rate (emit ev s) = st_rate s"
  "st_guard (emit ev s) = st_guard s" "st_store (emit ev s) = st_store s"
  "st_events (emit ev s) = st_events s @ [ev]" "st_world (emit ev s) = st_world s"
  by (simp_all add: emit_def)

lemma best_effort_simps [simp]:
  "st_config (best_effort c s) = st_config s" "st_fees (best_effort c s) = st_fees s"
  "st_keys (best_effort c s) = st_keys s" "st_rate (best_effort c s) = st_rate s"
  "st_guard (best_effort c s) = st_guard s" "st_store (best_effort c s) = st_store s"
  "st_events (best_effort c s) = st_events s"
  by (simp_all add: best_effort_def split: option.split)

text \<open>A successful quota check only extends the history of the attester it counts for.\<close>

definition quota_rate :: "ledger_env \<Rightarrow> address \<Rightarrow> rate_state \<Rightarrow> rate_state" where
  "quota_rate env attester r =
     (case rate_limit_config r of
        None \<Rightarrow> r
      | Some (_, window) \<Rightarrow>
          if rate_exempt r attester then r
          else r\<lparr>rate_history := (rate_history r)(attester :=
                 recent_issuances env window (rate_history r attester) @ [sequence env])\<rparr>)"

definition quota_left :: "ledger_env \<Rightarrow> address \<Rightarrow> rate_state \<Rightarrow> bool" where
  "quota_left env attester r =
     (case rate_limit_config r of
        None \<Rightarrow> True
      | Some (max_issuances, window) \<Rightarrow>
          rate_exempt r attester
          \<or> length (recent_issuances env window (rate_history r attester)) < max_issuances)"

lemma consume_issuance_quota_Inr_iff [result_iff]:
  "consume_issuance_quota env attester s = Inr s' \<longleftrightarrow>
   quota_left env attester (st_rate s) \<and> s' = s\<lparr>st_rate := quota_rate env attester (st_rate s)\<rparr>"
  by (auto simp: consume_issuance_quota_def quota_left_def quota_rate_def Let_def
      split: option.splits prod.splits if_splits)

section \<open>The effect of issuance and revocation\<close>

definition anchor_now :: "ledger_env \<Rightarrow> timestamp_anchor" where
  "anchor_now env = \<lparr>ta_ledger_sequence = sequence env, ta_ledger_timestamp = timestamp env\<rparr>"

definition issue_in_store :: "ledger_env \<Rightarrow> attestation \<Rightarrow> att_store \<Rightarrow> att_store" where
  "issue_in_store env a st =
     (write_attestation (a\<lparr>a_time := timestamp env\<rparr>) st)
       \<lparr>anchors := (anchors st)((a_uid a, False) \<mapsto> anchor_now env)\<rparr>"

definition revoke_in_store :: "ledger_env \<Rightarrow> uid \<Rightarrow> attestation \<Rightarrow> att_store \<Rightarrow> att_store" where
  "revoke_in_store env u a st =
     (write_attestation (a\<lparr>a_revocation_time := timestamp env\<rparr>) st)
       \<lparr>anchors := (anchors st)((u, True) \<mapsto> anchor_now env)\<rparr>"

lemma best_effort_world: "\<exists>w. best_effort c s = s\<lparr>st_world := w\<rparr>"
  by (cases s) (auto simp: best_effort_def split: option.split)

lemma push_to_indexer_world: "\<exists>w. snd (push_to_indexer cx ix a s) = s\<lparr>st_world := w\<rparr>"
  by (cases s) (auto simp: push_to_indexer_def split: option.split)

lemma notify_indexer_frame:
  assumes "notify_indexer_of_issuance cx ix a s = Inr s'"
  shows "\<exists>w evs. s' = s\<lparr>st_world := w, st_events := st_events s @ evs\<rparr>"
proof -
  obtain w where w: "snd (push_to_indexer cx ix a s) = s\<lparr>st_world := w\<rparr>"
    using push_to_indexer_world [of cx ix a s] by auto
  obtain w' where w': "best_effort (x_set_valid_from (ext cx) (led cx) ix (a_uid a) (a_valid_from a))
      (s\<lparr>st_world := w\<rparr>) = s\<lparr>st_world := w'\<rparr>"
    using best_effort_world [of "x_set_valid_from (ext cx) (led cx) ix (a_uid a) (a_valid_from a)"
        "s\<lparr>st_world := w\<rparr>"] by auto
  have "s' \<in> {s\<lparr>st_world := w\<rparr>, s\<lparr>st_world := w'\<rparr>, emit (IndexFailed (a_uid a)) (s\<lparr>st_world := w\<rparr>)}"
    using assms w w'
    by (auto simp: notify_indexer_of_issuance_def split_def Let_def result_iff split: if_splits)
  moreover have "\<exists>w evs. t = s\<lparr>st_world := w, st_events := st_events s @ evs\<rparr>"
    if "t = s\<lparr>st_world := w\<rparr>" for t w
    using that by (intro exI [of _ w] exI [of _ "[]"]) simp
  ultimately show ?thesis
    by (auto simp: emit_def)
qed

text \<open>
  What a successful issuance means: every check passed on the state it started from, and the result
  is that state with the record and its anchor added, the quota counted, one \<open>Attested\<close> event
  published and the other contracts called.
\<close>

definition issuance_ok :: "'w ctx \<Rightarrow> attestation \<Rightarrow> 'w sas_state \<Rightarrow> bool" where
  "issuance_ok cx a s \<longleftrightarrow>
     validate_new_attestation cx a (st_store s) = Inr () \<and>
     anchors (st_store s) (a_uid a, False) = None \<and>
     quota_left (led cx) (a_attester a) (st_rate s) \<and>
     (\<exists>registry schema w.
        schema_registry (st_config s) = Some registry \<and>
        resolve_schema cx registry a (st_world s) = Inr schema \<and>
        check_policy (case x_get_schema_policy (ext cx) (led cx) registry (a_schema_uid a) (st_world s) of
                        Some p \<Rightarrow> p | None \<Rightarrow> policy_from_bool (sr_revocable schema))
          (a_revocable a) = Inr () \<and>
        x_on_attest (ext cx) (led cx) (sr_resolver schema) a (st_world s) = Some w)"

lemma index_if_bound_frame:
  assumes "index_if_bound cx a s = Inr s'"
  shows "\<exists>w evs. s' = s\<lparr>st_world := w, st_events := st_events s @ evs\<rparr>"
proof (cases "indexer (st_config s)")
  case None
  with assms have "s' = s\<lparr>st_world := st_world s, st_events := st_events s @ []\<rparr>"
    by (simp add: index_if_bound_def)
  then show ?thesis
    by blast
next
  case (Some ix)
  with assms show ?thesis
    by (intro notify_indexer_frame [of cx ix a s]) (simp add: index_if_bound_def)
qed

lemma tell_indexer_world: "\<exists>w. tell_indexer c s = s\<lparr>st_world := w\<rparr>"
proof (cases "indexer (st_config s)")
  case None
  then have "tell_indexer c s = s\<lparr>st_world := st_world s\<rparr>"
    by (simp add: tell_indexer_def)
  then show ?thesis
    by blast
next
  case (Some ix)
  then show ?thesis
    using best_effort_world [of "c ix" s] by (simp add: tell_indexer_def)
qed

lemma attest_internal_effect:
  assumes "attest_internal cx a s = Inr (u, s')"
  shows "issuance_ok cx a s \<and> u = a_uid a \<and>
    (\<exists>w evs. s' = s\<lparr>st_rate := quota_rate (led cx) (a_attester a) (st_rate s),
       st_store := issue_in_store (led cx) a (st_store s), st_world := w,
       st_events := st_events s @ evs
         @ [Attested (a_uid a) (a_schema_uid a) (a_attester a) (a_recipient a)]\<rparr>)"
proof -
  let ?g = "\<lparr>reentrancy_guard = True, call_depth = Suc (call_depth (st_guard s))\<rparr>"
  let ?a = "a\<lparr>a_time := timestamp (led cx)\<rparr>"
  from assms obtain registry schema w t where
    reg: "schema_registry (st_config s) = Some registry" and
    val: "validate_new_attestation cx a (st_store s) = Inr ()" and
    sch: "resolve_schema cx registry a (st_world s) = Inr schema" and
    quo: "quota_left (led cx) (a_attester a) (st_rate s)" and
    pol: "check_policy (case x_get_schema_policy (ext cx) (led cx) registry (a_schema_uid a)
        (st_world s) of Some p \<Rightarrow> p | None \<Rightarrow> policy_from_bool (sr_revocable schema))
        (a_revocable a) = Inr ()" and
    res: "x_on_attest (ext cx) (led cx) (sr_resolver schema) a (st_world s) = Some w" and
    anc: "anchors (st_store s) (a_uid a, False) = None" and
    ind: "index_if_bound cx ?a (s\<lparr>st_guard := ?g,
        st_rate := quota_rate (led cx) (a_attester a) (st_rate s), st_world := w,
        st_store := issue_in_store (led cx) a (st_store s)\<rparr>) = Inr t" and
    u: "u = a_uid a" and
    s': "s' = exit_callback_context (\<not> reentrancy_guard (st_guard s))
        (emit (Attested (a_uid a) (a_schema_uid a) (a_attester a) (a_recipient a)) t)"
    by (auto simp: attest_internal_def result_iff Let_def issue_in_store_def anchor_now_def)
  from index_if_bound_frame [OF ind] obtain w' evs where t: "t = s\<lparr>st_guard := ?g,
      st_rate := quota_rate (led cx) (a_attester a) (st_rate s),
      st_store := issue_in_store (led cx) a (st_store s), st_world := w',
      st_events := st_events s @ evs\<rparr>"
    by auto
  show ?thesis
    using reg val sch quo pol res anc u s' t
    by (auto simp: issuance_ok_def exit_callback_context_restores emit_def)
qed

lemma revoke_internal_effect:
  assumes "revoke_internal cx u s = Inr s'"
  shows "\<exists>a w. read_attestation (st_store s) u = Some a \<and> a_revocable a \<and> a_revocation_time a = 0 \<and>
    anchors (st_store s) (u, True) = None \<and>
    s' = s\<lparr>st_store := revoke_in_store (led cx) u a (st_store s),
      st_events := st_events s @ [RevokedEv u (timestamp (led cx))], st_world := w\<rparr>"
proof -
  let ?g = "\<lparr>reentrancy_guard = True, call_depth = Suc (call_depth (st_guard s))\<rparr>"
  let ?c = "\<lambda>ix. x_handle_revoke (ext cx) (led cx) ix u"
  from assms obtain a w where
    rd: "read_attestation (st_store s) u = Some a" "a_revocable a" "a_revocation_time a = 0" and
    anc: "anchors (st_store s) (u, True) = None" and
    s': "s' = exit_callback_context (\<not> reentrancy_guard (st_guard s)) (tell_indexer ?c
        (s\<lparr>st_guard := ?g, st_store := revoke_in_store (led cx) u a (st_store s),
           st_events := st_events s @ [RevokedEv u (timestamp (led cx))], st_world := w\<rparr>))"
    by (auto simp: revoke_internal_def result_iff Let_def revoke_in_store_def anchor_now_def emit_def)
  with tell_indexer_world [of ?c "s\<lparr>st_guard := ?g,
      st_store := revoke_in_store (led cx) u a (st_store s),
      st_events := st_events s @ [RevokedEv u (timestamp (led cx))], st_world := w\<rparr>"]
  show ?thesis
    by (auto simp: exit_callback_context_restores)
qed

section \<open>Reading the store afterwards\<close>

lemma read_issue_in_store:
  "read_attestation (issue_in_store env a st) v =
   (if v = a_uid a then Some (a\<lparr>a_time := timestamp env\<rparr>) else read_attestation st v)"
  by (simp add: issue_in_store_def store.read_write)

lemma read_revoke_in_store:
  assumes "store_wf st" and "read_attestation st u = Some a"
  shows "read_attestation (revoke_in_store env u a st) v =
   (if v = u then Some (a\<lparr>a_revocation_time := timestamp env\<rparr>) else read_attestation st v)"
  using store.update_record [OF assms, where f = "\<lambda>a. a\<lparr>a_revocation_time := timestamp env\<rparr>"]
  by (simp add: revoke_in_store_def)

lemma store_wf_issue [simp]: "store_wf st \<Longrightarrow> store_wf (issue_in_store env a st)"
  by (simp add: issue_in_store_def store.wf_write)

lemma store_wf_revoke [simp]: "store_wf st \<Longrightarrow> store_wf (revoke_in_store env u a st)"
  by (simp add: revoke_in_store_def store.wf_write)

lemma anchors_issue_in_store [simp]:
  "anchors (issue_in_store env a st) = (anchors st)((a_uid a, False) \<mapsto> anchor_now env)"
  by (simp add: issue_in_store_def)

lemma anchors_revoke_in_store [simp]:
  "anchors (revoke_in_store env u a st) = (anchors st)((u, True) \<mapsto> anchor_now env)"
  by (simp add: revoke_in_store_def)

lemma validate_new_attestation_Inr_iff [result_iff]:
  "validate_new_attestation cx a st = Inr z \<longleftrightarrow>
   length (a_data a) \<le> MAX_ATTESTATION_DATA_BYTES \<and> \<not> has_attestation st (a_uid a) \<and>
   a_uid a = attestation_uid (hst cx) (a_schema_uid a) (a_recipient a) (a_attester a) (a_data a) \<and>
   (a_expiration_time a = 0
    \<or> timestamp (led cx) < a_expiration_time a \<and> a_valid_from a < a_expiration_time a) \<and>
   {a_recipient a, a_attester a} \<inter> {zero_account, zero_contract} = {} \<and>
   a_recipient a \<noteq> a_attester a \<and> a_ref_uid a \<noteq> a_uid a \<and>
   (a_ref_uid a = 0 \<or> has_attestation st (a_ref_uid a))"
  by (auto simp: validate_new_attestation_def result_iff word_neq_0_conv not_less not_le)

lemma replace_internal_effect:
  assumes "replace_internal cx old_uid new old s = Inr (u, s')"
  shows "\<exists>s1 s2 w. a_revocable old \<and> a_revocation_time old = 0 \<and>
    (a_expiration_time old = 0 \<or> timestamp (led cx) < a_expiration_time old) \<and>
    a_attester new = a_attester old \<and> a_recipient new = a_recipient old \<and>
    (a_expiration_time old = 0 \<or> a_expiration_time new = 0
     \<or> a_expiration_time old \<le> a_expiration_time new) \<and>
    revoke_internal cx old_uid s = Inr s1 \<and>
    attest_internal cx (new\<lparr>a_ref_uid := old_uid\<rparr>) s1 = Inr (u, s2) \<and> s' = s2\<lparr>st_world := w\<rparr>"
proof -
  let ?c = "\<lambda>ix. x_handle_replace (ext cx) (led cx) ix old_uid (a_uid new)"
  from assms obtain s1 s2 where
    "a_revocable old" "a_revocation_time old = 0"
    "a_expiration_time old = 0 \<or> timestamp (led cx) < a_expiration_time old"
    "a_attester new = a_attester old" "a_recipient new = a_recipient old"
    "a_expiration_time old = 0 \<or> a_expiration_time new = 0
     \<or> a_expiration_time old \<le> a_expiration_time new"
    "revoke_internal cx old_uid s = Inr s1"
    "attest_internal cx (new\<lparr>a_ref_uid := old_uid\<rparr>) s1 = Inr (u, s2)"
    "s' = tell_indexer ?c s2"
    by (auto simp: replace_internal_def result_iff is_ok_iff Let_def not_less not_le)
  with tell_indexer_world [of ?c s2] show ?thesis
    by blast
qed

text \<open>Under the fail-open policy nothing but the checks themselves can stop an issuance.\<close>

lemma index_if_bound_open:
  "\<not> indexer_strict (st_config s) \<Longrightarrow> \<exists>s'. index_if_bound cx a s = Inr s'"
  by (cases "indexer (st_config s)")
    (auto simp: index_if_bound_def notify_indexer_of_issuance_def push_to_indexer_def split_def
      Let_def split: option.splits)

lemma attest_internal_succeeds:
  assumes "issuance_ok cx a s" and "call_depth (st_guard s) < u32_max"
    and "\<not> indexer_strict (st_config s)"
  shows "\<exists>s'. attest_internal cx a s = Inr (a_uid a, s')"
proof -
  let ?g = "\<lparr>reentrancy_guard = True, call_depth = Suc (call_depth (st_guard s))\<rparr>"
  let ?a = "a\<lparr>a_time := timestamp (led cx)\<rparr>"
  from assms(1) obtain registry schema w where
    "schema_registry (st_config s) = Some registry"
    "validate_new_attestation cx a (st_store s) = Inr ()"
    "resolve_schema cx registry a (st_world s) = Inr schema"
    "quota_left (led cx) (a_attester a) (st_rate s)"
    "check_policy (case x_get_schema_policy (ext cx) (led cx) registry (a_schema_uid a)
        (st_world s) of Some p \<Rightarrow> p | None \<Rightarrow> policy_from_bool (sr_revocable schema))
        (a_revocable a) = Inr ()"
    "x_on_attest (ext cx) (led cx) (sr_resolver schema) a (st_world s) = Some w"
    "anchors (st_store s) (a_uid a, False) = None"
    by (auto simp: issuance_ok_def)
  moreover obtain t where "index_if_bound cx ?a (s\<lparr>st_guard := ?g,
        st_rate := quota_rate (led cx) (a_attester a) (st_rate s), st_world := w,
        st_store := issue_in_store (led cx) a (st_store s)\<rparr>) = Inr t"
    using index_if_bound_open [of "s\<lparr>st_guard := ?g,
        st_rate := quota_rate (led cx) (a_attester a) (st_rate s), st_world := w,
        st_store := issue_in_store (led cx) a (st_store s)\<rparr>" cx ?a] assms(3) by auto
  ultimately have "attest_internal cx a s = Inr (a_uid a,
      exit_callback_context (\<not> reentrancy_guard (st_guard s))
        (emit (Attested (a_uid a) (a_schema_uid a) (a_attester a) (a_recipient a)) t))"
    using assms(2)
    by (auto simp: attest_internal_def result_iff Let_def issue_in_store_def anchor_now_def)
  then show ?thesis
    by blast
qed

end
