(* ===== verification/Sas_Keys.thy ===== *)
theory Sas_Keys
  imports Sas_Core
begin

text \<open>
  Delegated authority in the SAS contract: registered attester keys and their life cycle, the FROST
  group of a schema, and the nonce watermarks that make a signature usable once. Both watermarks
  (of attesters and of consenting recipients) are instances of the locale \<open>nonce_watermark\<close>, whose
  lemmas show that the accepted nonces of one signer are strictly increasing.
\<close>

section \<open>Attester keys\<close>

definition set_key :: "address \<Rightarrow> attester_key_record \<Rightarrow> 'w sas_state \<Rightarrow> 'w sas_state" where
  "set_key who record s =
     s\<lparr>st_keys := (st_keys s)\<lparr>attester_keys := (attester_keys (st_keys s))(who \<mapsto> record)\<rparr>\<rparr>"

definition register_attester_key ::
  "ledger_env \<Rightarrow> address \<Rightarrow> bytes32 \<Rightarrow> 'w sas_state \<Rightarrow> 'w sas_state sas_result" where
  "register_attester_key env attester public_key s =
     bind_r (reject_reentrant s) (\<lambda>_.
     if is_paused_status s then Inl (Panic ProtocolPaused)
     else
       bind_r (require_auth env attester) (\<lambda>_.
       let existing = attester_keys (st_keys s) attester in
       if (case existing of Some record \<Rightarrow> \<not> k_revoked record | None \<Rightarrow> False)
       then Inl (Panic AttesterKeyAlreadyRegistered)
       else
         bind_r (case existing of Some record \<Rightarrow> add_u32 (k_version record) 1 | None \<Rightarrow> Inr 1)
           (\<lambda>version.
         Inr (emit (AttesterKeyRegistered attester public_key version)
               (set_key attester
                 \<lparr>k_public_key = public_key, k_version = version, k_revoked = False\<rparr> s)))))"

definition rotate_attester_key ::
  "ledger_env \<Rightarrow> address \<Rightarrow> bytes32 \<Rightarrow> 'w sas_state \<Rightarrow> 'w sas_state sas_result" where
  "rotate_attester_key env attester new_public_key s =
     bind_r (reject_reentrant s) (\<lambda>_.
     if is_paused_status s then Inl (Panic ProtocolPaused)
     else
       bind_r (require_auth env attester) (\<lambda>_.
       bind_r (or_panic AttesterKeyNotFound (attester_keys (st_keys s) attester)) (\<lambda>record.
       if k_revoked record then Inl (Panic AttesterKeyRevoked)
       else
         bind_r (add_u32 (k_version record) 1) (\<lambda>new_version.
         Inr (emit (AttesterKeyRotated attester (k_public_key record) new_public_key new_version)
               (set_key attester
                 \<lparr>k_public_key = new_public_key, k_version = new_version, k_revoked = False\<rparr> s))))))"

definition revoke_attester_key ::
  "ledger_env \<Rightarrow> address \<Rightarrow> 'w sas_state \<Rightarrow> 'w sas_state sas_result" where
  "revoke_attester_key env attester s =
     bind_r (reject_reentrant s) (\<lambda>_.
     if is_paused_status s then Inl (Panic ProtocolPaused)
     else
       bind_r (require_auth env attester) (\<lambda>_.
       bind_r (or_panic AttesterKeyNotFound (attester_keys (st_keys s) attester)) (\<lambda>record.
       if k_revoked record then Inl (Panic AttesterKeyRevoked)
       else
         Inr (emit (AttesterKeyRevokedEv attester (k_public_key record) (k_version record))
               (set_key attester (record\<lparr>k_revoked := True\<rparr>) s)))))"

definition registered_key_matches :: "'w sas_state \<Rightarrow> address \<Rightarrow> bytes32 \<Rightarrow> bool" where
  "registered_key_matches s attester public_key =
     (case attester_keys (st_keys s) attester of
        Some record \<Rightarrow> \<not> k_revoked record \<and> k_public_key record = public_key
      | None \<Rightarrow> False)"

definition require_attester_key ::
  "host \<Rightarrow> 'w sas_state \<Rightarrow> address \<Rightarrow> bytes32 \<Rightarrow> unit sas_result" where
  "require_attester_key h s attester public_key =
     (if \<not> attester_matches_key h attester public_key
         \<and> \<not> registered_key_matches s attester public_key
      then Inl (Panic Unauthorized) else Inr ())"

definition schema_frost_group :: "'w ctx \<Rightarrow> uid \<Rightarrow> 'w sas_state \<Rightarrow> frost_group option sas_result" where
  "schema_frost_group cx suid s =
     bind_r (require_registry s) (\<lambda>registry.
     Inr (case x_get_schema_frost_group (ext cx) (led cx) registry suid (st_world s) of
            Some g \<Rightarrow> g | None \<Rightarrow> None))"

definition require_delegation_key ::
  "'w ctx \<Rightarrow> uid \<Rightarrow> address \<Rightarrow> bytes32 \<Rightarrow> 'w sas_state \<Rightarrow> frost_group option sas_result" where
  "require_delegation_key cx suid attester public_key s =
     bind_r (schema_frost_group cx suid s) (\<lambda>grp.
     case grp of
       Some g \<Rightarrow>
         if public_key \<noteq> fg_group_public_key g then Inl (Panic Unauthorized) else Inr (Some g)
     | None \<Rightarrow>
         bind_r (require_attester_key (hst cx) s attester public_key) (\<lambda>_. Inr None))"

definition verify_delegated_signature ::
  "host \<Rightarrow> bytes32 \<Rightarrow> bytes32 \<Rightarrow> bytes64 \<Rightarrow> frost_group option \<Rightarrow> unit sas_result" where
  "verify_delegated_signature h payload_hash public_key signature grp =
     (case grp of
        Some g \<Rightarrow> verify_frost_aggregate_signature h payload_hash g signature
      | None \<Rightarrow> verify_offchain_signature h payload_hash public_key signature)"

definition set_delegation_policy ::
  "ledger_env \<Rightarrow> address \<Rightarrow> delegation_policy \<Rightarrow> 'w sas_state \<Rightarrow> 'w sas_state sas_result" where
  "set_delegation_policy env attester policy s =
     bind_r (require_auth env attester) (\<lambda>_.
     Inr (s\<lparr>st_keys := (st_keys s)\<lparr>delegation_policies :=
            (delegation_policies (st_keys s))(attester \<mapsto> policy)\<rparr>\<rparr>))"

section \<open>Nonces\<close>

definition nonce_replayed :: "u64 option \<Rightarrow> u64 \<Rightarrow> bool" where
  "nonce_replayed recorded nonce = (case recorded of Some l \<Rightarrow> nonce \<le> l | None \<Rightarrow> False)"

definition set_delegation_nonce :: "address \<Rightarrow> u64 \<Rightarrow> 'w sas_state \<Rightarrow> 'w sas_state" where
  "set_delegation_nonce who nonce s =
     s\<lparr>st_keys := (st_keys s)\<lparr>delegation_nonces := (delegation_nonces (st_keys s))(who \<mapsto> nonce)\<rparr>\<rparr>"

definition require_nonce_not_replayed :: "'w sas_state \<Rightarrow> address \<Rightarrow> u64 \<Rightarrow> unit sas_result" where
  "require_nonce_not_replayed s attester nonce =
     (if nonce_replayed (delegation_nonces (st_keys s) attester) nonce
      then Inl (Panic DelegationReplay) else Inr ())"

definition consume_delegation_nonce ::
  "address \<Rightarrow> u64 \<Rightarrow> 'w sas_state \<Rightarrow> 'w sas_state sas_result" where
  "consume_delegation_nonce attester nonce s =
     (if nonce_replayed (delegation_nonces (st_keys s) attester) nonce
      then Inl (Panic DelegationReplay) else Inr (set_delegation_nonce attester nonce s))"

definition consume_recipient_consent_nonce ::
  "address \<Rightarrow> u64 \<Rightarrow> 'w sas_state \<Rightarrow> 'w sas_state sas_result" where
  "consume_recipient_consent_nonce recipient nonce s =
     (if nonce_replayed (consent_nonces (st_keys s) recipient) nonce
      then Inl (Panic DelegationReplay)
      else Inr (s\<lparr>st_keys := (st_keys s)\<lparr>consent_nonces :=
                  (consent_nonces (st_keys s))(recipient \<mapsto> nonce)\<rparr>\<rparr>))"

definition get_nonce_highwater_mark :: "'w sas_state \<Rightarrow> address \<Rightarrow> u64" where
  "get_nonce_highwater_mark s attester =
     (case delegation_nonces (st_keys s) attester of Some n \<Rightarrow> n | None \<Rightarrow> 0)"

definition invalidate_nonces_internal ::
  "address \<Rightarrow> u64 \<Rightarrow> u64 \<Rightarrow> 'w sas_state \<Rightarrow> 'w sas_state sas_result" where
  "invalidate_nonces_internal attester min_nonce max_nonce s =
     (if max_nonce \<le> get_nonce_highwater_mark s attester then Inl (Panic InvalidValue)
      else Inr (emit (NoncesInvalidated attester min_nonce max_nonce)
                 (set_delegation_nonce attester max_nonce s)))"

definition invalidate_nonces ::
  "ledger_env \<Rightarrow> address \<Rightarrow> u64 \<Rightarrow> u64 \<Rightarrow> 'w sas_state \<Rightarrow> 'w sas_state sas_result" where
  "invalidate_nonces env attester min_nonce max_nonce s =
     bind_r (reject_reentrant s) (\<lambda>_.
     if is_paused_status s then Inl (Panic ProtocolPaused)
     else if min_nonce > max_nonce then Inl (Panic InvalidValue)
     else
       bind_r (require_auth env attester) (\<lambda>_.
       invalidate_nonces_internal attester min_nonce max_nonce s))"

definition set_nonce_highwater_mark ::
  "ledger_env \<Rightarrow> address \<Rightarrow> u64 \<Rightarrow> 'w sas_state \<Rightarrow> 'w sas_state sas_result" where
  "set_nonce_highwater_mark env attester new_nonce s =
     bind_r (reject_reentrant s) (\<lambda>_.
     if is_paused_status s then Inl (Panic ProtocolPaused)
     else
       bind_r (require_auth env attester) (\<lambda>_.
       let min_nonce = saturating_add_u64 (get_nonce_highwater_mark s attester) 1
       in invalidate_nonces_internal attester min_nonce new_nonce s))"

text \<open>The domain every signed payload of this contract names.\<close>

definition domain_of :: "ledger_env \<Rightarrow> u64 \<Rightarrow> attestation_domain" where
  "domain_of env nonce =
     \<lparr>d_network_id = network_id env, d_contract = current_contract env, d_nonce = nonce\<rparr>"

definition invalidate_nonces_by_delegation ::
  "'w ctx \<Rightarrow> address \<Rightarrow> u64 \<Rightarrow> u64 \<Rightarrow> u64 \<Rightarrow> bytes64 \<Rightarrow> bytes32 \<Rightarrow> 'w sas_state \<Rightarrow>
   'w sas_state sas_result" where
  "invalidate_nonces_by_delegation cx attester min_nonce max_nonce nonce signature public_key s =
     bind_r (reject_reentrant s) (\<lambda>_.
     if is_paused_status s then Inl (Panic ProtocolPaused)
     else if min_nonce > max_nonce then Inl (Panic InvalidValue)
     else
       bind_r (require_attester_key (hst cx) s attester public_key) (\<lambda>_.
       let payload_hash = hash_delegated_nonce_invalidation (hst cx) attester min_nonce max_nonce
                            (domain_of (led cx) nonce) in
       bind_r (verify_offchain_signature (hst cx) payload_hash public_key signature) (\<lambda>_.
       bind_r (consume_delegation_nonce attester nonce s) (\<lambda>s.
       invalidate_nonces_internal attester min_nonce max_nonce s))))"

section \<open>The watermark interface\<close>

text \<open>
  A per-signer watermark: a nonce above the recorded one is accepted and recorded, any other is a
  replay, and recording one signer's nonce leaves the other signers alone.
\<close>

locale nonce_watermark =
  fixes mark :: "'s \<Rightarrow> address \<Rightarrow> u64 option"
    and consume :: "address \<Rightarrow> u64 \<Rightarrow> 's \<Rightarrow> 's sas_result"
  assumes consume_replay: "mark s who = Some m \<Longrightarrow> n \<le> m \<Longrightarrow>
      consume who n s = Inl (Panic DelegationReplay)"
    and consume_fresh: "(\<And>m. mark s who = Some m \<Longrightarrow> m < n) \<Longrightarrow> \<exists>s'. consume who n s = Inr s'"
    and mark_consume: "consume who n s = Inr s' \<Longrightarrow>
      mark s' v = (if v = who then Some n else mark s v)"
begin

lemma consume_above: "consume who n s = Inr s' \<Longrightarrow> mark s who = Some m \<Longrightarrow> m < n"
  using consume_replay [of s who m n] by (cases "n \<le> m") auto

lemma consumed_is_replay:
  "consume who n s = Inr s' \<Longrightarrow> m \<le> n \<Longrightarrow> consume who m s' = Inl (Panic DelegationReplay)"
  using consume_replay [of s' who n m] mark_consume [of who n s s' who] by simp

text \<open>In a successful run of steps that each consume a nonce, the nonces of each signer are strictly
  increasing and above its watermark.\<close>

lemma run_increasing:
  assumes "fold_r step xs s = Inr t"
    and "\<And>x s s'. step x s = Inr s' \<Longrightarrow> \<exists>s1. consume (who x) (num x) s = Inr s1 \<and> mark s' = mark s1"
  shows "sorted_wrt (<) (map num (filter (\<lambda>x. who x = v) xs)) \<and>
    (\<forall>m x. mark s v = Some m \<longrightarrow> x \<in> set xs \<longrightarrow> who x = v \<longrightarrow> m < num x)"
  using assms(1)
proof (induction xs arbitrary: s)
  case (Cons x xs)
  then obtain s' where s': "step x s = Inr s'" and rest: "fold_r step xs s' = Inr t"
    by (auto simp: result_iff)
  from assms(2) [OF s'] obtain s1 where s1: "consume (who x) (num x) s = Inr s1" "mark s' = mark s1"
    by blast
  note IH = Cons.IH [OF rest]
  have upd: "mark s' v = (if v = who x then Some (num x) else mark s v)"
    using mark_consume [OF s1(1), of v] s1(2) by simp
  show ?case
  proof (cases "v = who x")
    case True
    then show ?thesis
      using IH upd consume_above [OF s1(1)] by fastforce
  next
    case False
    then show ?thesis
      using IH upd by auto
  qed
qed simp

end

lemma set_delegation_nonce_simps [simp]:
  "delegation_nonces (st_keys (set_delegation_nonce who n s)) =
     (delegation_nonces (st_keys s))(who \<mapsto> n)"
  "st_config (set_delegation_nonce who n s) = st_config s"
  "st_fees (set_delegation_nonce who n s) = st_fees s"
  "st_rate (set_delegation_nonce who n s) = st_rate s"
  "st_guard (set_delegation_nonce who n s) = st_guard s"
  "st_store (set_delegation_nonce who n s) = st_store s"
  "st_world (set_delegation_nonce who n s) = st_world s"
  by (simp_all add: set_delegation_nonce_def)

lemma nonce_replayed_iff: "nonce_replayed l n \<longleftrightarrow> (\<exists>m. l = Some m \<and> n \<le> m)"
  by (cases l) (auto simp: nonce_replayed_def)

interpretation delegation: nonce_watermark
  "\<lambda>s. delegation_nonces (st_keys s)" "consume_delegation_nonce"
  by unfold_locales
    (auto simp: consume_delegation_nonce_def nonce_replayed_iff not_le split: if_splits)

interpretation consent: nonce_watermark
  "\<lambda>s. consent_nonces (st_keys s)" "consume_recipient_consent_nonce"
  by unfold_locales
    (auto simp: consume_recipient_consent_nonce_def nonce_replayed_iff not_le split: if_splits)

lemma require_nonce_Inr_iff [result_iff]:
  "require_nonce_not_replayed s who n = Inr u \<longleftrightarrow>
   (\<forall>m. delegation_nonces (st_keys s) who = Some m \<longrightarrow> m < n)"
  by (auto simp: require_nonce_not_replayed_def nonce_replayed_iff not_le)

lemma consume_delegation_nonce_Inr_iff [result_iff]:
  "consume_delegation_nonce who n s = Inr s' \<longleftrightarrow>
   (\<forall>m. delegation_nonces (st_keys s) who = Some m \<longrightarrow> m < n) \<and> s' = set_delegation_nonce who n s"
  by (auto simp: consume_delegation_nonce_def nonce_replayed_iff not_le)

lemma require_attester_key_Inr_iff [result_iff]:
  "require_attester_key h s who k = Inr u \<longleftrightarrow>
   attester_matches_key h who k \<or> registered_key_matches s who k"
  by (auto simp: require_attester_key_def)

section \<open>Who may sign for an attester\<close>

text \<open>
  The key a delegated signature must come from: the group key where the schema declares a FROST
  group, and otherwise the attester's account key or its registered key while it is not revoked.
\<close>

definition key_bound :: "'w ctx \<Rightarrow> uid \<Rightarrow> address \<Rightarrow> bytes32 \<Rightarrow> 'w sas_state \<Rightarrow> bool" where
  "key_bound cx suid attester public_key s \<longleftrightarrow>
     (case schema_frost_group cx suid s of
        Inr (Some g) \<Rightarrow> public_key = fg_group_public_key g
      | Inr None \<Rightarrow> attester_matches_key (hst cx) attester public_key
                    \<or> registered_key_matches s attester public_key
      | Inl _ \<Rightarrow> False)"

lemma require_delegation_key_bound:
  "require_delegation_key cx suid attester public_key s = Inr grp \<Longrightarrow>
   key_bound cx suid attester public_key s"
  by (auto simp: require_delegation_key_def key_bound_def result_iff split: option.splits)

text \<open>Whichever way the key was bound, the signature is checked under that key.\<close>

lemma verify_delegated_signature_key:
  "require_delegation_key cx suid attester public_key s = Inr grp \<Longrightarrow>
   verify_delegated_signature h d public_key signature grp =
   verify_offchain_signature h d public_key signature"
  by (auto simp: require_delegation_key_def verify_delegated_signature_def result_iff
      verify_frost_aggregate_signature_def split: option.splits)

lemma consume_recipient_nonce_Inr_iff [result_iff]:
  "consume_recipient_consent_nonce who n s = Inr s' \<longleftrightarrow>
   (\<forall>m. consent_nonces (st_keys s) who = Some m \<longrightarrow> m < n) \<and>
   s' = s\<lparr>st_keys := (st_keys s)\<lparr>consent_nonces := (consent_nonces (st_keys s))(who \<mapsto> n)\<rparr>\<rparr>"
  by (auto simp: consume_recipient_consent_nonce_def nonce_replayed_iff not_le)

end
