(* ===== verification/Merkle.thy ===== *)
theory Merkle
  imports Typed_Data
begin

text \<open>
  The Merkle trees of \<^verbatim>\<open>packages/soroban-sas-common/src/merkle.rs\<close>: tagged leaf and node hashes, the
  level-by-level root computation and the proof check. The root computation is related to a binary
  tree; completeness gives every committed leaf an accepted proof, and soundness turns an accepted
  proof of a leaf outside the tree into a collision between two listed hash inputs.
\<close>

section \<open>Model\<close>

datatype merkle_hash = Sha256 | Keccak256

definition MAX_MERKLE_PROOF_DEPTH :: nat where
  "MAX_MERKLE_PROOF_DEPTH = 32"

definition digest :: "host \<Rightarrow> merkle_hash \<Rightarrow> bytes \<Rightarrow> bytes32" where
  "digest h algo buf = (case algo of Sha256 \<Rightarrow> sha256 h buf | Keccak256 \<Rightarrow> keccak256 h buf)"

definition leaf_preimage :: "bytes \<Rightarrow> bytes" where
  "leaf_preimage d = 0x00 # d"

definition leaf_hash_with :: "host \<Rightarrow> merkle_hash \<Rightarrow> bytes \<Rightarrow> bytes32" where
  "leaf_hash_with h algo d = digest h algo (leaf_preimage d)"

definition node_preimage :: "bytes32 \<Rightarrow> bytes32 \<Rightarrow> bytes" where
  "node_preimage a b =
     (let (left, right) = (if a \<le> b then (a, b) else (b, a))
      in 0x01 # bytes32_to_array left @ bytes32_to_array right)"

definition node_hash_with :: "host \<Rightarrow> merkle_hash \<Rightarrow> bytes32 \<Rightarrow> bytes32 \<Rightarrow> bytes32" where
  "node_hash_with h algo a b = digest h algo (node_preimage a b)"

definition leaf_hash :: "host \<Rightarrow> bytes \<Rightarrow> bytes32" where
  "leaf_hash h d = leaf_hash_with h Sha256 d"

definition node_hash :: "host \<Rightarrow> bytes32 \<Rightarrow> bytes32 \<Rightarrow> bytes32" where
  "node_hash h a b = node_hash_with h Sha256 a b"

text \<open>One pass of the outer loop: neighbours are combined, an odd last node is promoted unchanged.\<close>

fun next_level :: "('n \<Rightarrow> 'n \<Rightarrow> 'n) \<Rightarrow> 'n list \<Rightarrow> 'n list" where
  "next_level f (a # b # rest) = f a b # next_level f rest"
| "next_level f rest = rest"

lemma length_next_level: "length (next_level f xs) = (length xs + 1) div 2"
  by (induction f xs rule: next_level.induct) auto

function reduce_levels :: "('n \<Rightarrow> 'n \<Rightarrow> 'n) \<Rightarrow> 'n list \<Rightarrow> 'n list" where
  "reduce_levels f level = (if length level > 1 then reduce_levels f (next_level f level) else level)"
  by pat_completeness auto
termination
  by (relation "measure (\<lambda>(f, level). length level)") (auto simp: length_next_level)

declare reduce_levels.simps [simp del]

lemma reduce_levels_step: "length xs > 1 \<Longrightarrow> reduce_levels f xs = reduce_levels f (next_level f xs)"
  by (subst reduce_levels.simps) simp

lemma reduce_levels_stop: "\<not> length xs > 1 \<Longrightarrow> reduce_levels f xs = xs"
  by (subst reduce_levels.simps) simp

definition merkle_root :: "host \<Rightarrow> bytes list \<Rightarrow> bytes32 sas_result" where
  "merkle_root h leaves =
     (case reduce_levels (node_hash h) (map (leaf_hash h) leaves) of
        [] \<Rightarrow> Inl HostTrap
      | root # _ \<Rightarrow> Inr root)"

definition verify_proof :: "host \<Rightarrow> bytes32 \<Rightarrow> bytes \<Rightarrow> bytes32 list \<Rightarrow> bool" where
  "verify_proof h root leaf_data steps =
     (fold (\<lambda>sibling current. node_hash h current sibling) steps (leaf_hash h leaf_data) = root)"

definition verify_proof_with ::
  "host \<Rightarrow> merkle_hash \<Rightarrow> bytes32 \<Rightarrow> bytes \<Rightarrow> bytes32 list \<Rightarrow> bool" where
  "verify_proof_with h algo root leaf_data siblings =
     (if length siblings > MAX_MERKLE_PROOF_DEPTH then False
      else fold (\<lambda>sibling current. node_hash_with h algo current sibling) siblings
             (leaf_hash_with h algo leaf_data) = root)"

section \<open>The tree behind the levels\<close>

datatype mtree = MLeaf bytes | MNode mtree mtree

primrec tree_root :: "host \<Rightarrow> merkle_hash \<Rightarrow> mtree \<Rightarrow> bytes32" where
  "tree_root h algo (MLeaf d) = leaf_hash_with h algo d"
| "tree_root h algo (MNode l r) = node_hash_with h algo (tree_root h algo l) (tree_root h algo r)"

primrec tree_leaves :: "mtree \<Rightarrow> bytes list" where
  "tree_leaves (MLeaf d) = [d]"
| "tree_leaves (MNode l r) = tree_leaves l @ tree_leaves r"

primrec tree_height :: "mtree \<Rightarrow> nat" where
  "tree_height (MLeaf d) = 0"
| "tree_height (MNode l r) = Suc (max (tree_height l) (tree_height r))"

text \<open>The inputs hashed while computing a root, and while checking a proof.\<close>

primrec tree_preimages :: "host \<Rightarrow> merkle_hash \<Rightarrow> mtree \<Rightarrow> bytes list" where
  "tree_preimages h algo (MLeaf d) = [leaf_preimage d]"
| "tree_preimages h algo (MNode l r) =
     node_preimage (tree_root h algo l) (tree_root h algo r)
     # tree_preimages h algo l @ tree_preimages h algo r"

fun climb :: "host \<Rightarrow> merkle_hash \<Rightarrow> bytes32 list \<Rightarrow> bytes32 \<Rightarrow> bytes32" where
  "climb h algo siblings current =
     fold (\<lambda>sibling current. node_hash_with h algo current sibling) siblings current"

fun climb_preimages :: "host \<Rightarrow> merkle_hash \<Rightarrow> bytes32 list \<Rightarrow> bytes32 \<Rightarrow> bytes list" where
  "climb_preimages h algo [] current = []"
| "climb_preimages h algo (s # siblings) current =
     node_preimage current s # climb_preimages h algo siblings (node_hash_with h algo current s)"

definition proof_preimages :: "host \<Rightarrow> merkle_hash \<Rightarrow> bytes \<Rightarrow> bytes32 list \<Rightarrow> bytes list" where
  "proof_preimages h algo leaf siblings =
     leaf_preimage leaf # climb_preimages h algo siblings (leaf_hash_with h algo leaf)"

definition digest_collision :: "host \<Rightarrow> merkle_hash \<Rightarrow> bytes list \<Rightarrow> bytes list \<Rightarrow> bool" where
  "digest_collision h algo xs ys =
     (\<exists>x \<in> set xs. \<exists>y \<in> set ys. x \<noteq> y \<and> digest h algo x = digest h algo y)"

lemma climb_preimages_snoc:
  "climb_preimages h algo (siblings @ [s]) c =
   climb_preimages h algo siblings c @ [node_preimage (climb h algo siblings c) s]"
  by (induction siblings arbitrary: c) simp_all

lemma proof_preimages_snoc:
  "proof_preimages h algo leaf (siblings @ [s]) =
   proof_preimages h algo leaf siblings @
   [node_preimage (climb h algo siblings (leaf_hash_with h algo leaf)) s]"
  by (simp add: proof_preimages_def climb_preimages_snoc del: climb.simps)

lemma digest_collisionI:
  "x \<in> set xs \<Longrightarrow> y \<in> set ys \<Longrightarrow> x \<noteq> y \<Longrightarrow> digest h algo x = digest h algo y \<Longrightarrow>
   digest_collision h algo xs ys"
  by (auto simp: digest_collision_def)

lemma digest_collision_mono:
  "digest_collision h algo xs ys \<Longrightarrow> set xs \<subseteq> set xs' \<Longrightarrow> set ys \<subseteq> set ys' \<Longrightarrow>
   digest_collision h algo xs' ys'"
  unfolding digest_collision_def by blast

lemma node_preimage_sym: "node_preimage a b = node_preimage b a"
  by (auto simp: node_preimage_def)

lemma node_preimage_inject:
  "node_preimage a b = node_preimage c d \<Longrightarrow> a = c \<and> b = d \<or> a = d \<and> b = c"
  by (auto simp: node_preimage_def split: if_splits)

lemma leaf_node_preimage [simp]: "leaf_preimage d \<noteq> node_preimage a b"
  "node_preimage a b \<noteq> leaf_preimage d"
  by (auto simp: leaf_preimage_def node_preimage_def split_def)

section \<open>Soundness\<close>

lemma tree_proof_sound:
  assumes "climb h algo siblings (leaf_hash_with h algo leaf) = tree_root h algo t"
  shows "leaf \<in> set (tree_leaves t)
    \<or> digest_collision h algo (tree_preimages h algo t) (proof_preimages h algo leaf siblings)"
  using assms
proof (induction siblings arbitrary: t rule: rev_induct)
  case Nil
  show ?case
  proof (cases t)
    case (MLeaf d)
    with Nil show ?thesis
      by (auto simp: leaf_hash_with_def proof_preimages_def leaf_preimage_def digest_collision_def)
  next
    case (MNode l r)
    with Nil show ?thesis
      by (auto simp: leaf_hash_with_def node_hash_with_def proof_preimages_def
          intro!: digest_collisionI [of "node_preimage (tree_root h algo l) (tree_root h algo r)"])
  qed
next
  case (snoc s siblings)
  let ?c = "climb h algo siblings (leaf_hash_with h algo leaf)"
  have top: "digest h algo (node_preimage ?c s) = tree_root h algo t"
    using snoc.prems by (simp add: node_hash_with_def)
  have mem: "node_preimage ?c s \<in> set (proof_preimages h algo leaf (siblings @ [s]))"
    unfolding proof_preimages_snoc by simp
  have sub: "set (proof_preimages h algo leaf siblings)
      \<subseteq> set (proof_preimages h algo leaf (siblings @ [s]))"
    unfolding proof_preimages_snoc by auto
  show ?case
  proof (cases t)
    case (MLeaf d)
    have "digest_collision h algo (tree_preimages h algo t)
        (proof_preimages h algo leaf (siblings @ [s]))"
      using top MLeaf mem
      by (intro digest_collisionI [of "leaf_preimage d" _ "node_preimage ?c s"])
        (simp_all del: climb.simps add: leaf_hash_with_def)
    then show ?thesis ..
  next
    case (MNode l r)
    show ?thesis
    proof (cases "node_preimage (tree_root h algo l) (tree_root h algo r) = node_preimage ?c s")
      case True
      then have "?c = tree_root h algo l \<or> ?c = tree_root h algo r"
        by (auto dest: node_preimage_inject)
      moreover have "digest_collision h algo (tree_preimages h algo t)
          (proof_preimages h algo leaf (siblings @ [s]))"
        if "digest_collision h algo (tree_preimages h algo u) (proof_preimages h algo leaf siblings)"
          "u = l \<or> u = r" for u
        using that(2) by (intro digest_collision_mono [OF that(1) _ sub]) (auto simp: MNode)
      ultimately show ?thesis
        using snoc.IH [of l] snoc.IH [of r] MNode by auto
    next
      case False
      have "digest_collision h algo (tree_preimages h algo t)
          (proof_preimages h algo leaf (siblings @ [s]))"
        using top MNode mem False
        by (intro digest_collisionI [of "node_preimage (tree_root h algo l) (tree_root h algo r)" _
              "node_preimage ?c s"])
          (simp_all del: climb.simps add: node_hash_with_def)
      then show ?thesis ..
    qed
  qed
qed

section \<open>Completeness\<close>

lemma tree_proof_complete:
  assumes "leaf \<in> set (tree_leaves t)"
  shows "\<exists>siblings. length siblings \<le> tree_height t \<and>
    climb h algo siblings (leaf_hash_with h algo leaf) = tree_root h algo t"
  using assms
proof (induction t)
  case (MLeaf d)
  then show ?case
    by (intro exI [of _ "[]"]) simp
next
  case (MNode l r)
  have extend: ?case
    if "length sib \<le> max (tree_height l) (tree_height r)"
      "climb h algo sib (leaf_hash_with h algo leaf) = x"
      "node_hash_with h algo x y = tree_root h algo (MNode l r)" for sib x y
    using that by (intro exI [of _ "sib @ [y]"]) simp
  have sym: "node_hash_with h algo x y = node_hash_with h algo y x" for x y
    by (simp add: node_hash_with_def node_preimage_sym)
  from MNode consider
    sib where "length sib \<le> tree_height l"
      "climb h algo sib (leaf_hash_with h algo leaf) = tree_root h algo l"
  | sib where "length sib \<le> tree_height r"
      "climb h algo sib (leaf_hash_with h algo leaf) = tree_root h algo r"
    by (auto simp del: climb.simps)
  then show ?case
  proof cases
    case (1 sib)
    then show ?thesis
      by (intro extend [of sib _ "tree_root h algo r"]) auto
  next
    case (2 sib)
    then show ?thesis
      by (intro extend [of sib _ "tree_root h algo l"]) (auto simp: sym)
  qed
qed

section \<open>The root computation builds such a tree\<close>

lemma next_level_map:
  "(\<And>x y. g (f x y) = f' (g x) (g y)) \<Longrightarrow> next_level f' (map g xs) = map g (next_level f xs)"
  by (induction f xs rule: next_level.induct) auto

lemma reduce_levels_map:
  "(\<And>x y. g (f x y) = f' (g x) (g y)) \<Longrightarrow> reduce_levels f' (map g xs) = map g (reduce_levels f xs)"
proof (induction f xs rule: reduce_levels.induct)
  case (1 f level)
  then show ?case
    using next_level_map [of g f f' level]
    by (cases "length level > 1") (simp_all add: reduce_levels_step reduce_levels_stop)
qed

lemma next_level_leaves:
  "concat (map tree_leaves (next_level MNode ts)) = concat (map tree_leaves ts)"
  by (induction MNode ts rule: next_level.induct) auto

lemma reduce_levels_leaves:
  "concat (map tree_leaves (reduce_levels MNode ts)) = concat (map tree_leaves ts)"
proof (induction MNode ts rule: reduce_levels.induct)
  case (1 level)
  then show ?case
    by (cases "length level > 1") (simp_all add: reduce_levels_step reduce_levels_stop next_level_leaves)
qed

lemma length_reduce_levels: "xs \<noteq> [] \<Longrightarrow> length (reduce_levels f xs) = 1"
proof (induction f xs rule: reduce_levels.induct)
  case (1 f level)
  show ?case
  proof (cases "length level > 1")
    case True
    then have "next_level f level \<noteq> []"
      by (auto simp: length_next_level simp flip: length_0_conv)
    with 1 True show ?thesis
      by (simp add: reduce_levels_step)
  next
    case False
    with 1 show ?thesis
      by (cases level) (auto simp: reduce_levels_stop)
  qed
qed

lemma next_level_heights:
  "(\<forall>t \<in> set ts. tree_height t \<le> n) \<Longrightarrow> t \<in> set (next_level MNode ts) \<Longrightarrow> tree_height t \<le> Suc n"
  by (induction MNode ts rule: next_level.induct) (auto intro: le_SucI)

lemma reduce_levels_heights:
  "length ts \<le> 2 ^ k \<Longrightarrow> (\<forall>t \<in> set ts. tree_height t \<le> n) \<Longrightarrow>
   t \<in> set (reduce_levels MNode ts) \<Longrightarrow> tree_height t \<le> n + k"
proof (induction k arbitrary: ts n)
  case 0
  then show ?case
    by (auto simp: reduce_levels_stop)
next
  case (Suc k)
  show ?case
  proof (cases "length ts > 1")
    case True
    have "length (next_level MNode ts) \<le> 2 ^ k"
      using Suc.prems(1) by (simp add: length_next_level)
    moreover have "\<forall>t \<in> set (next_level MNode ts). tree_height t \<le> Suc n"
      using next_level_heights Suc.prems(2) by blast
    ultimately show ?thesis
      using Suc.IH [of "next_level MNode ts" "Suc n"] Suc.prems(3) True
      by (simp add: reduce_levels_step)
  next
    case False
    with Suc.prems show ?thesis
      by (auto simp: reduce_levels_stop)
  qed
qed

definition build_tree :: "bytes list \<Rightarrow> mtree" where
  "build_tree leaves = hd (reduce_levels MNode (map MLeaf leaves))"

lemma reduce_levels_build:
  "leaves \<noteq> [] \<Longrightarrow> reduce_levels MNode (map MLeaf leaves) = [build_tree leaves]"
  using length_reduce_levels [of "map MLeaf leaves" MNode]
  by (cases "reduce_levels MNode (map MLeaf leaves)") (auto simp: build_tree_def)

lemma tree_leaves_build: "leaves \<noteq> [] \<Longrightarrow> tree_leaves (build_tree leaves) = leaves"
  using reduce_levels_leaves [of "map MLeaf leaves"]
  by (simp add: reduce_levels_build comp_def)

lemma tree_height_build:
  "leaves \<noteq> [] \<Longrightarrow> length leaves \<le> 2 ^ k \<Longrightarrow> tree_height (build_tree leaves) \<le> k"
  using reduce_levels_heights [of "map MLeaf leaves" k 0 "build_tree leaves"]
  by (simp add: reduce_levels_build)

lemma merkle_root_build:
  "leaves \<noteq> [] \<Longrightarrow> merkle_root h leaves = Inr (tree_root h Sha256 (build_tree leaves))"
  using reduce_levels_map [of "tree_root h Sha256" MNode "node_hash h" "map MLeaf leaves"]
  by (simp add: merkle_root_def node_hash_def leaf_hash_def [abs_def] reduce_levels_build comp_def)

lemma merkle_root_Nil: "merkle_root h [] = Inl HostTrap"
  by (simp add: merkle_root_def reduce_levels_stop)

lemma merkle_root_InrD:
  assumes "merkle_root h leaves = Inr root"
  shows "leaves \<noteq> [] \<and> root = tree_root h Sha256 (build_tree leaves)"
  using assms merkle_root_build [of leaves h] by (cases "leaves = []") (auto simp: merkle_root_Nil)

lemma verify_proof_with_iff:
  "verify_proof_with h algo root leaf siblings \<longleftrightarrow>
   length siblings \<le> MAX_MERKLE_PROOF_DEPTH \<and>
   climb h algo siblings (leaf_hash_with h algo leaf) = root"
  by (simp add: verify_proof_with_def)

lemma accepted_leaf_member:
  assumes "merkle_root h leaves = Inr root"
    and "verify_proof_with h Sha256 root leaf siblings"
  shows "leaf \<in> set leaves
    \<or> digest_collision h Sha256 (tree_preimages h Sha256 (build_tree leaves))
        (proof_preimages h Sha256 leaf siblings)"
  using assms(2) tree_proof_sound [of h Sha256 siblings leaf "build_tree leaves"]
    merkle_root_InrD [OF assms(1)]
  by (auto simp: verify_proof_with_iff tree_leaves_build simp del: climb.simps)

section \<open>Properties\<close>

text \<open>
  C33: Every leaf committed to by a root can be disclosed. For a vector of at most \<open>2 ^ 32\<close> leaves the
  root computation returns a root, and for each leaf there is a list of sibling hashes within the
  depth bound that the verifier accepts against that root.
\<close>

theorem merkle_leaf_provable:
  assumes "leaf \<in> set leaves" and "length leaves \<le> 2 ^ 32"
  shows "\<exists>root siblings. merkle_root h leaves = Inr root \<and>
    verify_proof_with h Sha256 root leaf siblings"
proof -
  from assms(1) have ne: "leaves \<noteq> []"
    by auto
  from assms(1) tree_proof_complete [of leaf "build_tree leaves" h Sha256]
  obtain siblings where "length siblings \<le> tree_height (build_tree leaves)"
    "climb h Sha256 siblings (leaf_hash_with h Sha256 leaf) = tree_root h Sha256 (build_tree leaves)"
    by (auto simp: tree_leaves_build [OF ne] simp del: climb.simps)
  then show ?thesis
    using tree_height_build [OF ne assms(2)] merkle_root_build [OF ne, of h]
    by (intro exI [of _ "tree_root h Sha256 (build_tree leaves)"] exI [of _ siblings])
      (simp add: verify_proof_with_iff MAX_MERKLE_PROOF_DEPTH_def del: climb.simps)
qed

theorem merkle_leaf_provable_witness:
  "\<exists>root siblings. merkle_root sample_host [[1], [2], [3]] = Inr root \<and>
     verify_proof_with sample_host Sha256 root [3] siblings"
  using merkle_leaf_provable [of "[3]" "[[1], [2], [3]]" sample_host] by simp

text \<open>
  A proof is evidence. If the verifier accepts a leaf against the root of a vector of leaves, the
  leaf is one of them, unless the hash function collides on an input hashed for the tree and an
  input hashed for the proof. A leaf and an inner node never share a hash input.
\<close>

theorem merkle_proof_sound:
  assumes "merkle_root h leaves = Inr root"
    and "verify_proof_with h Sha256 root leaf siblings"
  shows "leaf \<in> set leaves
    \<or> digest_collision h Sha256 (tree_preimages h Sha256 (build_tree leaves))
        (proof_preimages h Sha256 leaf siblings)"
  using assms by (rule accepted_leaf_member)

theorem merkle_proof_sound_witness:
  "merkle_root sample_host [[1], [2]] =
     Inr (node_hash sample_host (leaf_hash sample_host [1]) (leaf_hash sample_host [2]))
   \<and> verify_proof_with sample_host Sha256
       (node_hash sample_host (leaf_hash sample_host [1]) (leaf_hash sample_host [2])) [1]
       [leaf_hash sample_host [2]]
   \<and> ([1] \<in> set [[1], [2] :: bytes]
      \<or> digest_collision sample_host Sha256
          (tree_preimages sample_host Sha256 (build_tree [[1], [2]]))
          (proof_preimages sample_host Sha256 [1] [leaf_hash sample_host [2]]))"
proof -
  have "merkle_root sample_host [[1], [2]] =
      Inr (node_hash sample_host (leaf_hash sample_host [1]) (leaf_hash sample_host [2]))"
    by (simp add: merkle_root_def reduce_levels_step reduce_levels_stop)
  moreover have "verify_proof_with sample_host Sha256
      (node_hash sample_host (leaf_hash sample_host [1]) (leaf_hash sample_host [2])) [1]
      [leaf_hash sample_host [2]]"
    by (simp add: verify_proof_with_iff node_hash_def leaf_hash_def MAX_MERKLE_PROOF_DEPTH_def)
  ultimately show ?thesis
    using merkle_proof_sound [of sample_host "[[1], [2]]"] by blast
qed

end
