(* ===== verification/Store_Spec.thy ===== *)
theory Store_Spec
  imports Sas_Core
begin

text \<open>
  What the SAS contract promises about its attestations, as an abstract specification. The
  specification state is the map from UIDs to records that a reader sees; its transitions issue,
  revoke, renew and prune a record. The storage of the contract (compact and legacy layouts, separate
  activation times, anchors) makes transitions of its own, \<open>store_step\<close>, and refines the
  specification through the abstraction function \<open>read_attestation\<close>. Later theories show that every
  entry point makes a sequence of such transitions.
\<close>

section \<open>The specification\<close>

type_synonym view = "uid \<Rightarrow> attestation option"

definition live_at :: "ledger_env \<Rightarrow> attestation \<Rightarrow> bool" where
  "live_at env a \<longleftrightarrow> a_expiration_time a = 0 \<or> timestamp env < a_expiration_time a"

text \<open>An extension of an expiration time: 0 is never, and comes last.\<close>

definition extends_to :: "u64 \<Rightarrow> u64 \<Rightarrow> bool" where
  "extends_to old new \<longleftrightarrow> new = 0 \<or> old \<noteq> 0 \<and> old \<le> new"

inductive view_step :: "ledger_env \<Rightarrow> view \<Rightarrow> view \<Rightarrow> bool" for env where
  view_issue: "v (a_uid a) = None \<Longrightarrow> live_at env a \<Longrightarrow>
    view_step env v (v(a_uid a \<mapsto> a\<lparr>a_time := timestamp env\<rparr>))"
| view_revoke: "v u = Some a \<Longrightarrow> a_revocable a \<Longrightarrow> a_revocation_time a = 0 \<Longrightarrow>
    view_step env v (v(u \<mapsto> a\<lparr>a_revocation_time := timestamp env\<rparr>))"
| view_renew: "v u = Some a \<Longrightarrow> a_revocable a \<Longrightarrow> a_revocation_time a = 0 \<Longrightarrow> live_at env a \<Longrightarrow>
    extends_to (a_expiration_time a) e \<Longrightarrow> view_step env v (v(u \<mapsto> a\<lparr>a_expiration_time := e\<rparr>))"
| view_prune: "v u = Some a \<Longrightarrow> \<not> live_at env a \<Longrightarrow> view_step env v (v(u := None))"
| view_same: "view_step env v v"

section \<open>Transitions of the storage\<close>

text \<open>The migration of a legacy record to the compact layout.\<close>

definition migrate_record :: "uid \<Rightarrow> attestation \<Rightarrow> att_store \<Rightarrow> att_store" where
  "migrate_record u legacy st =
     (let st = st\<lparr>uid_records := (uid_records st)(u \<mapsto> CompactVal (from_attestation legacy))\<rparr>
      in if a_valid_from legacy \<noteq> 0
         then st\<lparr>valid_froms := (valid_froms st)(u \<mapsto> a_valid_from legacy)\<rparr> else st)"

inductive store_step :: "'w ctx \<Rightarrow> att_store \<Rightarrow> att_store \<Rightarrow> bool" for cx where
  step_issue: "validate_new_attestation cx a st = Inr () \<Longrightarrow> anchors st (a_uid a, False) = None \<Longrightarrow>
    store_step cx st (issue_in_store (led cx) a st)"
| step_revoke: "read_attestation st u = Some a \<Longrightarrow> a_revocable a \<Longrightarrow> a_revocation_time a = 0 \<Longrightarrow>
    anchors st (u, True) = None \<Longrightarrow> store_step cx st (revoke_in_store (led cx) u a st)"
| step_renew: "read_attestation st u = Some a \<Longrightarrow> a_revocable a \<Longrightarrow> a_revocation_time a = 0 \<Longrightarrow>
    live_at (led cx) a \<Longrightarrow> extends_to (a_expiration_time a) e \<Longrightarrow>
    store_step cx st (write_attestation (a\<lparr>a_expiration_time := e\<rparr>) st)"
| step_migrate: "uid_records st u = Some (LegacyVal legacy) \<Longrightarrow>
    store_step cx st (migrate_record u legacy st)"
| step_prune: "read_attestation st u = Some a \<Longrightarrow> \<not> live_at (led cx) a \<Longrightarrow>
    store_step cx st (remove_attestation u st)"

abbreviation store_steps :: "'w ctx \<Rightarrow> att_store \<Rightarrow> att_store \<Rightarrow> bool" where
  "store_steps cx \<equiv> (store_step cx)\<^sup>*\<^sup>*"

lemma read_migrate_record:
  assumes "store_wf st" and "uid_records st u = Some (LegacyVal legacy)"
  shows "read_attestation (migrate_record u legacy st) v = read_attestation st v"
proof (cases "v = u")
  case True
  from assms have l: "a_uid legacy = u" "compact_records st u = None"
    "valid_froms st u = None \<or> valid_froms st u = Some (a_valid_from legacy)"
    by (auto simp: store_wf_def)
  with to_from_attestation [of legacy] True assms(2) show ?thesis
    by (cases legacy) (auto simp: migrate_record_def Let_def read_attestation_def raw_attestation_def)
next
  case False
  then show ?thesis
    by (auto simp: migrate_record_def Let_def read_attestation_def raw_attestation_def
        split: option.splits stored_value.splits)
qed

lemma store_wf_migrate: "store_wf st \<Longrightarrow> store_wf (migrate_record u legacy st)"
  by (auto simp: store_wf_def migrate_record_def Let_def)

lemma anchors_migrate [simp]: "anchors (migrate_record u legacy st) = anchors st"
  by (simp add: migrate_record_def Let_def)

lemma store_step_wf: "store_step cx st st' \<Longrightarrow> store_wf st \<Longrightarrow> store_wf st'"
  by (induction rule: store_step.induct) (auto intro: store.wf_write store.wf_remove store_wf_migrate)

section \<open>Refinement\<close>

lemma read_as_map:
  "read_attestation (issue_in_store env a st) =
     (read_attestation st)(a_uid a \<mapsto> a\<lparr>a_time := timestamp env\<rparr>)"
  "store_wf st \<Longrightarrow> read_attestation st u = Some b \<Longrightarrow>
     read_attestation (revoke_in_store env u b st) =
     (read_attestation st)(u \<mapsto> b\<lparr>a_revocation_time := timestamp env\<rparr>)"
  "store_wf st \<Longrightarrow> read_attestation st u = Some b \<Longrightarrow>
     read_attestation (write_attestation (b\<lparr>a_expiration_time := e\<rparr>) st) =
     (read_attestation st)(u \<mapsto> b\<lparr>a_expiration_time := e\<rparr>)"
  "read_attestation (remove_attestation u st) = (read_attestation st)(u := None)"
  "store_wf st \<Longrightarrow> uid_records st u = Some (LegacyVal legacy) \<Longrightarrow>
     read_attestation (migrate_record u legacy st) = read_attestation st"
  by (auto simp: fun_eq_iff read_issue_in_store read_revoke_in_store read_migrate_record
      store.read_remove store.read_write dest: store.read_uid)

lemma store_step_refines:
  assumes "store_step cx st st'" and "store_wf st"
  shows "view_step (led cx) (read_attestation st) (read_attestation st')"
  using assms
proof (induction rule: store_step.induct)
  case (step_issue a st)
  then have "read_attestation st (a_uid a) = None" and "live_at (led cx) a"
    by (auto simp: result_iff store.has_read live_at_def)
  then show ?case
    unfolding read_as_map(1) by (rule view_issue)
next
  case (step_revoke st u a)
  then show ?case by (simp only: read_as_map view_revoke simp_thms)
next
  case (step_renew st u a e)
  then show ?case by (simp only: read_as_map view_renew simp_thms)
next
  case (step_migrate st u legacy)
  then show ?case by (simp only: read_as_map view_same simp_thms)
next
  case (step_prune st u a)
  then show ?case by (simp only: read_as_map view_prune simp_thms)
qed

section \<open>How a record may change\<close>

text \<open>
  A later version of a record: the same claim by the same attester about the same recipient, never
  un-revoked, never changed once revoked or when irrevocable, and its expiration never shortened.
\<close>

definition later_version :: "attestation \<Rightarrow> attestation \<Rightarrow> bool" where
  "later_version a b \<longleftrightarrow>
     b = a\<lparr>a_revocation_time := a_revocation_time b, a_expiration_time := a_expiration_time b\<rparr> \<and>
     (a_revocation_time a \<noteq> 0 \<or> \<not> a_revocable a \<longrightarrow> b = a) \<and>
     extends_to (a_expiration_time a) (a_expiration_time b)"

lemma later_version_refl [simp]: "later_version a a"
  by (simp add: later_version_def extends_to_def)

lemma later_version_trans: "later_version a b \<Longrightarrow> later_version b c \<Longrightarrow> later_version a c"
  by (cases a; cases b; cases c) (auto simp: later_version_def extends_to_def)

lemma view_step_later:
  assumes "view_step env v v'" and "v u = Some a" and "live_at env a"
  shows "\<exists>b. v' u = Some b \<and> later_version a b"
  using assms by (cases rule: view_step.cases) (auto simp: later_version_def extends_to_def)

lemma later_live: "later_version a b \<Longrightarrow> live_at env a \<Longrightarrow> live_at env b"
  by (auto simp: later_version_def extends_to_def live_at_def)

lemma store_steps_wf: "store_steps cx st st' \<Longrightarrow> store_wf st \<Longrightarrow> store_wf st'"
  by (induction rule: rtranclp_induct) (auto intro: store_step_wf)

text \<open>Within one ledger, a live record survives every sequence of storage transitions as a later
  version of itself.\<close>

lemma store_steps_later:
  assumes "store_steps cx st st'" and "store_wf st"
    and "read_attestation st u = Some a" and "live_at (led cx) a"
  shows "\<exists>b. read_attestation st' u = Some b \<and> later_version a b"
  using assms(1)
proof (induction rule: rtranclp_induct)
  case base
  with assms(3) show ?case by simp
next
  case (step y z)
  then obtain b where b: "read_attestation y u = Some b" "later_version a b" by blast
  from step(1) assms(2) have "store_wf y" by (rule store_steps_wf)
  with step(2) have "view_step (led cx) (read_attestation y) (read_attestation z)"
    by (rule store_step_refines)
  from view_step_later [OF this b(1)] later_live [OF b(2) assms(4)] b(2)
  show ?case by (blast intro: later_version_trans)
qed

section \<open>Anchors\<close>

text \<open>
  The anchors of a store never lie ahead of the ledger, a revocation is never anchored before its
  issuance, every record has its issuance anchored at its own issuance time, an anchored revocation
  is the one the record shows, and the UID of a record is the hash of its content.
\<close>

definition anchor_le :: "timestamp_anchor \<Rightarrow> timestamp_anchor \<Rightarrow> bool" where
  "anchor_le x y \<longleftrightarrow> ta_ledger_sequence x \<le> ta_ledger_sequence y \<and>
     ta_ledger_timestamp x \<le> ta_ledger_timestamp y"

definition record_anchored :: "att_store \<Rightarrow> uid \<Rightarrow> attestation \<Rightarrow> bool" where
  "record_anchored st u a \<longleftrightarrow>
     (\<exists>i. anchors st (u, False) = Some i \<and> ta_ledger_timestamp i = a_time a \<and>
       (\<forall>r. anchors st (u, True) = Some r \<longrightarrow>
          anchor_le i r \<and> a_revocation_time a = ta_ledger_timestamp r))"

definition content_addressed :: "host \<Rightarrow> attestation \<Rightarrow> bool" where
  "content_addressed h a \<longleftrightarrow>
     a_uid a = attestation_uid h (a_schema_uid a) (a_recipient a) (a_attester a) (a_data a)"

definition store_inv :: "host \<Rightarrow> ledger_env \<Rightarrow> att_store \<Rightarrow> bool" where
  "store_inv h env st \<longleftrightarrow>
     store_wf st \<and>
     (\<forall>k x. anchors st k = Some x \<longrightarrow> anchor_le x (anchor_now env)) \<and>
     (\<forall>u a. read_attestation st u = Some a \<longrightarrow> record_anchored st u a \<and> content_addressed h a) \<and>
     (\<forall>u. read_attestation st u = None \<longrightarrow> anchors st (u, False) = None \<and> anchors st (u, True) = None)"

lemma store_inv_empty: "store_inv h env empty_store"
  by (simp add: store_inv_def store_wf_empty read_attestation_def raw_attestation_def)
    (simp add: empty_store_def)

definition env_le :: "ledger_env \<Rightarrow> ledger_env \<Rightarrow> bool" where
  "env_le env env' \<longleftrightarrow> timestamp env \<le> timestamp env' \<and> sequence env \<le> sequence env'"

lemma store_inv_later: "store_inv h env st \<Longrightarrow> env_le env env' \<Longrightarrow> store_inv h env' st"
  unfolding store_inv_def env_le_def anchor_le_def anchor_now_def by fastforce

lemma anchors_remove [simp]:
  "anchors (remove_attestation u st) = (anchors st)((u, False) := None, (u, True) := None)"
  by (simp add: remove_attestation_def remove_anchors_def)

lemma anchor_le_refl [simp]: "anchor_le x x"
  by (simp add: anchor_le_def)

lemma store_step_inv:
  assumes "store_step cx st st'" and "store_inv (hst cx) (led cx) st"
  shows "store_inv (hst cx) (led cx) st'"
  using assms
proof (induction rule: store_step.induct)
  case (step_issue a st)
  then show ?case
    by (auto simp: store_inv_def result_iff read_as_map store.has_read record_anchored_def
        content_addressed_def anchor_now_def)
next
  case (step_revoke st u a)
  then have wf: "store_wf st" and "record_anchored st u a" and "content_addressed (hst cx) a"
    by (auto simp: store_inv_def)
  moreover have "anchor_le i (anchor_now (led cx))" if "anchors st (u, False) = Some i" for i
    using step_revoke that by (auto simp: store_inv_def)
  ultimately show ?case
    using step_revoke
    by (auto simp: store_inv_def read_as_map record_anchored_def content_addressed_def
        anchor_now_def)
next
  case (step_renew st u a e)
  then have "store_wf st" and "record_anchored st u a" and "content_addressed (hst cx) a"
    by (auto simp: store_inv_def)
  with step_renew show ?case
    by (auto simp: store_inv_def read_as_map record_anchored_def content_addressed_def
        store.wf_write)
next
  case (step_migrate st u legacy)
  then show ?case
    by (auto simp: store_inv_def read_as_map record_anchored_def store_wf_migrate)
next
  case (step_prune st u a)
  then show ?case
    by (auto simp: store_inv_def read_as_map record_anchored_def store.wf_remove)
qed

lemma store_steps_inv:
  "store_steps cx st st' \<Longrightarrow> store_inv (hst cx) (led cx) st \<Longrightarrow> store_inv (hst cx) (led cx) st'"
  by (induction rule: rtranclp_induct) (auto intro: store_step_inv)

text \<open>On such a store the check of a claimed timestamp is exact: it accepts the recorded anchors and
  nothing else.\<close>

lemma store_inv_anchor_pair:
  assumes "store_inv h env st" and "anchors st (u, True) = Some r"
  shows "\<exists>i. anchors st (u, False) = Some i \<and> anchor_le i r"
proof (cases "read_attestation st u")
  case None
  with assms show ?thesis by (simp add: store_inv_def)
next
  case (Some a)
  with assms(1) have "record_anchored st u a" by (simp add: store_inv_def)
  with assms(2) show ?thesis by (auto simp: record_anchored_def)
qed

lemma check_claim_exact:
  assumes "store_inv h env st"
  shows "check_claim env st u claim = Inr () \<longleftrightarrow>
    anchors st (u, False) = Some claim \<or> anchors st (u, True) = Some claim"
proof -
  have "\<not> anchors_out_of_order (anchors st (u, False)) (anchors st (u, True))"
    using store_inv_anchor_pair [OF assms, of u]
    by (auto simp: anchors_out_of_order_def anchor_le_def split: option.splits)
  moreover have "anchor_le claim (anchor_now env)"
    if "anchors st (u, False) = Some claim \<or> anchors st (u, True) = Some claim"
    using that assms by (auto simp: store_inv_def)
  ultimately show ?thesis
    by (auto simp: check_claim_def read_anchor_def Let_def anchor_le_def anchor_now_def not_less)
qed

section \<open>The internal operations\<close>

text \<open>What issuance, revocation and replacement leave alone: configuration, fees, keys and guards.\<close>

definition same_frame :: "'w sas_state \<Rightarrow> 'w sas_state \<Rightarrow> bool" where
  "same_frame s s' \<longleftrightarrow> st_config s' = st_config s \<and> st_fees s' = st_fees s \<and> st_keys s' = st_keys s \<and>
     st_guard s' = st_guard s"

lemma same_frame_refl [simp]: "same_frame s s"
  by (simp add: same_frame_def)

lemma same_frame_trans: "same_frame s t \<Longrightarrow> same_frame t r \<Longrightarrow> same_frame s r"
  by (simp add: same_frame_def)

lemma attest_internal_refines:
  assumes "attest_internal cx a s = Inr (u, s')"
  shows "store_step cx (st_store s) (st_store s') \<and> same_frame s s' \<and> u = a_uid a \<and>
    st_store s' = issue_in_store (led cx) a (st_store s)"
  using attest_internal_effect [OF assms] step_issue [of cx a "st_store s"]
  by (auto simp: same_frame_def issuance_ok_def)

lemma revoke_internal_refines:
  assumes "revoke_internal cx u s = Inr s'"
  shows "store_step cx (st_store s) (st_store s') \<and> same_frame s s' \<and> st_rate s' = st_rate s \<and>
    (\<exists>a. read_attestation (st_store s) u = Some a \<and> a_revocable a \<and> a_revocation_time a = 0 \<and>
      st_store s' = revoke_in_store (led cx) u a (st_store s))"
  using revoke_internal_effect [OF assms] step_revoke [of "st_store s" u _ cx]
  by (auto simp: same_frame_def)

lemma replace_internal_refines:
  assumes "replace_internal cx old_uid new old s = Inr (u, s')"
  shows "store_steps cx (st_store s) (st_store s') \<and> same_frame s s' \<and> u = a_uid new"
proof -
  from replace_internal_effect [OF assms] obtain s1 s2 w where
    s1: "revoke_internal cx old_uid s = Inr s1"
    and s2: "attest_internal cx (new\<lparr>a_ref_uid := old_uid\<rparr>) s1 = Inr (u, s2)"
    and s': "s' = s2\<lparr>st_world := w\<rparr>"
    by auto
  from revoke_internal_refines [OF s1] attest_internal_refines [OF s2] s' show ?thesis
    by (auto simp: same_frame_def intro: converse_rtranclp_into_rtranclp)
qed

end
