(* ===== verification/Samples.thy ===== *)
theory Samples
  imports Store_Spec
begin

text \<open>
  One concrete setting in which the hypotheses of the properties hold: a host, a schema registry,
  resolver and indexer that answer every call, a ledger, and a freshly initialised contract.
\<close>

text \<open>The digest of this host is the length of its input, which is enough to tell the samples apart.\<close>

definition toy_host :: host where
  "toy_host = sample_host\<lparr>sha256 := (\<lambda>b. of_nat (length b)), keccak256 := (\<lambda>b. of_nat (length b))\<rparr>"

definition sample_env :: ledger_env where
  "sample_env = \<lparr>timestamp = 1000, sequence = 50, network_id = 1, current_contract = Contract 2,
     authorized = (\<lambda>_. True)\<rparr>"

definition sample_schema :: schema_record where
  "sample_schema = \<lparr>sr_uid = 12, sr_resolver = Contract 30, sr_revocable = True, sr_schema = [],
     sr_deprecated = False, sr_parent_schema_uid = None\<rparr>"

definition sample_externs :: "unit externs" where
  "sample_externs = \<lparr>
     x_sasreg_upper = (\<lambda>_ _ _. None), x_sasreg_lower = (\<lambda>_ _ _. Some True),
     x_get_schema = (\<lambda>_ _ _ _. Some (Some sample_schema)),
     x_is_schema_quarantined = (\<lambda>_ _ _ _. Some False), x_get_max_ttl = (\<lambda>_ _ _ _. Some 0),
     x_is_authorized = (\<lambda>_ _ _ _ _. Some True), x_is_attester_authorized = (\<lambda>_ _ _ _ _. Some True),
     x_is_schema_restricted = (\<lambda>_ _ _ _. Some False),
     x_get_schema_policy = (\<lambda>_ _ _ _. Some Permissive),
     x_get_creator = (\<lambda>_ _ _ _. Some (Some (Account 7))),
     x_get_creator_royalty = (\<lambda>_ _ _ _. Some 2000),
     x_get_schema_frost_group = (\<lambda>_ _ _ _. Some None),
     x_on_attest = (\<lambda>_ _ _ w. Some w), x_on_revoke = (\<lambda>_ _ _ w. Some w),
     x_index_attestation = (\<lambda>_ _ _ _ _ _ _ w. Some w), x_set_valid_from = (\<lambda>_ _ _ _ w. Some w),
     x_handle_revoke = (\<lambda>_ _ _ w. Some w), x_handle_replace = (\<lambda>_ _ _ _ w. Some w),
     x_handle_renew = (\<lambda>_ _ _ _ w. None), x_verify_proof = (\<lambda>_ _ _ _ w. Some (True, w)),
     x_balance = (\<lambda>_ _ _ _. Some 100), x_transfer = (\<lambda>_ _ _ _ _ w. Some w)\<rparr>"

definition sample_cx :: "unit ctx" where
  "sample_cx = \<lparr>hst = toy_host, ext = sample_externs, led = sample_env\<rparr>"

definition fresh_config :: sas_config where
  "fresh_config = \<lparr>sas_admin = None, pending_admin = None, schema_registry = None, indexer = None,
     treasury = None, zk_verifier = None, sas_version = None, current_wasm_hash = None,
     paused = False, indexer_strict = False, auto_prune = False\<rparr>"

definition fresh_fees :: fee_state where
  "fresh_fees = \<lparr>fee_config = None, fee_per_byte = 0, zero_fee_schemas = (\<lambda>_. False),
     fee_assets = (\<lambda>_. None), multi_asset_active = False, schema_fees = (\<lambda>_. None),
     treasury_fees = (\<lambda>_. 0), creator_fees = (\<lambda>_. 0), ceilings = None\<rparr>"

definition fresh_keys :: key_state where
  "fresh_keys = \<lparr>attester_keys = (\<lambda>_. None), delegation_nonces = (\<lambda>_. None),
     consent_nonces = (\<lambda>_. None), delegation_policies = (\<lambda>_. None), zk_nullifiers = (\<lambda>_. False)\<rparr>"

text \<open>The state of a contract instance that has just been deployed.\<close>

definition fresh_state :: "'w \<Rightarrow> 'w sas_state" where
  "fresh_state w = \<lparr>st_config = fresh_config, st_fees = fresh_fees, st_keys = fresh_keys,
     st_rate = \<lparr>rate_limit_config = None, rate_exempt = (\<lambda>_. False), rate_history = (\<lambda>_. [])\<rparr>,
     st_guard = \<lparr>reentrancy_guard = False, call_depth = 0\<rparr>, st_store = empty_store, st_events = [],
     st_world = w\<rparr>"

definition sample_state :: "unit sas_state" where
  "sample_state = (fresh_state ())\<lparr>st_config := fresh_config\<lparr>sas_admin := Some (Account 1),
     schema_registry := Some (Contract 3)\<rparr>\<rparr>"

text \<open>An attestation that can be issued there, with a payload of the given length.\<close>

definition sample_new :: "nat \<Rightarrow> attestation" where
  "sample_new n = \<lparr>a_uid = of_nat (120 + n), a_schema_uid = 12, a_time = 0, a_expiration_time = 2000,
     a_revocation_time = 0, a_ref_uid = 0, a_recipient = Account 5, a_attester = Account 7,
     a_revocable = True, a_data = replicate n 1, a_valid_from = 0\<rparr>"

text \<open>A state that holds \<open>sample_new n\<close>, issued at an earlier ledger.\<close>

definition earlier_env :: ledger_env where
  "earlier_env = sample_env\<lparr>timestamp := 900, sequence := 40\<rparr>"

definition holding_state :: "nat \<Rightarrow> unit sas_state" where
  "holding_state n = sample_state\<lparr>st_store := issue_in_store earlier_env (sample_new n) empty_store\<rparr>"

lemmas sample_defs = sample_cx_def sample_env_def sample_externs_def sample_state_def
  fresh_state_def fresh_config_def fresh_fees_def fresh_keys_def sample_new_def sample_schema_def

lemma read_empty_store [simp]: "read_attestation empty_store u = None"
  by (simp add: read_attestation_def raw_attestation_def empty_store_def)

lemma has_empty_store [simp]: "\<not> has_attestation empty_store u"
  by (simp add: has_attestation_def empty_store_def)

lemma anchors_empty_store [simp]: "anchors empty_store k = None"
  by (simp add: empty_store_def)

lemma sample_uid:
  "attestation_uid toy_host 12 (Account 5) (Account 7) d = of_nat (120 + length d)"
  by (simp add: attestation_uid_def toy_host_def sample_host_def ACCOUNT_ADDRESS_XDR_PREFIX_def)

lemma sample_read_holding:
  "read_attestation (st_store (holding_state n)) u =
   (if u = of_nat (120 + n) then Some ((sample_new n)\<lparr>a_time := 900\<rparr>) else None)"
  by (simp add: holding_state_def read_issue_in_store earlier_env_def sample_new_def)

lemma sample_wf_holding: "store_wf (st_store (holding_state n))"
  by (simp add: holding_state_def store_wf_empty)

lemma sample_validates:
  "validate_new_attestation sample_cx (sample_new 3) empty_store = Inr ()"
  by (simp add: result_iff sample_defs sample_uid MAX_ATTESTATION_DATA_BYTES_def
        zero_account_def zero_contract_def)

lemma sample_issuance_ok:
  "issuance_ok sample_cx (sample_new 3) sample_state"
proof -
  have "resolve_schema sample_cx (Contract 3) (sample_new 3) () = Inr sample_schema"
    by (simp add: resolve_schema_def check_max_ttl_def authorize_attester_def sample_defs)
  then show ?thesis
    using sample_validates
    unfolding issuance_ok_def
    by (auto simp: sample_state_def fresh_state_def quota_left_def sample_cx_def sample_externs_def result_iff)
qed

lemma sample_guards [simp]:
  "reject_reentrant (holding_state n) = Inr ()" "\<not> is_paused_status (holding_state n)"
  "require_unpaid_allowed (holding_state n) a = Inr ()"
  "require_registry (holding_state n) = Inr (Contract 3)"
  "reject_reentrant sample_state = Inr ()" "\<not> is_paused_status sample_state"
  "require_unpaid_allowed sample_state a = Inr ()"
  "require_registry sample_state = Inr (Contract 3)"
  "require_auth (led sample_cx) who = Inr ()"
  by (simp_all add: reject_reentrant_def is_paused_status_def require_unpaid_allowed_def
      require_registry_def require_auth_def holding_state_def sample_defs)

end
