(* ===== verification/Sas_Entry.thy ===== *)
theory Sas_Entry
  imports Sas_Keys Merkle Samples
begin

text \<open>
  The entry points of the SAS contract that issue, revoke, replace, renew and read one attestation
  (\<^verbatim>\<open>contracts/sas/src/lib.rs\<close>), directly or under an off-chain signature. Each is the composition of
  guards and internal operations in the order the code has them.
\<close>

section \<open>Issuance\<close>

definition attest ::
  "'w ctx \<Rightarrow> attestation \<Rightarrow> 'w sas_state \<Rightarrow> (uid \<times> 'w sas_state) sas_result" where
  "attest cx a s =
     bind_r (reject_reentrant s) (\<lambda>_.
     if is_paused_status s then Inl (Panic ProtocolPaused)
     else
       bind_r (require_unpaid_allowed s a) (\<lambda>_.
       bind_r (require_auth (led cx) (a_attester a)) (\<lambda>_.
       attest_internal cx a s)))"

definition hash_delegation_digest :: "'w ctx \<Rightarrow> attestation \<Rightarrow> u64 \<Rightarrow> bytes32" where
  "hash_delegation_digest cx a nonce =
     hash_offchain_attestation (hst cx) a (domain_of (led cx) nonce)"

text \<open>The checks of a delegated issuance, shared with the batch entry point, up to the used nonce.\<close>

definition admit_delegated ::
  "'w ctx \<Rightarrow> attestation \<Rightarrow> u64 \<Rightarrow> bytes64 \<Rightarrow> bytes32 \<Rightarrow> 'w sas_state \<Rightarrow> 'w sas_state sas_result" where
  "admit_delegated cx a nonce signature public_key s =
     (if a_revocation_time a \<noteq> 0 then Inl (Panic AlreadyRevoked)
      else
        bind_r (require_unpaid_allowed s a) (\<lambda>_.
        bind_r (require_delegation_policy (led cx) s (a_attester a) (a_schema_uid a)) (\<lambda>_.
        bind_r (require_nonce_not_replayed s (a_attester a) nonce) (\<lambda>_.
        bind_r (require_delegation_key cx (a_schema_uid a) (a_attester a) public_key s) (\<lambda>grp.
        let payload_hash = hash_offchain_attestation (hst cx) a (domain_of (led cx) nonce) in
        bind_r (verify_delegated_signature (hst cx) payload_hash public_key signature grp) (\<lambda>_.
        consume_delegation_nonce (a_attester a) nonce s))))))"

definition attest_by_delegation ::
  "'w ctx \<Rightarrow> attestation \<Rightarrow> u64 \<Rightarrow> bytes64 \<Rightarrow> bytes32 \<Rightarrow> 'w sas_state \<Rightarrow>
   (uid \<times> 'w sas_state) sas_result" where
  "attest_by_delegation cx a nonce signature public_key s =
     bind_r (reject_reentrant s) (\<lambda>_.
     if is_paused_status s then Inl (Panic ProtocolPaused)
     else
       bind_r (admit_delegated cx a nonce signature public_key s) (\<lambda>s.
       attest_internal cx a s))"

definition attest_by_scoped_delegation ::
  "'w ctx \<Rightarrow> attestation \<Rightarrow> u64 \<Rightarrow> bytes64 \<Rightarrow> bytes32 \<Rightarrow> delegation_authorization \<Rightarrow>
   'w sas_state \<Rightarrow> (uid \<times> 'w sas_state) sas_result" where
  "attest_by_scoped_delegation cx a nonce signature public_key authorization s =
     (if is_paused_status s then Inl (Panic ProtocolPaused)
      else if a_revocation_time a \<noteq> 0 then Inl (Panic AlreadyRevoked)
      else
        bind_r (require_unpaid_allowed s a) (\<lambda>_.
        if (da_permissions authorization AND DELEGATION_PERMISSION_ISSUE) = 0
           \<or> (da_valid_until authorization \<noteq> 0
              \<and> timestamp (led cx) > da_valid_until authorization)
           \<or> scope_excludes (da_schema_scope authorization) (a_schema_uid a)
        then Inl (Panic DelegationScopeDenied)
        else
          bind_r (require_attester_key (hst cx) s (a_attester a) public_key) (\<lambda>_.
          bind_r (require_delegation_policy (led cx) s (a_attester a) (a_schema_uid a)) (\<lambda>_.
          let payload_hash = hash_scoped_attestation (hst cx) a (domain_of (led cx) nonce)
                               authorization in
          bind_r (verify_offchain_signature (hst cx) payload_hash public_key signature) (\<lambda>_.
          bind_r (consume_delegation_nonce (a_attester a) nonce s) (\<lambda>s.
          attest_internal cx a s))))))"

definition attest_with_zk ::
  "'w ctx \<Rightarrow> attestation \<Rightarrow> bytes \<Rightarrow> bytes32 \<Rightarrow> 'w sas_state \<Rightarrow> (uid \<times> 'w sas_state) sas_result" where
  "attest_with_zk cx a zk_proof nullifier s =
     (if is_paused_status s then Inl (Panic ProtocolPaused)
      else
        bind_r (require_unpaid_allowed s a) (\<lambda>_.
        if zk_proof = [] \<or> length zk_proof > 4096 then Inl (Panic InvalidZKProof)
        else if zk_nullifiers (st_keys s) nullifier then Inl (Panic NullifierAlreadyUsed)
        else
          bind_r (or_panic InvalidZKProof (zk_verifier (st_config s))) (\<lambda>verifier.
          let public_inputs = [a_uid a, a_schema_uid a, nullifier] in
          case x_verify_proof (ext cx) (led cx) verifier zk_proof public_inputs (st_world s) of
            Some (True, w) \<Rightarrow>
              let s = s\<lparr>st_world := w\<rparr> in
              bind_r (require_auth (led cx) (a_attester a)) (\<lambda>_.
              bind_r (attest_internal cx a s) (\<lambda>(u, s).
              Inr (u, s\<lparr>st_keys := (st_keys s)\<lparr>zk_nullifiers :=
                          (zk_nullifiers (st_keys s))(nullifier := True)\<rparr>\<rparr>)))
          | _ \<Rightarrow> Inl (Panic InvalidZKProof))))"

section \<open>Revocation\<close>

definition revoke :: "'w ctx \<Rightarrow> uid \<Rightarrow> 'w sas_state \<Rightarrow> 'w sas_state sas_result" where
  "revoke cx u s =
     bind_r (reject_reentrant s) (\<lambda>_.
     if is_paused_status s then Inl (Panic ProtocolPaused)
     else
       bind_r (or_panic AttestationNotFound (read_attestation (st_store s) u)) (\<lambda>a.
       bind_r (require_auth (led cx) (a_attester a)) (\<lambda>_.
       revoke_internal cx u s)))"

definition revoke_by_authorizer ::
  "'w ctx \<Rightarrow> uid \<Rightarrow> address \<Rightarrow> 'w sas_state \<Rightarrow> 'w sas_state sas_result" where
  "revoke_by_authorizer cx u authorizer s =
     bind_r (reject_reentrant s) (\<lambda>_.
     if is_paused_status s then Inl (Panic ProtocolPaused)
     else
       bind_r (or_panic AttestationNotFound (read_attestation (st_store s) u)) (\<lambda>a.
       bind_r (require_auth (led cx) authorizer) (\<lambda>_.
       if authorizer \<noteq> a_attester a
       then
         bind_r (require_registry s) (\<lambda>registry.
         if x_is_authorized (ext cx) (led cx) registry (a_schema_uid a) authorizer (st_world s)
              \<noteq> Some True
         then Inl (Panic Unauthorized)
         else revoke_internal cx u s)
       else revoke_internal cx u s)))"

definition revoke_by_delegate ::
  "'w ctx \<Rightarrow> uid \<Rightarrow> address \<Rightarrow> 'w sas_state \<Rightarrow> 'w sas_state sas_result" where
  "revoke_by_delegate cx u delegate s =
     bind_r (reject_reentrant s) (\<lambda>_.
     if is_paused_status s then Inl (Panic ProtocolPaused)
     else revoke_by_authorizer cx u delegate s)"

text \<open>The signature checks of a delegated revocation of a record, shared with the batch.\<close>

definition check_delegated_revocation ::
  "'w ctx \<Rightarrow> uid \<Rightarrow> attestation \<Rightarrow> u64 \<Rightarrow> bytes64 \<Rightarrow> bytes32 \<Rightarrow> 'w sas_state \<Rightarrow> unit sas_result" where
  "check_delegated_revocation cx u a nonce signature public_key s =
     bind_r (require_nonce_not_replayed s (a_attester a) nonce) (\<lambda>_.
     bind_r (require_delegation_key cx (a_schema_uid a) (a_attester a) public_key s) (\<lambda>grp.
     let payload_hash = hash_delegated_revocation (hst cx) u (a_attester a)
                          (domain_of (led cx) nonce)
     in verify_delegated_signature (hst cx) payload_hash public_key signature grp))"

definition revoke_by_delegation ::
  "'w ctx \<Rightarrow> uid \<Rightarrow> u64 \<Rightarrow> bytes64 \<Rightarrow> bytes32 \<Rightarrow> 'w sas_state \<Rightarrow> 'w sas_state sas_result" where
  "revoke_by_delegation cx u nonce signature public_key s =
     bind_r (reject_reentrant s) (\<lambda>_.
     if is_paused_status s then Inl (Panic ProtocolPaused)
     else
       bind_r (or_panic AttestationNotFound (read_attestation (st_store s) u)) (\<lambda>a.
       bind_r (check_delegated_revocation cx u a nonce signature public_key s) (\<lambda>_.
       bind_r (consume_delegation_nonce (a_attester a) nonce s) (\<lambda>s.
       revoke_internal cx u s))))"

section \<open>Replacement and renewal\<close>

definition replace_attestation ::
  "'w ctx \<Rightarrow> uid \<Rightarrow> attestation \<Rightarrow> 'w sas_state \<Rightarrow> (uid \<times> 'w sas_state) sas_result" where
  "replace_attestation cx old_uid new_data s =
     bind_r (reject_reentrant s) (\<lambda>_.
     if is_paused_status s then Inl (Panic ProtocolPaused)
     else
       bind_r (require_unpaid_allowed s new_data) (\<lambda>_.
       bind_r (or_panic AttestationNotFound (read_attestation (st_store s) old_uid)) (\<lambda>old.
       bind_r (require_auth (led cx) (a_attester old)) (\<lambda>_.
       replace_internal cx old_uid new_data old s))))"

definition replace_by_delegation_consent ::
  "'w ctx \<Rightarrow> uid \<Rightarrow> attestation \<Rightarrow> replacement_approval \<Rightarrow> replacement_approval \<Rightarrow> 'w sas_state \<Rightarrow>
   (uid \<times> 'w sas_state) sas_result" where
  "replace_by_delegation_consent cx old_uid new_data attester_approval recipient_approval s =
     (if is_paused_status s then Inl (Panic ContractPaused)
      else
        bind_r (or_panic AttestationNotFound (read_attestation (st_store s) old_uid)) (\<lambda>old.
        if a_attester new_data \<noteq> a_attester old \<or> a_recipient new_data \<noteq> a_recipient old
        then Inl (Panic Unauthorized)
        else
          bind_r (require_attester_key (hst cx) s (a_attester old)
                   (ra_public_key attester_approval)) (\<lambda>_.
          bind_r (require_attester_key (hst cx) s (a_recipient old)
                   (ra_public_key recipient_approval)) (\<lambda>_.
          let dom = \<lparr>rc_network_id = network_id (led cx), rc_contract = current_contract (led cx),
                     rc_attester_nonce = ra_nonce attester_approval,
                     rc_recipient_nonce = ra_nonce recipient_approval\<rparr>;
              payload_hash = hash_delegated_replacement_consent (hst cx) old_uid new_data dom in
          bind_r (verify_offchain_signature (hst cx) payload_hash
                   (ra_public_key attester_approval) (ra_signature attester_approval)) (\<lambda>_.
          bind_r (verify_offchain_signature (hst cx) payload_hash
                   (ra_public_key recipient_approval) (ra_signature recipient_approval)) (\<lambda>_.
          bind_r (consume_delegation_nonce (a_attester old) (ra_nonce attester_approval) s) (\<lambda>s.
          bind_r (consume_recipient_consent_nonce (a_recipient old)
                   (ra_nonce recipient_approval) s) (\<lambda>s.
          replace_internal cx old_uid new_data old s))))))))"

definition renew_attestation ::
  "'w ctx \<Rightarrow> uid \<Rightarrow> u64 \<Rightarrow> 'w sas_state \<Rightarrow> (uid \<times> 'w sas_state) sas_result" where
  "renew_attestation cx u new_expiration_time s =
     bind_r (reject_reentrant s) (\<lambda>_.
     if is_paused_status s then Inl (Panic ProtocolPaused)
     else
       bind_r (or_panic AttestationNotFound (read_attestation (st_store s) u)) (\<lambda>a.
       bind_r (require_auth (led cx) (a_attester a)) (\<lambda>_.
       if \<not> a_revocable a then Inl (Panic NotRevocable)
       else if a_revocation_time a \<noteq> 0 then Inl (Panic AlreadyRevoked)
       else
         bind_r (validate_expiration (led cx) (a_expiration_time a)) (\<lambda>_.
         if a_expiration_time a \<noteq> 0 \<and> new_expiration_time \<noteq> 0
            \<and> new_expiration_time < a_expiration_time a
         then Inl (Panic InvalidTTL)
         else if a_expiration_time a = 0 \<and> new_expiration_time \<noteq> 0 then Inl (Panic InvalidTTL)
         else if new_expiration_time > 0 \<and> a_valid_from a \<ge> new_expiration_time
         then Inl (Panic InvalidTimeRange)
         else
           bind_r (require_registry s) (\<lambda>registry.
           bind_r (check_max_ttl cx registry (a_schema_uid a) new_expiration_time (st_world s))
             (\<lambda>_.
           bind_r (validate_expiration (led cx) new_expiration_time) (\<lambda>_.
           let a = a\<lparr>a_expiration_time := new_expiration_time\<rparr>;
               s = s\<lparr>st_store := write_attestation a (st_store s)\<rparr>;
               s = emit (AttestationRenewed u (a_attester a) new_expiration_time) s;
               s = tell_indexer (\<lambda>ix. x_handle_renew (ext cx) (led cx) ix u new_expiration_time) s
           in Inr (u, s))))))))"

section \<open>Reading and verifying\<close>

definition verify_attestation :: "ledger_env \<Rightarrow> 'w sas_state \<Rightarrow> uid \<Rightarrow> bool" where
  "verify_attestation env s u = verify_attestation_record env (st_store s) u"

definition verify_attestations :: "ledger_env \<Rightarrow> 'w sas_state \<Rightarrow> uid list \<Rightarrow> bool list sas_result" where
  "verify_attestations env s uids =
     (if length uids > MAX_VERIFY_BATCH then Inl (Panic BatchTooLarge)
      else Inr (map (verify_attestation_record env (st_store s)) uids))"

fun verify_until_false :: "ledger_env \<Rightarrow> 'w sas_state \<Rightarrow> uid list \<Rightarrow> bool" where
  "verify_until_false env s [] = True"
| "verify_until_false env s (u # uids) =
     (if \<not> verify_attestation_record env (st_store s) u then False
      else verify_until_false env s uids)"

definition verify_all_attestations :: "ledger_env \<Rightarrow> 'w sas_state \<Rightarrow> uid list \<Rightarrow> bool sas_result" where
  "verify_all_attestations env s uids =
     (if length uids > MAX_VERIFY_BATCH then Inl (Panic BatchTooLarge)
      else Inr (verify_until_false env s uids))"

definition get_attestation :: "'w sas_state \<Rightarrow> uid \<Rightarrow> attestation option" where
  "get_attestation s u = read_attestation (st_store s) u"

definition verify_attestation_view :: "ledger_env \<Rightarrow> 'w sas_state \<Rightarrow> uid \<Rightarrow> bool" where
  "verify_attestation_view env s u =
     (case read_attestation (st_store s) u of
        None \<Rightarrow> False
      | Some a \<Rightarrow>
          if a_revocation_time a \<noteq> 0 then False
          else if a_valid_from a \<noteq> 0 \<and> timestamp env < a_valid_from a then False
          else is_ok (validate_expiration env (a_expiration_time a)))"

text \<open>Renewing the rent of the entry under the UID itself traps when the record is not there.\<close>

definition get_valid_from :: "'w sas_state \<Rightarrow> uid \<Rightarrow> u64 sas_result" where
  "get_valid_from s u =
     (case read_attestation (st_store s) u of
        None \<Rightarrow> Inr 0
      | Some a \<Rightarrow> if uid_records (st_store s) u = None then Inl HostTrap else Inr (a_valid_from a))"

text \<open>
  \<^verbatim>\<open>verify_offchain_attestation\<close> reads the stored record as a full \<^verbatim>\<open>Attestation\<close>; the typed getter
  traps when the value has another type, which is what the compact layout is.
\<close>

definition verify_offchain_attestation ::
  "'w ctx \<Rightarrow> attestation \<Rightarrow> u64 \<Rightarrow> bytes32 \<Rightarrow> bytes64 \<Rightarrow> 'w sas_state \<Rightarrow> bool sas_result" where
  "verify_offchain_attestation cx a nonce public_key signature s =
     bind_r (require_delegation_key cx (a_schema_uid a) (a_attester a) public_key s) (\<lambda>grp.
     if a_revocation_time a \<noteq> 0 then Inl (Panic AlreadyRevoked)
     else if a_valid_from a \<noteq> 0 \<and> timestamp (led cx) < a_valid_from a then Inr False
     else
       bind_r (validate_expiration (led cx) (a_expiration_time a)) (\<lambda>_.
       bind_r (case uid_records (st_store s) (a_uid a) of
                 None \<Rightarrow> Inr ()
               | Some (CompactVal _) \<Rightarrow> Inl HostTrap
               | Some (LegacyVal stored) \<Rightarrow>
                   if a_revocation_time stored \<noteq> 0 then Inl (Panic AlreadyRevoked) else Inr ())
         (\<lambda>_.
       bind_r (require_registry s) (\<lambda>registry.
       bind_r (or_trap (x_get_schema (ext cx) (led cx) registry (a_schema_uid a) (st_world s)))
         (\<lambda>schema_opt.
       bind_r (or_panic InvalidSchema schema_opt) (\<lambda>_.
       let payload_hash = hash_offchain_attestation (hst cx) a (domain_of (led cx) nonce) in
       bind_r (verify_delegated_signature (hst cx) payload_hash public_key signature grp) (\<lambda>_.
       Inr True)))))))"

definition verify_timestamp :: "ledger_env \<Rightarrow> 'w sas_state \<Rightarrow> uid \<Rightarrow> timestamp_anchor \<Rightarrow> bool" where
  "verify_timestamp env s u claim = is_ok (check_claim env (st_store s) u claim)"

definition check_timestamp ::
  "ledger_env \<Rightarrow> 'w sas_state \<Rightarrow> uid \<Rightarrow> timestamp_anchor \<Rightarrow> unit sas_result" where
  "check_timestamp env s u claim = check_claim env (st_store s) u claim"

definition get_issuance_timestamp :: "'w sas_state \<Rightarrow> uid \<Rightarrow> timestamp_anchor option" where
  "get_issuance_timestamp s u = read_anchor (st_store s) u False"

definition get_revocation_timestamp :: "'w sas_state \<Rightarrow> uid \<Rightarrow> timestamp_anchor option" where
  "get_revocation_timestamp s u = read_anchor (st_store s) u True"

definition get_eip712_payload_hash :: "'w ctx \<Rightarrow> attestation \<Rightarrow> u64 \<Rightarrow> bytes32" where
  "get_eip712_payload_hash cx a nonce =
     hash_offchain_attestation (hst cx) a (domain_of (led cx) nonce)"

definition is_zk_nullifier_used :: "'w sas_state \<Rightarrow> bytes32 \<Rightarrow> bool" where
  "is_zk_nullifier_used s nullifier = zk_nullifiers (st_keys s) nullifier"

definition get_delegation_nonce :: "'w sas_state \<Rightarrow> address \<Rightarrow> u64 option" where
  "get_delegation_nonce s attester = delegation_nonces (st_keys s) attester"

definition get_recipient_consent_nonce :: "'w sas_state \<Rightarrow> address \<Rightarrow> u64 option" where
  "get_recipient_consent_nonce s recipient = consent_nonces (st_keys s) recipient"

definition get_attester_key :: "'w sas_state \<Rightarrow> address \<Rightarrow> attester_key_record option" where
  "get_attester_key s attester = attester_keys (st_keys s) attester"

definition ROOT_LEN :: nat where
  "ROOT_LEN = 32"

definition verify_leaf ::
  "host \<Rightarrow> ledger_env \<Rightarrow> att_store \<Rightarrow> uid \<Rightarrow> bytes \<Rightarrow> bytes32 list \<Rightarrow> merkle_hash \<Rightarrow> bool" where
  "verify_leaf h env st u leaf siblings algo =
     (if length siblings > MAX_MERKLE_PROOF_DEPTH \<or> length leaf > MAX_ATTESTATION_DATA_BYTES
      then False
      else
        case read_attestation st u of
          None \<Rightarrow> False
        | Some a \<Rightarrow>
            if length (a_data a) \<noteq> ROOT_LEN then False
            else if \<not> verify_attestation_record env st u then False
            else verify_proof_with h algo (bytes32_of_array (a_data a)) leaf siblings)"

definition verify_merkle_leaf ::
  "host \<Rightarrow> ledger_env \<Rightarrow> 'w sas_state \<Rightarrow> uid \<Rightarrow> bytes \<Rightarrow> bytes32 list \<Rightarrow> bool" where
  "verify_merkle_leaf h env s u leaf siblings = verify_leaf h env (st_store s) u leaf siblings Sha256"

definition verify_merkle_leaf_keccak ::
  "host \<Rightarrow> ledger_env \<Rightarrow> 'w sas_state \<Rightarrow> uid \<Rightarrow> bytes \<Rightarrow> bytes32 list \<Rightarrow> bool" where
  "verify_merkle_leaf_keccak h env s u leaf siblings =
     verify_leaf h env (st_store s) u leaf siblings Keccak256"

section \<open>Maintenance\<close>

definition migrate_attestation :: "uid \<Rightarrow> 'w sas_state \<Rightarrow> (bool \<times> 'w sas_state) sas_result" where
  "migrate_attestation u s =
     bind_r (reject_reentrant s) (\<lambda>_.
     case uid_records (st_store s) u of
       Some (LegacyVal legacy) \<Rightarrow>
         Inr (True, s\<lparr>st_store := migrate_record u legacy (st_store s)\<rparr>)
     | _ \<Rightarrow> Inr (False, s))"

fun migrate_loop :: "uid list \<Rightarrow> nat \<Rightarrow> 'w sas_state \<Rightarrow> (nat \<times> 'w sas_state) sas_result" where
  "migrate_loop [] count s = Inr (count, s)"
| "migrate_loop (u # uids) count s =
     bind_r (migrate_attestation u s) (\<lambda>(migrated, s).
     bind_r (if migrated then add_u32 count 1 else Inr count) (\<lambda>count.
     migrate_loop uids count s))"

definition migrate_attestations :: "uid list \<Rightarrow> 'w sas_state \<Rightarrow> (nat \<times> 'w sas_state) sas_result" where
  "migrate_attestations uids s =
     bind_r (reject_reentrant s) (\<lambda>_. migrate_loop uids 0 s)"

definition reindex_attestation :: "'w ctx \<Rightarrow> uid \<Rightarrow> 'w sas_state \<Rightarrow> 'w sas_state sas_result" where
  "reindex_attestation cx u s =
     (if is_paused_status s then Inl (Panic ProtocolPaused)
      else
        bind_r (reject_reentrant s) (\<lambda>_.
        bind_r (or_panic AttestationNotFound (read_attestation (st_store s) u)) (\<lambda>a.
        bind_r (or_panic NotInitialized (indexer (st_config s))) (\<lambda>ix.
        let (pushed, s) = push_to_indexer cx ix a s in
        if \<not> pushed then Inl (Panic IndexerUnavailable) else Inr (emit (Reindexed u) s)))))"

section \<open>Effects of the entry points\<close>

lemma attest_effect:
  assumes "attest cx a s = Inr (u, s')"
  shows "\<not> is_paused_status s \<and> reject_reentrant s = Inr () \<and> authorized (led cx) (a_attester a) \<and>
    attest_internal cx a s = Inr (u, s')"
  using assms by (auto simp: attest_def result_iff)

lemma admit_delegated_effect:
  assumes "admit_delegated cx a nonce signature public_key s = Inr s'"
  shows "a_revocation_time a = 0 \<and> key_bound cx (a_schema_uid a) (a_attester a) public_key s \<and>
    ed25519_valid (hst cx) public_key
      (bytes32_to_array (hash_offchain_attestation (hst cx) a (domain_of (led cx) nonce))) signature \<and>
    consume_delegation_nonce (a_attester a) nonce s = Inr s'"
  using assms
  by (auto simp: admit_delegated_def Let_def result_iff verify_delegated_signature_key
      require_delegation_key_bound)

lemma attest_by_delegation_effect:
  assumes "attest_by_delegation cx a nonce signature public_key s = Inr (u, s')"
  shows "\<not> is_paused_status s \<and>
    (\<exists>s1. admit_delegated cx a nonce signature public_key s = Inr s1 \<and>
          attest_internal cx a s1 = Inr (u, s'))"
  using assms by (auto simp: attest_by_delegation_def result_iff)

lemma attest_by_scoped_delegation_effect:
  assumes "attest_by_scoped_delegation cx a nonce signature public_key auth s = Inr (u, s')"
  shows "\<not> is_paused_status s \<and> a_revocation_time a = 0 \<and>
    (da_permissions auth AND DELEGATION_PERMISSION_ISSUE) \<noteq> 0 \<and>
    (da_valid_until auth = 0 \<or> timestamp (led cx) \<le> da_valid_until auth) \<and>
    \<not> scope_excludes (da_schema_scope auth) (a_schema_uid a) \<and>
    (attester_matches_key (hst cx) (a_attester a) public_key
     \<or> registered_key_matches s (a_attester a) public_key) \<and>
    ed25519_valid (hst cx) public_key
      (bytes32_to_array (hash_scoped_attestation (hst cx) a (domain_of (led cx) nonce) auth)) signature \<and>
    (\<exists>s1. consume_delegation_nonce (a_attester a) nonce s = Inr s1 \<and>
          attest_internal cx a s1 = Inr (u, s'))"
  using assms by (auto simp: attest_by_scoped_delegation_def Let_def result_iff not_less)

lemma case_accepted_iff:
  "(case v of Some (True, w) \<Rightarrow> f w | _ \<Rightarrow> Inl e) = Inr y \<longleftrightarrow> (\<exists>w. v = Some (True, w) \<and> f w = Inr y)"
  by (auto split: option.splits bool.splits)

lemma attest_with_zk_effect:
  assumes "attest_with_zk cx a zk_proof nullifier s = Inr (u, s')"
  shows "\<not> is_paused_status s \<and> \<not> zk_nullifiers (st_keys s) nullifier \<and>
    authorized (led cx) (a_attester a) \<and>
    (\<exists>verifier w s1. zk_verifier (st_config s) = Some verifier \<and>
      x_verify_proof (ext cx) (led cx) verifier zk_proof [a_uid a, a_schema_uid a, nullifier]
        (st_world s) = Some (True, w) \<and>
      attest_internal cx a (s\<lparr>st_world := w\<rparr>) = Inr (u, s1) \<and>
      s' = s1\<lparr>st_keys := (st_keys s1)\<lparr>zk_nullifiers := (zk_nullifiers (st_keys s1))(nullifier := True)\<rparr>\<rparr>)"
  using assms
  by (auto simp: attest_with_zk_def Let_def result_iff case_accepted_iff)

lemma revoke_effect:
  assumes "revoke cx u s = Inr s'"
  shows "\<not> is_paused_status s \<and>
    (\<exists>a. read_attestation (st_store s) u = Some a \<and> authorized (led cx) (a_attester a)) \<and>
    revoke_internal cx u s = Inr s'"
  using assms by (auto simp: revoke_def result_iff)

lemma revoke_by_authorizer_effect:
  assumes "revoke_by_authorizer cx u who s = Inr s'"
  shows "\<not> is_paused_status s \<and> authorized (led cx) who \<and>
    (\<exists>a. read_attestation (st_store s) u = Some a \<and>
      (who = a_attester a \<or> (\<exists>registry. schema_registry (st_config s) = Some registry \<and>
         x_is_authorized (ext cx) (led cx) registry (a_schema_uid a) who (st_world s) = Some True))) \<and>
    revoke_internal cx u s = Inr s'"
  using assms by (auto simp: revoke_by_authorizer_def result_iff split: if_splits)

lemma revoke_by_delegation_effect:
  assumes "revoke_by_delegation cx u nonce signature public_key s = Inr s'"
  shows "\<not> is_paused_status s \<and>
    (\<exists>a s1. read_attestation (st_store s) u = Some a \<and>
      key_bound cx (a_schema_uid a) (a_attester a) public_key s \<and>
      ed25519_valid (hst cx) public_key
        (bytes32_to_array (hash_delegated_revocation (hst cx) u (a_attester a)
           (domain_of (led cx) nonce))) signature \<and>
      consume_delegation_nonce (a_attester a) nonce s = Inr s1 \<and>
      revoke_internal cx u s1 = Inr s')"
  using assms
  by (auto simp: revoke_by_delegation_def check_delegated_revocation_def Let_def result_iff
      verify_delegated_signature_key require_delegation_key_bound)

lemma replace_attestation_effect:
  assumes "replace_attestation cx old_uid new s = Inr (u, s')"
  shows "\<not> is_paused_status s \<and>
    (\<exists>old. read_attestation (st_store s) old_uid = Some old \<and> authorized (led cx) (a_attester old) \<and>
       replace_internal cx old_uid new old s = Inr (u, s'))"
  using assms by (auto simp: replace_attestation_def result_iff)

lemma replace_by_delegation_consent_effect:
  assumes "replace_by_delegation_consent cx old_uid new att rcp s = Inr (u, s')"
  shows "\<not> is_paused_status s \<and>
    (\<exists>old s1 s2. read_attestation (st_store s) old_uid = Some old \<and>
       consume_delegation_nonce (a_attester old) (ra_nonce att) s = Inr s1 \<and>
       consume_recipient_consent_nonce (a_recipient old) (ra_nonce rcp) s1 = Inr s2 \<and>
       replace_internal cx old_uid new old s2 = Inr (u, s'))"
  using assms by (auto simp: replace_by_delegation_consent_def Let_def result_iff)

lemma renew_effect:
  assumes "renew_attestation cx u e s = Inr (v, s')"
  shows "v = u \<and> \<not> is_paused_status s \<and>
    (\<exists>a w. read_attestation (st_store s) u = Some a \<and> authorized (led cx) (a_attester a) \<and>
      a_revocable a \<and> a_revocation_time a = 0 \<and> live_at (led cx) a \<and>
      extends_to (a_expiration_time a) e \<and> (e = 0 \<or> timestamp (led cx) < e \<and> a_valid_from a < e) \<and>
      s' = s\<lparr>st_store := write_attestation (a\<lparr>a_expiration_time := e\<rparr>) (st_store s),
             st_events := st_events s @ [AttestationRenewed u (a_attester a) e], st_world := w\<rparr>)"
proof -
  from assms obtain a where a: "read_attestation (st_store s) u = Some a"
    "authorized (led cx) (a_attester a)" "a_revocable a" "a_revocation_time a = 0"
    "live_at (led cx) a" "extends_to (a_expiration_time a) e"
    "e = 0 \<or> timestamp (led cx) < e \<and> a_valid_from a < e" "\<not> is_paused_status s" "v = u"
    and s': "s' = tell_indexer (\<lambda>ix. x_handle_renew (ext cx) (led cx) ix u e)
      (emit (AttestationRenewed u (a_attester a) e)
        (s\<lparr>st_store := write_attestation (a\<lparr>a_expiration_time := e\<rparr>) (st_store s)\<rparr>))"
    by (auto simp: renew_attestation_def Let_def result_iff live_at_def extends_to_def not_less
        not_le word_neq_0_conv)
  from tell_indexer_world [of "\<lambda>ix. x_handle_renew (ext cx) (led cx) ix u e"
      "emit (AttestationRenewed u (a_attester a) e)
        (s\<lparr>st_store := write_attestation (a\<lparr>a_expiration_time := e\<rparr>) (st_store s)\<rparr>)"] a
  show ?thesis
    unfolding s' emit_def by auto
qed

section \<open>The entry points refine the store specification\<close>

lemma store_step_steps: "store_step cx st st' \<Longrightarrow> store_steps cx st st'"
  by (rule r_into_rtranclp)

lemmas internal_steps = attest_internal_refines [THEN conjunct1, THEN store_step_steps]
  revoke_internal_refines [THEN conjunct1, THEN store_step_steps]
  replace_internal_refines [THEN conjunct1]

lemma attest_steps: "attest cx a s = Inr (u, s') \<Longrightarrow> store_steps cx (st_store s) (st_store s')"
  by (auto dest!: attest_effect internal_steps)

lemma attest_by_delegation_steps:
  "attest_by_delegation cx a n sg pk s = Inr (u, s') \<Longrightarrow> store_steps cx (st_store s) (st_store s')"
  by (auto dest!: attest_by_delegation_effect admit_delegated_effect internal_steps simp: result_iff)

lemma attest_by_scoped_delegation_steps:
  "attest_by_scoped_delegation cx a n sg pk auth s = Inr (u, s') \<Longrightarrow>
   store_steps cx (st_store s) (st_store s')"
  by (auto dest!: attest_by_scoped_delegation_effect internal_steps simp: result_iff)

lemma attest_with_zk_steps:
  "attest_with_zk cx a p n s = Inr (u, s') \<Longrightarrow> store_steps cx (st_store s) (st_store s')"
  by (auto dest!: attest_with_zk_effect internal_steps)

lemma revoke_steps: "revoke cx u s = Inr s' \<Longrightarrow> store_steps cx (st_store s) (st_store s')"
  by (auto dest!: revoke_effect internal_steps)

lemma revoke_by_authorizer_steps:
  "revoke_by_authorizer cx u who s = Inr s' \<Longrightarrow> store_steps cx (st_store s) (st_store s')"
  by (auto dest!: revoke_by_authorizer_effect internal_steps)

lemma revoke_by_delegate_steps:
  "revoke_by_delegate cx u who s = Inr s' \<Longrightarrow> store_steps cx (st_store s) (st_store s')"
  by (auto simp: revoke_by_delegate_def result_iff dest: revoke_by_authorizer_steps)

lemma revoke_by_delegation_steps:
  "revoke_by_delegation cx u n sg pk s = Inr s' \<Longrightarrow> store_steps cx (st_store s) (st_store s')"
  by (auto dest!: revoke_by_delegation_effect internal_steps simp: result_iff)

lemma replace_attestation_steps:
  "replace_attestation cx old new s = Inr (u, s') \<Longrightarrow> store_steps cx (st_store s) (st_store s')"
  by (auto dest!: replace_attestation_effect internal_steps)

lemma replace_by_delegation_consent_steps:
  "replace_by_delegation_consent cx old new x y s = Inr (u, s') \<Longrightarrow>
   store_steps cx (st_store s) (st_store s')"
  by (auto dest!: replace_by_delegation_consent_effect internal_steps simp: result_iff)

lemma renew_attestation_steps:
  "renew_attestation cx u e s = Inr (v, s') \<Longrightarrow> store_steps cx (st_store s) (st_store s')"
  by (auto dest!: renew_effect intro!: store_step_steps step_renew)

lemma migrate_attestation_steps:
  "migrate_attestation u s = Inr (b, s') \<Longrightarrow> store_steps cx (st_store s) (st_store s')"
  by (auto simp: migrate_attestation_def result_iff intro!: store_step_steps step_migrate
      split: option.splits stored_value.splits)

lemma migrate_loop_steps:
  "migrate_loop uids n s = Inr (m, s') \<Longrightarrow> store_steps cx (st_store s) (st_store s')"
proof (induction uids arbitrary: n s)
  case (Cons u uids)
  then show ?case
    by (auto simp: result_iff dest!: migrate_attestation_steps [where cx = cx]
        intro: rtranclp_trans split: prod.splits) 
qed simp

lemma migrate_attestations_steps:
  "migrate_attestations uids s = Inr (n, s') \<Longrightarrow> store_steps cx (st_store s) (st_store s')"
  by (auto simp: migrate_attestations_def result_iff dest: migrate_loop_steps)

lemma reindex_attestation_frame:
  assumes "reindex_attestation cx u s = Inr s'"
  shows "\<exists>w. s' = s\<lparr>st_world := w, st_events := st_events s @ [Reindexed u]\<rparr>"
proof -
  from assms obtain ix a where "s' = emit (Reindexed u) (snd (push_to_indexer cx ix a s))"
    by (auto simp: reindex_attestation_def Let_def result_iff case_prod_beta)
  with push_to_indexer_world [of cx ix a s] show ?thesis
    by (auto simp: emit_def)
qed

section \<open>Properties of the entry points\<close>

text \<open>
  C13: A successful \<^verbatim>\<open>attest\<close> records exactly the attestation that its attester authorized. The call was
  not paused and carried the attester's authorization, the returned UID is the content hash of the
  payload and was free before, afterwards that UID reads as the given record with the ledger's time
  as issuance time and every other UID reads as before, the issuance is anchored at the current
  ledger, and configuration, fees, keys and guards are as before.
\<close>

theorem attest_records:
  assumes "attest cx a s = Inr (u, s')"
  shows "\<not> is_paused_status s \<and> authorized (led cx) (a_attester a) \<and>
    u = attestation_uid (hst cx) (a_schema_uid a) (a_recipient a) (a_attester a) (a_data a) \<and>
    get_attestation s u = None \<and>
    get_attestation s' = (get_attestation s)(u \<mapsto> a\<lparr>a_time := timestamp (led cx)\<rparr>) \<and>
    get_issuance_timestamp s' u = Some (anchor_now (led cx)) \<and> same_frame s s'"
proof -
  note eff = attest_effect [OF assms]
  then have int: "attest_internal cx a s = Inr (u, s')" by blast
  from attest_internal_effect [OF int]
  have v: "validate_new_attestation cx a (st_store s) = Inr ()" and u: "u = a_uid a"
    by (auto simp: issuance_ok_def)
  have st: "st_store s' = issue_in_store (led cx) a (st_store s)" "same_frame s s'"
    using attest_internal_refines [OF int] by auto
  moreover from v have "read_attestation (st_store s) u = None"
    and "u = attestation_uid (hst cx) (a_schema_uid a) (a_recipient a) (a_attester a) (a_data a)"
    by (auto simp: result_iff store.has_read u)
  ultimately show ?thesis
    using eff u
    by (simp add: get_issuance_timestamp_def read_anchor_def read_as_map(1)
        get_attestation_def [abs_def])
qed

lemma sample_attest: "\<exists>u s'. attest sample_cx (sample_new 3) sample_state = Inr (u, s')"
proof -
  have "\<exists>s'. attest_internal sample_cx (sample_new 3) sample_state = Inr (a_uid (sample_new 3), s')"
    by (rule attest_internal_succeeds [OF sample_issuance_ok]) (simp_all add: sample_defs u32_max_def)
  then show ?thesis
    by (auto simp: attest_def result_iff require_unpaid_allowed_def reject_reentrant_def
        require_auth_def is_paused_status_def sample_defs)
qed

theorem attest_records_witness:
  "\<exists>u s'. attest sample_cx (sample_new 3) sample_state = Inr (u, s') \<and>
     get_attestation s' u = Some ((sample_new 3)\<lparr>a_time := 1000\<rparr>)"
proof -
  obtain u s' where "attest sample_cx (sample_new 3) sample_state = Inr (u, s')"
    using sample_attest by blast
  with attest_records [OF this] show ?thesis
    by (auto simp: sample_cx_def sample_env_def)
qed


lemma holding_revoke: "\<exists>s'. revoke sample_cx 123 (holding_state 3) = Inr s'"
  by (simp add: revoke_def revoke_internal_def result_iff sample_read_holding Let_def bind_r_def
      reject_reentrant_def require_auth_def is_paused_status_def sample_defs holding_state_def
      read_issue_in_store earlier_env_def or_panic_def enter_callback_context_def u32_max_def
      require_registry_def write_anchor_def tell_indexer_def or_trap_def checked_add_u32_def
      enter_reentrancy_guard_def)


text \<open>
  C15: Nobody revokes without authority. Whichever entry point revoked the attestation, either its
  attester authorized the call, or the named authorizer did and the registry reports it as owner or
  delegate of the schema, or the call carried a valid signature over this UID under the key bound to
  the attester.
\<close>

theorem revocation_needs_authority:
  assumes "revoke cx u s = Inr s' \<or> revoke_by_authorizer cx u who s = Inr s'
    \<or> revoke_by_delegate cx u who s = Inr s' \<or> revoke_by_delegation cx u n sg pk s = Inr s'"
  shows "\<exists>a. get_attestation s u = Some a \<and>
    (authorized (led cx) (a_attester a)
     \<or> authorized (led cx) who \<and> (\<exists>registry. schema_registry (st_config s) = Some registry \<and>
         x_is_authorized (ext cx) (led cx) registry (a_schema_uid a) who (st_world s) = Some True)
     \<or> key_bound cx (a_schema_uid a) (a_attester a) pk s \<and>
       ed25519_valid (hst cx) pk (bytes32_to_array
         (hash_delegated_revocation (hst cx) u (a_attester a) (domain_of (led cx) n))) sg)"
proof -
  have "revoke_by_authorizer cx u who s = Inr s'" if "revoke_by_delegate cx u who s = Inr s'"
    using that by (auto simp: revoke_by_delegate_def result_iff)
  with assms show ?thesis
    using revoke_effect [of cx u s s'] revoke_by_authorizer_effect [of cx u who s s']
      revoke_by_delegation_effect [of cx u n sg pk s s']
    unfolding get_attestation_def by blast
qed

theorem revocation_needs_authority_witness:
  "\<exists>s' a. revoke sample_cx 123 (holding_state 3) = Inr s' \<and>
     get_attestation (holding_state 3) 123 = Some a"
proof -
  obtain s' where r: "revoke sample_cx 123 (holding_state 3) = Inr s'"
    using holding_revoke by blast
  with revocation_needs_authority [OF disjI1 [OF r]] show ?thesis by blast
qed

text \<open>
  C16: A relayed issuance is one its attester signed, and each signature works once. When
  \<^verbatim>\<open>attest_by_delegation\<close> succeeds, the signature is valid for the digest of this attestation, network,
  contract and nonce under the key bound to the attester; the nonce was above the attester's
  watermark and is the watermark afterwards; the attestation is recorded as by \<^verbatim>\<open>attest\<close>; and no later
  delegated issuance for this attester with this or a smaller nonce succeeds from there.
\<close>

theorem delegated_issuance_sound:
  assumes "attest_by_delegation cx a nonce sg pk s = Inr (u, s')"
  shows "key_bound cx (a_schema_uid a) (a_attester a) pk s \<and>
    ed25519_valid (hst cx) pk (bytes32_to_array (hash_delegation_digest cx a nonce)) sg \<and>
    (\<forall>m. get_delegation_nonce s (a_attester a) = Some m \<longrightarrow> m < nonce) \<and>
    get_delegation_nonce s' = (get_delegation_nonce s)(a_attester a \<mapsto> nonce) \<and>
    get_attestation s' = (get_attestation s)(u \<mapsto> a\<lparr>a_time := timestamp (led cx)\<rparr>) \<and>
    (\<forall>cx' b n sg' pk'. a_attester b = a_attester a \<longrightarrow> n \<le> nonce \<longrightarrow>
       \<not> is_ok (attest_by_delegation cx' b n sg' pk' s'))"
proof -
  from attest_by_delegation_effect [OF assms] obtain s1 where
    adm: "admit_delegated cx a nonce sg pk s = Inr s1" and int: "attest_internal cx a s1 = Inr (u, s')"
    by blast
  note adm' = admit_delegated_effect [OF adm]
  then have con: "consume_delegation_nonce (a_attester a) nonce s = Inr s1" by blast
  from attest_internal_refines [OF int] have keys: "st_keys s' = st_keys s1"
    and st: "st_store s' = issue_in_store (led cx) a (st_store s1)" and u: "u = a_uid a"
    by (auto simp: same_frame_def)
  have mark: "delegation_nonces (st_keys s') (a_attester a) = Some nonce"
    using delegation.mark_consume [OF con, of "a_attester a"] keys by simp
  have "\<not> is_ok (attest_by_delegation cx' b n sg' pk' s')"
    if "a_attester b = a_attester a" "n \<le> nonce" for cx' :: "'a ctx" and b n sg' pk'
  proof
    assume "is_ok (attest_by_delegation cx' b n sg' pk' s')"
    then obtain v t where "attest_by_delegation cx' b n sg' pk' s' = Inr (v, t)"
      by (auto simp: is_ok_def split: sum.splits)
    then obtain t1 where "consume_delegation_nonce (a_attester b) n s' = Inr t1"
      by (auto dest!: attest_by_delegation_effect admit_delegated_effect)
    from delegation.consume_above [OF this] that mark show False by auto
  qed
  then show ?thesis
    using adm' con keys st u
    by (auto simp: result_iff hash_delegation_digest_def get_delegation_nonce_def [abs_def]
        get_attestation_def [abs_def] read_as_map(1))
qed

lemma sample_signature: "signature_scalar_is_canonical 0"
  by code_simp

lemma sample_admit:
  assumes "st_config s = st_config sample_state" and "st_fees s = st_fees sample_state"
    and "st_keys s = st_keys sample_state"
  shows "admit_delegated sample_cx (sample_new 3) 5 0 7 s = Inr (set_delegation_nonce (Account 7) 5 s)"
proof -
  have sig: "verify_offchain_signature toy_host p 7 0 = Inr ()" for p
    by (simp add: result_iff sample_signature toy_host_def sample_host_def)
  have key: "attester_matches_key toy_host (Account 7) 7"
    by (simp add: attester_matches_key_def toy_host_def sample_host_def)
  from assms show ?thesis
    by (simp add: admit_delegated_def require_unpaid_allowed_def require_delegation_policy_def
        require_nonce_not_replayed_def nonce_replayed_def require_delegation_key_def
        schema_frost_group_def require_registry_def require_attester_key_def key sig
        verify_delegated_signature_def consume_delegation_nonce_def sample_defs bind_r_def or_panic_def)
qed

lemma sample_by_delegation:
  "\<exists>u s'. attest_by_delegation sample_cx (sample_new 3) 5 0 7 sample_state = Inr (u, s')"
proof -
  let ?s = "set_delegation_nonce (Account 7) 5 sample_state"
  have "issuance_ok sample_cx (sample_new 3) ?s"
    using sample_issuance_ok by (simp add: issuance_ok_def)
  then have "\<exists>s'. attest_internal sample_cx (sample_new 3) ?s = Inr (a_uid (sample_new 3), s')"
    by (rule attest_internal_succeeds) (simp_all add: sample_defs u32_max_def)
  then show ?thesis
    by (auto simp: attest_by_delegation_def sample_admit)
qed

theorem delegated_issuance_sound_witness:
  "\<exists>u s'. attest_by_delegation sample_cx (sample_new 3) 5 0 7 sample_state = Inr (u, s') \<and>
     get_delegation_nonce s' (Account 7) = Some 5 \<and>
     \<not> is_ok (attest_by_delegation sample_cx (sample_new 4) 5 0 7 s')"
proof -
  obtain u s' where r: "attest_by_delegation sample_cx (sample_new 3) 5 0 7 sample_state = Inr (u, s')"
    using sample_by_delegation by blast
  have "a_attester (sample_new n) = Account 7" for n by (simp add: sample_new_def)
  with delegated_issuance_sound [OF r] r show ?thesis
    by (auto intro!: exI)
qed

text \<open>
  C19: Replacement is atomic and keeps the parties. When \<^verbatim>\<open>replace_attestation\<close> succeeds, the old record is
  revoked and the new one issued in the same step, linked to the old one, by the same attester about
  the same recipient, with the old attester's authorization; nothing else a reader sees changes; and
  the new record does not expire before the old one would have, when both expire.
\<close>

theorem replacement_atomic:
  assumes "replace_attestation cx old_uid new s = Inr (u, s')" and "store_wf (st_store s)"
  shows "u \<noteq> old_uid \<and> (\<exists>old. get_attestation s old_uid = Some old \<and>
    authorized (led cx) (a_attester old) \<and> a_revocable old \<and> a_revocation_time old = 0 \<and>
    live_at (led cx) old \<and>
    a_attester new = a_attester old \<and> a_recipient new = a_recipient old \<and>
    (a_expiration_time old \<noteq> 0 \<longrightarrow> extends_to (a_expiration_time old) (a_expiration_time new)) \<and>
    get_attestation s' = (get_attestation s)
      (old_uid \<mapsto> old\<lparr>a_revocation_time := timestamp (led cx)\<rparr>,
       u \<mapsto> new\<lparr>a_ref_uid := old_uid, a_time := timestamp (led cx)\<rparr>) \<and> same_frame s s')"
proof -
  from replace_attestation_effect [OF assms(1)] obtain old where
    old: "read_attestation (st_store s) old_uid = Some old" "authorized (led cx) (a_attester old)"
    and rep: "replace_internal cx old_uid new old s = Inr (u, s')"
    by blast
  from replace_internal_effect [OF rep] obtain s1 s2 w where
    chk: "a_revocable old" "a_revocation_time old = 0" "live_at (led cx) old"
    "a_attester new = a_attester old" "a_recipient new = a_recipient old"
    "a_expiration_time old \<noteq> 0 \<longrightarrow> extends_to (a_expiration_time old) (a_expiration_time new)"
    and s1: "revoke_internal cx old_uid s = Inr s1"
    and s2: "attest_internal cx (new\<lparr>a_ref_uid := old_uid\<rparr>) s1 = Inr (u, s2)"
    and s': "s' = s2\<lparr>st_world := w\<rparr>"
    by (auto simp: live_at_def extends_to_def)
  from revoke_internal_refines [OF s1] old(1)
  have st1: "st_store s1 = revoke_in_store (led cx) old_uid old (st_store s)" by auto
  from attest_internal_refines [OF s2] have u: "u = a_uid new"
    and st2: "st_store s2 = issue_in_store (led cx) (new\<lparr>a_ref_uid := old_uid\<rparr>) (st_store s1)"
    by auto
  from attest_internal_effect [OF s2] have "a_uid new \<noteq> old_uid"
    by (auto simp: issuance_ok_def result_iff)
  moreover have "same_frame s s'"
    using replace_internal_refines [OF rep] by blast
  ultimately show ?thesis
    using old chk u assms(2)
    by (simp add: get_attestation_def [abs_def] s' st1 st2 read_as_map(1,2))
qed

lemma holding_replace: "\<exists>u s'. replace_attestation sample_cx 123 (sample_new 4) (holding_state 3) = Inr (u, s')"
proof -
  let ?old = "(sample_new 3)\<lparr>a_time := 900\<rparr>" and ?new = "(sample_new 4)\<lparr>a_ref_uid := 123\<rparr>"
  obtain s1 where r: "revoke_internal sample_cx 123 (holding_state 3) = Inr s1"
    using holding_revoke revoke_effect by blast
  have old: "read_attestation (st_store (holding_state 3)) 123 = Some ?old"
    by (simp add: sample_read_holding)
  obtain w evs where s1: "s1 = (holding_state 3)\<lparr>st_store := revoke_in_store sample_env 123 ?old
      (st_store (holding_state 3)), st_events := evs, st_world := w\<rparr>"
    using revoke_internal_effect [OF r] old by (auto simp: sample_cx_def)
  have rd: "read_attestation (st_store s1) v = (if v = 123 then Some (?old\<lparr>a_revocation_time := 1000\<rparr>) else None)" for v
    by (simp add: s1 read_revoke_in_store [OF sample_wf_holding old] sample_env_def sample_read_holding)
  have "validate_new_attestation sample_cx ?new (st_store s1) = Inr ()"
    by (simp add: result_iff sample_defs sample_uid MAX_ATTESTATION_DATA_BYTES_def store.has_read rd
        zero_account_def zero_contract_def)
  moreover have "resolve_schema sample_cx (Contract 3) ?new () = Inr sample_schema"
    by (simp add: resolve_schema_def check_max_ttl_def authorize_attester_def sample_defs)
  moreover have "anchors (st_store s1) (a_uid ?new, False) = None"
    by (simp add: s1 holding_state_def sample_new_def)
  moreover have "st_config s1 = st_config sample_state" "st_rate s1 = st_rate sample_state"
    "st_guard s1 = st_guard sample_state"
    by (simp_all add: s1 holding_state_def)
  ultimately have "issuance_ok sample_cx ?new s1"
    unfolding issuance_ok_def
    by (auto simp: sample_state_def fresh_state_def quota_left_def sample_cx_def sample_externs_def result_iff)
  then have "\<exists>s2. attest_internal sample_cx ?new s1 = Inr (a_uid ?new, s2)"
    by (rule attest_internal_succeeds)
      (simp_all add: s1 holding_state_def sample_state_def fresh_state_def fresh_config_def u32_max_def)
  with r have "\<exists>u s'. replace_internal sample_cx 123 (sample_new 4) ?old (holding_state 3) = Inr (u, s')"
    by (auto simp: replace_internal_def result_iff Let_def is_ok_def validate_expiration_def
        sample_new_def sample_cx_def sample_env_def)
  then show ?thesis
    by (auto simp: replace_attestation_def old)
qed

theorem replacement_atomic_witness:
  "\<exists>u s' a. replace_attestation sample_cx 123 (sample_new 4) (holding_state 3) = Inr (u, s') \<and>
     get_attestation s' u = Some a \<and> a_ref_uid a = 123"
proof -
  obtain u s' where r: "replace_attestation sample_cx 123 (sample_new 4) (holding_state 3) = Inr (u, s')"
    using holding_replace by blast
  from replacement_atomic [OF r sample_wf_holding] r show ?thesis by auto
qed

text \<open>
  Renewal only lengthens a live attestation. When \<^verbatim>\<open>renew_attestation\<close> succeeds, the attester
  authorized it, the attestation was revocable, unrevoked and not expired, its new expiration is at
  least the old one (0 standing for never, which is kept once reached) and lies ahead, and nothing but
  that expiration changes for a reader.
\<close>

theorem renewal_extends:
  assumes "renew_attestation cx u e s = Inr (v, s')" and "store_wf (st_store s)"
  shows "v = u \<and> (\<exists>a. get_attestation s u = Some a \<and> authorized (led cx) (a_attester a) \<and>
    a_revocable a \<and> a_revocation_time a = 0 \<and> live_at (led cx) a \<and>
    extends_to (a_expiration_time a) e \<and> (e = 0 \<or> timestamp (led cx) < e) \<and>
    get_attestation s' = (get_attestation s)(u \<mapsto> a\<lparr>a_expiration_time := e\<rparr>) \<and> same_frame s s')"
  using renew_effect [OF assms(1)] assms(2)
  by (auto simp: get_attestation_def [abs_def] read_as_map(3) same_frame_def)

lemma holding_renew: "\<exists>v s'. renew_attestation sample_cx 123 3000 (holding_state 3) = Inr (v, s')"
  by (simp add: renew_attestation_def bind_r_def or_panic_def sample_read_holding Let_def
      validate_expiration_def require_auth_def reject_reentrant_def is_paused_status_def
      require_registry_def check_max_ttl_def holding_state_def read_issue_in_store earlier_env_def
      sample_defs)

theorem renewal_extends_witness:
  "\<exists>v s' a. renew_attestation sample_cx 123 3000 (holding_state 3) = Inr (v, s') \<and>
     get_attestation s' 123 = Some a \<and> a_expiration_time a = 3000"
proof -
  obtain v s' where r: "renew_attestation sample_cx 123 3000 (holding_state 3) = Inr (v, s')"
    using holding_renew by blast
  from renewal_extends [OF r sample_wf_holding] r show ?thesis by auto
qed

text \<open>
  Batch verification gives the verdicts of single verification. Within the batch limit
  \<^verbatim>\<open>verify_attestations\<close> returns one verdict per UID, in order, each the one \<^verbatim>\<open>verify_attestation\<close> gives;
  \<^verbatim>\<open>verify_all_attestations\<close>, which stops at the first failure, returns their conjunction; the read-only
  view agrees with both; beyond the limit both batches fail with \<^verbatim>\<open>BatchTooLarge\<close>.
\<close>

theorem verify_batch_agrees:
  "verify_attestations env s uids =
     (if length uids \<le> 100 then Inr (map (verify_attestation env s) uids)
      else Inl (Panic BatchTooLarge)) \<and>
   verify_all_attestations env s uids =
     (if length uids \<le> 100 then Inr (list_all (verify_attestation env s) uids)
      else Inl (Panic BatchTooLarge)) \<and>
   verify_attestation_view env s = verify_attestation env s"
proof -
  have "verify_until_false env s uids = list_all (verify_attestation env s) uids"
    by (induction uids) (auto simp: verify_attestation_def)
  moreover have "map (verify_attestation_record env (st_store s)) uids = map (verify_attestation env s) uids"
    by (simp add: verify_attestation_def)
  moreover have "verify_attestation_view env s = verify_attestation env s"
    by (simp add: fun_eq_iff verify_attestation_view_def verify_attestation_def
        verify_attestation_record_def)
  ultimately show ?thesis
    by (simp add: verify_attestations_def verify_all_attestations_def MAX_VERIFY_BATCH_def)
qed

text \<open>
  A zero-knowledge credential is spent once. When \<^verbatim>\<open>attest_with_zk\<close> succeeds, the installed verifier
  accepted the proof for exactly this attestation UID, schema and nullifier, the attester authorized
  the call, the nullifier was unused and is used afterwards, and no later call with that nullifier
  succeeds from there, whatever the attestation and the proof.
\<close>

theorem zk_nullifier_once:
  assumes "attest_with_zk cx a zk_proof nullifier s = Inr (u, s')"
  shows "authorized (led cx) (a_attester a) \<and>
    (\<exists>verifier w. zk_verifier (st_config s) = Some verifier \<and>
       x_verify_proof (ext cx) (led cx) verifier zk_proof [u, a_schema_uid a, nullifier] (st_world s)
         = Some (True, w)) \<and>
    \<not> is_zk_nullifier_used s nullifier \<and> is_zk_nullifier_used s' nullifier \<and>
    get_attestation s' = (get_attestation s)(u \<mapsto> a\<lparr>a_time := timestamp (led cx)\<rparr>) \<and>
    (\<forall>cx' b p. \<not> is_ok (attest_with_zk cx' b p nullifier s'))"
proof -
  from attest_with_zk_effect [OF assms] obtain verifier w s1 where
    z: "\<not> zk_nullifiers (st_keys s) nullifier" "authorized (led cx) (a_attester a)"
    "zk_verifier (st_config s) = Some verifier"
    "x_verify_proof (ext cx) (led cx) verifier zk_proof [a_uid a, a_schema_uid a, nullifier]
        (st_world s) = Some (True, w)"
    and int: "attest_internal cx a (s\<lparr>st_world := w\<rparr>) = Inr (u, s1)"
    and s': "s' = s1\<lparr>st_keys := (st_keys s1)\<lparr>zk_nullifiers := (zk_nullifiers (st_keys s1))(nullifier := True)\<rparr>\<rparr>"
    by blast
  have "\<not> is_ok (attest_with_zk cx' b p nullifier s')" for cx' :: "'a ctx" and b p
    by (auto simp: is_ok_def s' split: sum.splits dest: attest_with_zk_effect)
  with z show ?thesis
    using attest_internal_refines [OF int]
    by (simp add: is_zk_nullifier_used_def s' get_attestation_def [abs_def] read_as_map(1))
qed

definition zk_state :: "unit sas_state" where
  "zk_state = sample_state\<lparr>st_config := (st_config sample_state)\<lparr>zk_verifier := Some (Contract 40)\<rparr>\<rparr>"

theorem zk_nullifier_once_witness:
  "\<exists>u s'. attest_with_zk sample_cx (sample_new 3) [1] 77 zk_state = Inr (u, s') \<and>
     \<not> is_ok (attest_with_zk sample_cx (sample_new 4) [1] 77 s')"
proof -
  have "issuance_ok sample_cx (sample_new 3) zk_state"
    using sample_issuance_ok by (simp add: issuance_ok_def zk_state_def)
  then obtain s1 where "attest_internal sample_cx (sample_new 3) zk_state = Inr (a_uid (sample_new 3), s1)"
    using attest_internal_succeeds [of sample_cx "sample_new 3" zk_state]
    by (auto simp: zk_state_def sample_defs u32_max_def)
  moreover have "zk_state\<lparr>st_world := ()\<rparr> = zk_state"
    by simp
  ultimately have "\<exists>u s'. attest_with_zk sample_cx (sample_new 3) [1] 77 zk_state = Inr (u, s')"
    by (simp add: attest_with_zk_def is_paused_status_def require_unpaid_allowed_def
        require_auth_def zk_state_def sample_cx_def sample_externs_def sample_env_def
        sample_state_def fresh_state_def fresh_config_def fresh_fees_def fresh_keys_def or_panic_def)
  then obtain u s' where r: "attest_with_zk sample_cx (sample_new 3) [1] 77 zk_state = Inr (u, s')"
    by blast
  from zk_nullifier_once [OF r] r show ?thesis by blast
qed

lemma records_migrate:
  "uid_records (migrate_record u l st) = (uid_records st)(u \<mapsto> CompactVal (from_attestation l))"
  by (simp add: migrate_record_def Let_def)

lemma migrate_loop_view:
  assumes "migrate_loop uids n s = Inr (m, s')" and "store_wf (st_store s)"
  shows "read_attestation (st_store s') = read_attestation (st_store s) \<and> store_wf (st_store s') \<and>
    (\<forall>u l. uid_records (st_store s') u = Some (LegacyVal l) \<longrightarrow>
       uid_records (st_store s) u = Some (LegacyVal l) \<and> u \<notin> set uids)"
  using assms
proof (induction uids arbitrary: n s)
  case (Cons v uids)
  then obtain b k s1 where s1: "migrate_attestation v s = Inr (b, s1)"
    and rest: "migrate_loop uids k s1 = Inr (m, s')"
    by (auto simp: result_iff)
  have m: "read_attestation (st_store s1) = read_attestation (st_store s) \<and> store_wf (st_store s1) \<and>
    (\<forall>u l. uid_records (st_store s1) u = Some (LegacyVal l) \<longrightarrow>
       uid_records (st_store s) u = Some (LegacyVal l) \<and> u \<noteq> v)"
    using s1 Cons.prems(2)
    by (auto simp: migrate_attestation_def result_iff read_as_map(5) store_wf_migrate
        records_migrate split: option.splits stored_value.splits if_splits)
  with Cons.IH [OF rest] show ?case by auto
qed simp

text \<open>
  Migrating stored records to the compact layout is invisible. After \<^verbatim>\<open>migrate_attestations\<close> every UID
  reads as before, the store is still well formed, and none of the given UIDs holds a legacy record.
\<close>

theorem migration_invisible:
  assumes "migrate_attestations uids s = Inr (n, s')" and "store_wf (st_store s)"
  shows "get_attestation s' = get_attestation s \<and> store_wf (st_store s') \<and>
    (\<forall>u\<in>set uids. \<forall>l. uid_records (st_store s') u \<noteq> Some (LegacyVal l))"
  using assms migrate_loop_view [of uids 0 s n s']
  by (auto simp: migrate_attestations_def result_iff get_attestation_def [abs_def])

definition legacy_state :: "unit sas_state" where
  "legacy_state = sample_state\<lparr>st_store := empty_store\<lparr>uid_records :=
     [123 \<mapsto> LegacyVal ((sample_new 3)\<lparr>a_valid_from := 950\<rparr>)]\<rparr>\<rparr>"

theorem migration_invisible_witness:
  "\<exists>n s'. migrate_attestations [123] legacy_state = Inr (n, s') \<and>
     get_attestation s' 123 = get_attestation legacy_state 123"
proof -
  have "\<exists>n s'. migrate_attestations [123] legacy_state = Inr (n, s')"
    by (simp add: migrate_attestations_def migrate_attestation_def legacy_state_def bind_r_def
        reject_reentrant_def sample_defs add_u32_def u32_max_def)
  then obtain n s' where r: "migrate_attestations [123] legacy_state = Inr (n, s')" by blast
  have "store_wf (st_store legacy_state)"
    by (simp add: legacy_state_def store_wf_def sample_new_def empty_store_def)
  with migration_invisible [OF r] r show ?thesis by auto
qed

text \<open>
  C31: Selective disclosure is sound. If \<^verbatim>\<open>verify_merkle_leaf\<close> accepts a leaf for an attestation whose
  data is the root of a vector of leaves, then the attestation verifies now and the leaf is one of
  that vector, unless SHA-256 collides between the tree and the proof.
\<close>

theorem disclosed_leaf_attested:
  assumes "verify_merkle_leaf h env s u leaf siblings" and "merkle_root h leaves = Inr root"
    and "get_attestation s u = Some a" and "a_data a = bytes32_to_array root"
  shows "verify_attestation env s u \<and>
    (leaf \<in> set leaves \<or> digest_collision h Sha256 (tree_preimages h Sha256 (build_tree leaves))
        (proof_preimages h Sha256 leaf siblings))"
proof -
  from assms(1,3,4) have "verify_proof_with h Sha256 root leaf siblings" "verify_attestation env s u"
    by (auto simp: verify_merkle_leaf_def verify_leaf_def verify_attestation_def get_attestation_def
        split: if_splits)
  then show ?thesis
    using accepted_leaf_member [OF assms(2)] by blast
qed

definition root_state :: "unit sas_state" where
  "root_state = sample_state\<lparr>st_store := issue_in_store earlier_env
     ((sample_new 32)\<lparr>a_data := bytes32_to_array (leaf_hash toy_host [9])\<rparr>) empty_store\<rparr>"

theorem disclosed_leaf_attested_witness:
  "verify_merkle_leaf toy_host sample_env root_state 152 [9] [] \<and>
   verify_attestation sample_env root_state 152"
proof -
  have root: "merkle_root toy_host [[9]] = Inr (leaf_hash toy_host [9])"
    by (simp add: merkle_root_def reduce_levels_stop)
  have get: "get_attestation root_state 152 = Some ((sample_new 32)\<lparr>
      a_data := bytes32_to_array (leaf_hash toy_host [9]), a_time := 900\<rparr>)"
    by (simp add: get_attestation_def root_state_def read_issue_in_store earlier_env_def sample_new_def)
  have "verify_merkle_leaf toy_host sample_env root_state 152 [9] []"
    using get
    by (simp add: verify_merkle_leaf_def verify_leaf_def get_attestation_def ROOT_LEN_def
        verify_attestation_record_def is_ok_def validate_expiration_def sample_new_def sample_env_def
        MAX_ATTESTATION_DATA_BYTES_def verify_proof_with_iff leaf_hash_def)
  with disclosed_leaf_attested [OF this root get] show ?thesis by simp
qed

end
