(* ===== verification/Sas_Batch.thy ===== *)
theory Sas_Batch
  imports Sas_Entry
begin

text \<open>
  The batch entry points of the SAS contract (\<^verbatim>\<open>contracts/sas/src/lib.rs\<close>): batched and broadcast
  issuance, batched revocation, pruning and re-indexing. A soroban \<^verbatim>\<open>Map\<close> that is only used as a set of
  keys is the list of its keys.
\<close>

section \<open>Batched issuance\<close>

definition MAX_REINDEX :: nat where "MAX_REINDEX = 100"

fun multi_attest_loop ::
  "'w ctx \<Rightarrow> attestation list \<Rightarrow> uid list \<Rightarrow> address list \<Rightarrow> 'w sas_state \<Rightarrow>
   (uid list \<times> address list \<times> 'w sas_state) sas_result" where
  "multi_attest_loop cx [] uids authorized_attesters s = Inr (uids, authorized_attesters, s)"
| "multi_attest_loop cx (a # as) uids authorized_attesters s =
     bind_r (require_unpaid_allowed s a) (\<lambda>_.
     bind_r (if a_attester a \<in> set authorized_attesters then Inr authorized_attesters
             else bind_r (require_auth (led cx) (a_attester a)) (\<lambda>_.
                    Inr (List.insert (a_attester a) authorized_attesters))) (\<lambda>authorized_attesters.
     bind_r (attest_internal cx a s) (\<lambda>(u, s).
     multi_attest_loop cx as (uids @ [u]) authorized_attesters s)))"

definition multi_attest ::
  "'w ctx \<Rightarrow> attestation list \<Rightarrow> 'w sas_state \<Rightarrow> (uid list \<times> 'w sas_state) sas_result" where
  "multi_attest cx attestations s =
     (if is_paused_status s then Inl (Panic ProtocolPaused)
      else if length attestations > MAX_MULTI_ATTEST then Inl (Panic BatchTooLarge)
      else
        bind_r (enter_reentrancy_guard s) (\<lambda>s.
        bind_r (multi_attest_loop cx attestations [] [] s) (\<lambda>(uids, authorized_attesters, s).
        let s = emit (BatchAttested (length uids) (length authorized_attesters)) s
        in Inr (uids, exit_reentrancy_guard s))))"

type_synonym signed_item = "attestation \<times> u64 \<times> bytes64 \<times> bytes32"

fun multi_delegation_loop ::
  "'w ctx \<Rightarrow> signed_item list \<Rightarrow> uid list \<Rightarrow> address list \<Rightarrow> 'w sas_state \<Rightarrow>
   (uid list \<times> address list \<times> 'w sas_state) sas_result" where
  "multi_delegation_loop cx [] uids attesters s = Inr (uids, attesters, s)"
| "multi_delegation_loop cx ((a, nonce, signature, public_key) # items) uids attesters s =
     bind_r (admit_delegated cx a nonce signature public_key s) (\<lambda>s.
     bind_r (attest_internal cx a s) (\<lambda>(u, s).
     multi_delegation_loop cx items (uids @ [u]) (List.insert (a_attester a) attesters) s))"

definition multi_attest_by_delegation ::
  "'w ctx \<Rightarrow> attestation list \<Rightarrow> u64 list \<Rightarrow> bytes64 list \<Rightarrow> bytes32 list \<Rightarrow> 'w sas_state \<Rightarrow>
   (uid list \<times> 'w sas_state) sas_result" where
  "multi_attest_by_delegation cx attestations nonces signatures public_keys s =
     (let len = length attestations in
      if is_paused_status s then Inl (Panic ProtocolPaused)
      else if len > MAX_MULTI_ATTEST then Inl (Panic BatchTooLarge)
      else if length nonces \<noteq> len \<or> length signatures \<noteq> len \<or> length public_keys \<noteq> len
      then Inl (Panic InvalidValue)
      else
        bind_r (enter_reentrancy_guard s) (\<lambda>s.
        bind_r (multi_delegation_loop cx
                 (zip attestations (zip nonces (zip signatures public_keys))) [] [] s)
          (\<lambda>(uids, attesters, s).
        let s = emit (BatchAttested (length uids) (length attesters)) s
        in Inr (uids, exit_reentrancy_guard s))))"

definition broadcast_item ::
  "host \<Rightarrow> address \<Rightarrow> uid \<Rightarrow> bytes \<Rightarrow> u64 \<Rightarrow> bool \<Rightarrow> address \<Rightarrow> attestation" where
  "broadcast_item h attester suid data expiration_time revocable recipient =
     \<lparr>a_uid = attestation_uid h suid recipient attester data, a_schema_uid = suid,
      a_time = 0, a_expiration_time = expiration_time, a_revocation_time = 0, a_ref_uid = 0,
      a_recipient = recipient, a_attester = attester, a_revocable = revocable, a_data = data,
      a_valid_from = 0\<rparr>"

fun broadcast_loop ::
  "'w ctx \<Rightarrow> (address \<Rightarrow> attestation) \<Rightarrow> address list \<Rightarrow> address list \<Rightarrow> uid list \<Rightarrow> 'w sas_state \<Rightarrow>
   (uid list \<times> 'w sas_state) sas_result" where
  "broadcast_loop cx mk [] seen uids s = Inr (uids, s)"
| "broadcast_loop cx mk (recipient # recipients) seen uids s =
     (if recipient \<in> set seen then Inl (Panic DuplicateAttestation)
      else
        bind_r (attest_internal cx (mk recipient) s) (\<lambda>(u, s).
        broadcast_loop cx mk recipients (List.insert recipient seen) (uids @ [u]) s))"

definition broadcast_attest_by_attester ::
  "'w ctx \<Rightarrow> address \<Rightarrow> uid \<Rightarrow> address list \<Rightarrow> bytes \<Rightarrow> u64 \<Rightarrow> bool \<Rightarrow> 'w sas_state \<Rightarrow>
   (uid list \<times> 'w sas_state) sas_result" where
  "broadcast_attest_by_attester cx attester suid recipients data expiration_time revocable s =
     (if is_paused_status s then Inl (Panic ContractPaused)
      else if length recipients > MAX_MULTI_ATTEST then Inl (Panic BatchTooLarge)
      else if length recipients = 0 then Inl (Panic InvalidValue)
      else
        bind_r (require_auth (led cx) attester) (\<lambda>_.
        bind_r (enter_reentrancy_guard s) (\<lambda>s.
        bind_r (broadcast_loop cx
                 (broadcast_item (hst cx) attester suid data expiration_time revocable)
                 recipients [] [] s) (\<lambda>(uids, s).
        let s = emit (BatchAttested (length uids) 1) s
        in Inr (uids, exit_reentrancy_guard s)))))"

definition broadcast_attest ::
  "'w ctx \<Rightarrow> uid \<Rightarrow> address list \<Rightarrow> bytes \<Rightarrow> u64 \<Rightarrow> bool \<Rightarrow> 'w sas_state \<Rightarrow>
   (uid list \<times> 'w sas_state) sas_result" where
  "broadcast_attest cx suid recipients data expiration_time revocable s =
     bind_r (require_registry s) (\<lambda>registry.
     let creator = (case x_get_creator (ext cx) (led cx) registry suid (st_world s) of
                      Some c \<Rightarrow> c | None \<Rightarrow> None) in
     bind_r (or_panic SchemaNotFound creator) (\<lambda>attester.
     broadcast_attest_by_attester cx attester suid recipients data expiration_time revocable s))"

section \<open>Batched revocation\<close>

text \<open>The validation pass shared by the revocation batches, on one UID: not seen before, present,
  revocable and not yet revoked; \<open>extra\<close> is what the entry point checks besides.\<close>

definition check_revocable_record ::
  "'w sas_state \<Rightarrow> uid list \<Rightarrow> (attestation \<Rightarrow> unit sas_result) \<Rightarrow> uid \<Rightarrow> attestation sas_result" where
  "check_revocable_record s seen extra u =
     (if u \<in> set seen then Inl (Panic DuplicateAttestation)
      else
        bind_r (or_panic AttestationNotFound (read_attestation (st_store s) u)) (\<lambda>a.
        bind_r (extra a) (\<lambda>_.
        if \<not> a_revocable a then Inl (Panic NotRevocable)
        else if a_revocation_time a \<noteq> 0 then Inl (Panic AlreadyRevoked)
        else Inr a)))"

fun multi_revoke_scan ::
  "'w sas_state \<Rightarrow> uid list \<Rightarrow> uid list \<Rightarrow> address list \<Rightarrow> address list sas_result" where
  "multi_revoke_scan s [] seen distinct_attesters = Inr distinct_attesters"
| "multi_revoke_scan s (u # uids) seen distinct_attesters =
     bind_r (check_revocable_record s seen (\<lambda>_. Inr ()) u) (\<lambda>a.
     multi_revoke_scan s uids (u # seen) (List.insert (a_attester a) distinct_attesters))"

definition require_auths :: "ledger_env \<Rightarrow> address list \<Rightarrow> unit sas_result" where
  "require_auths env attesters = fold_r (\<lambda>a _. require_auth env a) attesters ()"

definition revoke_all :: "'w ctx \<Rightarrow> uid list \<Rightarrow> 'w sas_state \<Rightarrow> 'w sas_state sas_result" where
  "revoke_all cx uids s = fold_r (revoke_internal cx) uids s"

definition multi_revoke :: "'w ctx \<Rightarrow> uid list \<Rightarrow> 'w sas_state \<Rightarrow> 'w sas_state sas_result" where
  "multi_revoke cx uids s =
     bind_r (reject_reentrant s) (\<lambda>_.
     if is_paused_status s then Inl (Panic ProtocolPaused)
     else if length uids > MAX_MULTI_REVOKE then Inl (Panic BatchTooLarge)
     else
       bind_r (multi_revoke_scan s uids [] []) (\<lambda>distinct_attesters.
       bind_r (require_auths (led cx) distinct_attesters) (\<lambda>_.
       bind_r (revoke_all cx uids s) (\<lambda>s.
       Inr (emit (BatchRevoked (length uids) (length distinct_attesters)) s)))))"

type_synonym signed_uid = "uid \<times> u64 \<times> bytes64 \<times> bytes32"

fun delegated_revoke_scan ::
  "'w ctx \<Rightarrow> 'w sas_state \<Rightarrow> signed_uid list \<Rightarrow> uid list \<Rightarrow> address list \<Rightarrow> address list sas_result" where
  "delegated_revoke_scan cx s [] seen distinct_attesters = Inr distinct_attesters"
| "delegated_revoke_scan cx s ((u, nonce, signature, public_key) # items) seen distinct_attesters =
     bind_r (check_revocable_record s seen (\<lambda>_. Inr ()) u) (\<lambda>a.
     bind_r (check_delegated_revocation cx u a nonce signature public_key s) (\<lambda>_.
     delegated_revoke_scan cx s items (u # seen) (List.insert (a_attester a) distinct_attesters)))"

definition consume_and_revoke ::
  "'w ctx \<Rightarrow> uid \<times> u64 \<Rightarrow> 'w sas_state \<Rightarrow> 'w sas_state sas_result" where
  "consume_and_revoke cx item s =
     bind_r (or_trap (read_attestation (st_store s) (fst item))) (\<lambda>a.
     bind_r (consume_delegation_nonce (a_attester a) (snd item) s) (\<lambda>s.
     revoke_internal cx (fst item) s))"

definition multi_revoke_by_delegation ::
  "'w ctx \<Rightarrow> uid list \<Rightarrow> u64 list \<Rightarrow> bytes64 list \<Rightarrow> bytes32 list \<Rightarrow> 'w sas_state \<Rightarrow>
   'w sas_state sas_result" where
  "multi_revoke_by_delegation cx uids nonces signatures public_keys s =
     bind_r (reject_reentrant s) (\<lambda>_.
     let len = length uids in
     if is_paused_status s then Inl (Panic ProtocolPaused)
     else if len > MAX_MULTI_REVOKE then Inl (Panic BatchTooLarge)
     else if length nonces \<noteq> len \<or> length signatures \<noteq> len \<or> length public_keys \<noteq> len
     then Inl (Panic InvalidValue)
     else
       bind_r (delegated_revoke_scan cx s
                (zip uids (zip nonces (zip signatures public_keys))) [] []) (\<lambda>distinct_attesters.
       bind_r (fold_r (consume_and_revoke cx) (zip uids nonces) s) (\<lambda>s.
       Inr (emit (BatchRevoked len (length distinct_attesters)) s))))"

fun schema_revoke_scan :: "'w sas_state \<Rightarrow> uid \<Rightarrow> uid list \<Rightarrow> uid list \<Rightarrow> unit sas_result" where
  "schema_revoke_scan s suid [] seen = Inr ()"
| "schema_revoke_scan s suid (u # uids) seen =
     bind_r (check_revocable_record s seen
              (\<lambda>a. if a_schema_uid a \<noteq> suid then Inl (Panic InvalidSchema) else Inr ()) u)
       (\<lambda>_. schema_revoke_scan s suid uids (u # seen))"

definition revoke_by_schema ::
  "'w ctx \<Rightarrow> uid \<Rightarrow> uid list \<Rightarrow> address \<Rightarrow> 'w sas_state \<Rightarrow> 'w sas_state sas_result" where
  "revoke_by_schema cx suid uids authorizer s =
     (if is_paused_status s then Inl (Panic ContractPaused)
      else if length uids > MAX_REVOKE_BY_SCHEMA then Inl (Panic BatchTooLarge)
      else
        bind_r (require_auth (led cx) authorizer) (\<lambda>_.
        bind_r (require_registry s) (\<lambda>registry.
        if x_is_authorized (ext cx) (led cx) registry suid authorizer (st_world s) \<noteq> Some True
        then Inl (Panic Unauthorized)
        else
          bind_r (schema_revoke_scan s suid uids []) (\<lambda>_.
          bind_r (revoke_all cx uids s) (\<lambda>s.
          Inr (emit (BatchRevoked (length uids) 1) s))))))"

section \<open>Pruning and re-indexing\<close>

fun prune_loop ::
  "ledger_env \<Rightarrow> uid list \<Rightarrow> nat \<Rightarrow> 'w sas_state \<Rightarrow> (nat \<times> 'w sas_state) sas_result" where
  "prune_loop env [] pruned s = Inr (pruned, s)"
| "prune_loop env (u # uids) pruned s =
     (case read_attestation (st_store s) u of
        None \<Rightarrow> prune_loop env uids pruned s
      | Some a \<Rightarrow>
          if a_expiration_time a = 0 \<or> is_ok (validate_expiration env (a_expiration_time a))
          then prune_loop env uids pruned s
          else
            let s = emit (Pruned u) (s\<lparr>st_store := remove_attestation u (st_store s)\<rparr>) in
            bind_r (add_u32 pruned 1) (\<lambda>pruned. prune_loop env uids pruned s))"

definition prune_expired ::
  "ledger_env \<Rightarrow> uid list \<Rightarrow> 'w sas_state \<Rightarrow> (nat \<times> 'w sas_state) sas_result" where
  "prune_expired env uids s =
     (if \<not> auto_prune (st_config s) then Inl (Panic AutoPruneDisabled)
      else if length uids > MAX_PRUNE_BATCH then Inl (Panic BatchTooLarge)
      else prune_loop env uids 0 s)"

fun reindex_loop ::
  "'w ctx \<Rightarrow> address \<Rightarrow> uid list \<Rightarrow> uid list \<Rightarrow> 'w sas_state \<Rightarrow> uid list \<times> 'w sas_state" where
  "reindex_loop cx ix [] failed s = (failed, s)"
| "reindex_loop cx ix (u # uids) failed s =
     (case read_attestation (st_store s) u of
        Some a \<Rightarrow>
          (let (pushed, s) = push_to_indexer cx ix a s in
           if \<not> pushed then reindex_loop cx ix uids (failed @ [u]) s
           else reindex_loop cx ix uids failed (emit (Reindexed u) s))
      | None \<Rightarrow> reindex_loop cx ix uids (failed @ [u]) s)"

definition bulk_reindex ::
  "'w ctx \<Rightarrow> uid list \<Rightarrow> 'w sas_state \<Rightarrow> (uid list \<times> 'w sas_state) sas_result" where
  "bulk_reindex cx uids s =
     (if is_paused_status s then Inl (Panic ProtocolPaused)
      else
        bind_r (reject_reentrant s) (\<lambda>_.
        if length uids > MAX_REINDEX then Inl (Panic BatchTooLarge)
        else
          bind_r (or_panic NotInitialized (indexer (st_config s))) (\<lambda>ix.
          Inr (reindex_loop cx ix uids [] s))))"

section \<open>What a batch of issuances does\<close>

text \<open>The reader's view after issuing a list of attestations in order.\<close>

definition issued_view :: "ledger_env \<Rightarrow> attestation list \<Rightarrow> view \<Rightarrow> view" where
  "issued_view env as v = fold (\<lambda>a v. v(a_uid a \<mapsto> a\<lparr>a_time := timestamp env\<rparr>)) as v"

definition issued_all :: "'w ctx \<Rightarrow> attestation list \<Rightarrow> 'w sas_state \<Rightarrow> 'w sas_state \<Rightarrow> bool" where
  "issued_all cx as s s' \<longleftrightarrow>
     store_steps cx (st_store s) (st_store s') \<and>
     read_attestation (st_store s') = issued_view (led cx) as (read_attestation (st_store s)) \<and>
     distinct (map a_uid as) \<and> (\<forall>a\<in>set as. read_attestation (st_store s) (a_uid a) = None) \<and>
     (\<forall>a\<in>set as. content_addressed (hst cx) a) \<and>
     st_config s' = st_config s \<and> st_fees s' = st_fees s \<and> st_guard s' = st_guard s"

lemma issued_all_Nil: "issued_all cx [] s s"
  by (simp add: issued_all_def issued_view_def)

lemma issued_all_Cons:
  assumes "attest_internal cx a s1 = Inr (u, s2)" and "issued_all cx as s2 s'"
    and "st_store s1 = st_store s" "st_config s1 = st_config s" "st_fees s1 = st_fees s"
    "st_guard s1 = st_guard s"
  shows "issued_all cx (a # as) s s'"
proof -
  from attest_internal_effect [OF assms(1)]
  have v: "validate_new_attestation cx a (st_store s) = Inr ()"
    by (auto simp: issuance_ok_def assms(3))
  from attest_internal_refines [OF assms(1)]
  have st: "store_step cx (st_store s) (st_store s2)" "same_frame s1 s2"
    "st_store s2 = issue_in_store (led cx) a (st_store s)"
    by (auto simp: assms(3))
  have rd: "read_attestation (st_store s2)
      = (read_attestation (st_store s))(a_uid a \<mapsto> a\<lparr>a_time := timestamp (led cx)\<rparr>)"
    by (simp add: st(3) read_as_map(1))
  from assms(2) have fresh: "read_attestation (st_store s2) (a_uid b) = None" if "b \<in> set as" for b
    using that by (auto simp: issued_all_def)
  have "a_uid b \<noteq> a_uid a" "read_attestation (st_store s) (a_uid b) = None" if "b \<in> set as" for b
    using fresh [OF that] by (auto simp: rd split: if_splits)
  then have "a_uid a \<notin> a_uid ` set as" "\<forall>b\<in>set as. read_attestation (st_store s) (a_uid b) = None"
    by force+
  moreover from v have "read_attestation (st_store s) (a_uid a) = None" "content_addressed (hst cx) a"
    by (auto simp: result_iff store.has_read content_addressed_def)
  ultimately show ?thesis
    using assms(2,4-6) st(1,2)
    by (auto simp: issued_all_def issued_view_def rd same_frame_def
        intro: converse_rtranclp_into_rtranclp)
qed

lemma multi_attest_loop_effect:
  assumes "multi_attest_loop cx as uids auth s = Inr (uids', auth', s')"
  shows "uids' = uids @ map a_uid as \<and> issued_all cx as s s' \<and> st_keys s' = st_keys s \<and>
    (\<forall>a\<in>set as. a_attester a \<in> set auth \<or> authorized (led cx) (a_attester a))"
  using assms
proof (induction as arbitrary: uids auth s)
  case Nil
  then show ?case by (simp add: issued_all_Nil)
next
  case (Cons a as)
  from Cons.prems obtain u s1 where
    auth1: "a_attester a \<in> set auth \<or> authorized (led cx) (a_attester a)"
    and int: "attest_internal cx a s = Inr (u, s1)"
    and rest: "multi_attest_loop cx as (uids @ [u]) (List.insert (a_attester a) auth) s1
      = Inr (uids', auth', s')"
    by (auto simp: result_iff in_set_insert split: if_splits)
  from attest_internal_refines [OF int] have "u = a_uid a" "st_keys s1 = st_keys s"
    by (auto simp: same_frame_def)
  with Cons.IH [OF rest] issued_all_Cons [OF int, of as s' s] auth1 show ?case
    by auto
qed

lemma multi_delegation_loop_effect:
  assumes "multi_delegation_loop cx items uids who s = Inr (uids', who', s')"
  shows "uids' = uids @ map (a_uid \<circ> fst) items \<and> issued_all cx (map fst items) s s' \<and>
    (\<forall>(a, n, sg, pk)\<in>set items. ed25519_valid (hst cx) pk
       (bytes32_to_array (hash_offchain_attestation (hst cx) a (domain_of (led cx) n))) sg)"
  using assms
proof (induction items arbitrary: uids who s)
  case Nil
  then show ?case by (simp add: issued_all_Nil)
next
  case (Cons item items)
  obtain a n sg pk where item: "item = (a, n, sg, pk)" by (cases item)
  from Cons.prems obtain s1 u s2 where
    adm: "admit_delegated cx a n sg pk s = Inr s1"
    and int: "attest_internal cx a s1 = Inr (u, s2)"
    and rest: "multi_delegation_loop cx items (uids @ [u]) (List.insert (a_attester a) who) s2
      = Inr (uids', who', s')"
    by (auto simp: item result_iff)
  from admit_delegated_effect [OF adm] have s1: "s1 = set_delegation_nonce (a_attester a) n s"
    by (simp add: result_iff)
  from attest_internal_refines [OF int] have "u = a_uid a" by blast
  with Cons.IH [OF rest] issued_all_Cons [OF int, of "map fst items" s' s] admit_delegated_effect [OF adm]
  show ?case
    by (auto simp: item s1)
qed

text \<open>The batch as a run of single delegated issuances, each consuming its nonce.\<close>

definition delegated_item ::
  "'w ctx \<Rightarrow> signed_item \<Rightarrow> 'w sas_state \<Rightarrow> 'w sas_state sas_result" where
  "delegated_item cx item s =
     (case item of (a, n, sg, pk) \<Rightarrow>
        bind_r (admit_delegated cx a n sg pk s) (\<lambda>s.
        bind_r (attest_internal cx a s) (\<lambda>(u, s). Inr s)))"

lemma multi_delegation_loop_run:
  "multi_delegation_loop cx items uids who s = Inr (uids', who', s') \<Longrightarrow>
   fold_r (delegated_item cx) items s = Inr s'"
proof (induction items arbitrary: uids who s)
  case (Cons item items)
  obtain a n sg pk where item: "item = (a, n, sg, pk)" by (cases item)
  with Cons.prems obtain s1 u s2 where "admit_delegated cx a n sg pk s = Inr s1"
    "attest_internal cx a s1 = Inr (u, s2)"
    and rest: "multi_delegation_loop cx items (uids @ [u]) (List.insert (a_attester a) who) s2
      = Inr (uids', who', s')"
    by (auto simp: result_iff)
  with Cons.IH [OF rest] show ?case
    by (simp add: delegated_item_def item result_iff)
qed simp

lemma delegated_item_consumes:
  assumes "delegated_item cx item s = Inr s'"
  shows "\<exists>s1. consume_delegation_nonce (a_attester (fst item)) (fst (snd item)) s = Inr s1 \<and>
    delegation_nonces (st_keys s') = delegation_nonces (st_keys s1)"
proof -
  obtain a n sg pk where item: "item = (a, n, sg, pk)" by (cases item)
  from assms obtain s1 u where "admit_delegated cx a n sg pk s = Inr s1"
    "attest_internal cx a s1 = Inr (u, s')"
    by (auto simp: delegated_item_def item result_iff)
  with admit_delegated_effect attest_internal_refines show ?thesis
    unfolding item same_frame_def by fastforce
qed

lemma broadcast_loop_effect:
  assumes "broadcast_loop cx mk rs seen uids s = Inr (uids', s')"
  shows "uids' = uids @ map (a_uid \<circ> mk) rs \<and> issued_all cx (map mk rs) s s' \<and>
    st_keys s' = st_keys s \<and> distinct rs \<and> set rs \<inter> set seen = {}"
  using assms
proof (induction rs arbitrary: seen uids s)
  case Nil
  then show ?case by (simp add: issued_all_Nil)
next
  case (Cons r rs)
  then obtain u s1 where new: "r \<notin> set seen" and int: "attest_internal cx (mk r) s = Inr (u, s1)"
    and rest: "broadcast_loop cx mk rs (List.insert r seen) (uids @ [u]) s1 = Inr (uids', s')"
    by (auto simp: result_iff split: if_splits)
  from attest_internal_refines [OF int] have "u = a_uid (mk r)" "st_keys s1 = st_keys s"
    by (auto simp: same_frame_def)
  with Cons.IH [OF rest] issued_all_Cons [OF int, of "map mk rs" s' s] new show ?case
    by auto
qed

section \<open>Refinement of the issuing batches\<close>

lemma exit_enter_guard:
  assumes "enter_reentrancy_guard s = Inr s1" and "st_guard s2 = st_guard s1"
  shows "st_guard (exit_reentrancy_guard s2) = st_guard s"
  using assms by (cases "st_guard s") (auto simp: result_iff exit_reentrancy_guard_def)

lemma exit_guard_simps [simp]:
  "st_config (exit_reentrancy_guard s) = st_config s" "st_fees (exit_reentrancy_guard s) = st_fees s"
  "st_keys (exit_reentrancy_guard s) = st_keys s" "st_rate (exit_reentrancy_guard s) = st_rate s"
  "st_store (exit_reentrancy_guard s) = st_store s" "st_events (exit_reentrancy_guard s) = st_events s"
  by (simp_all add: exit_reentrancy_guard_def)

text \<open>A batch runs inside the guard: entering, the loop, and leaving again.\<close>

lemma issued_all_guarded:
  assumes "enter_reentrancy_guard s = Inr s1" and "issued_all cx as s1 s2"
  shows "issued_all cx as s (exit_reentrancy_guard (emit ev s2))"
proof -
  have "st_guard (exit_reentrancy_guard (emit ev s2)) = st_guard s"
    using assms by (intro exit_enter_guard [OF assms(1)]) (simp add: issued_all_def)
  with assms show ?thesis
    by (auto simp: issued_all_def result_iff)
qed

lemma multi_attest_effect:
  assumes "multi_attest cx as s = Inr (uids, s')"
  shows "\<not> is_paused_status s \<and> length as \<le> MAX_MULTI_ATTEST \<and> uids = map a_uid as \<and>
    issued_all cx as s s' \<and> st_keys s' = st_keys s \<and>
    (\<forall>a\<in>set as. authorized (led cx) (a_attester a))"
proof -
  from assms obtain s1 auth s2 where pre: "\<not> is_paused_status s" "length as \<le> MAX_MULTI_ATTEST"
    and s1: "enter_reentrancy_guard s = Inr s1"
    and loop: "multi_attest_loop cx as [] [] s1 = Inr (uids, auth, s2)"
    and s': "s' = exit_reentrancy_guard (emit (BatchAttested (length uids) (length auth)) s2)"
    by (auto simp: multi_attest_def Let_def result_iff not_less split: if_splits)
  from multi_attest_loop_effect [OF loop] issued_all_guarded [OF s1, of cx as s2] pre s1 show ?thesis
    by (auto simp: s' result_iff)
qed

lemma multi_attest_by_delegation_effect:
  assumes "multi_attest_by_delegation cx as ns sgs pks s = Inr (uids, s')"
  shows "\<not> is_paused_status s \<and> length as \<le> MAX_MULTI_ATTEST \<and> length ns = length as \<and>
    length sgs = length as \<and> length pks = length as \<and>
    (\<exists>s1 who s2 ev. enter_reentrancy_guard s = Inr s1 \<and>
      multi_delegation_loop cx (zip as (zip ns (zip sgs pks))) [] [] s1 = Inr (uids, who, s2) \<and>
      s' = exit_reentrancy_guard (emit ev s2))"
  using assms
  by (auto simp: multi_attest_by_delegation_def Let_def result_iff not_less split: if_splits)

lemma broadcast_effect:
  assumes "broadcast_attest_by_attester cx attester suid rs payload e revocable s = Inr (uids, s')"
  shows "\<not> is_paused_status s \<and> authorized (led cx) attester \<and> rs \<noteq> [] \<and> length rs \<le> MAX_MULTI_ATTEST \<and>
    distinct rs \<and>
    uids = map (a_uid \<circ> broadcast_item (hst cx) attester suid payload e revocable) rs \<and>
    issued_all cx (map (broadcast_item (hst cx) attester suid payload e revocable) rs) s s' \<and>
    st_keys s' = st_keys s"
proof -
  let ?mk = "broadcast_item (hst cx) attester suid payload e revocable"
  from assms obtain s1 s2 where pre: "\<not> is_paused_status s" "length rs \<le> MAX_MULTI_ATTEST" "rs \<noteq> []"
    "authorized (led cx) attester"
    and s1: "enter_reentrancy_guard s = Inr s1"
    and loop: "broadcast_loop cx ?mk rs [] [] s1 = Inr (uids, s2)"
    and s': "s' = exit_reentrancy_guard (emit (BatchAttested (length uids) 1) s2)"
    by (auto simp: broadcast_attest_by_attester_def Let_def result_iff not_less split: if_splits)
  from broadcast_loop_effect [OF loop] issued_all_guarded [OF s1, of cx "map ?mk rs" s2] pre s1
  show ?thesis
    by (auto simp: s' result_iff)
qed


section \<open>What a batch of revocations does\<close>

text \<open>The reader's view after revoking a set of UIDs.\<close>

definition revoked_view :: "ledger_env \<Rightarrow> uid set \<Rightarrow> view \<Rightarrow> view" where
  "revoked_view env U v = (\<lambda>u. if u \<in> U
     then map_option (\<lambda>a. a\<lparr>a_revocation_time := timestamp env\<rparr>) (v u) else v u)"

definition revoked_all :: "'w ctx \<Rightarrow> uid list \<Rightarrow> 'w sas_state \<Rightarrow> 'w sas_state \<Rightarrow> bool" where
  "revoked_all cx uids s s' \<longleftrightarrow>
     store_steps cx (st_store s) (st_store s') \<and> st_config s' = st_config s \<and> st_fees s' = st_fees s \<and>
     st_guard s' = st_guard s \<and> st_rate s' = st_rate s \<and>
     (store_wf (st_store s) \<longrightarrow> read_attestation (st_store s')
        = revoked_view (led cx) (set uids) (read_attestation (st_store s)))"

lemma revoked_all_Nil: "revoked_all cx [] s s"
  by (simp add: revoked_all_def revoked_view_def)

lemma revoked_all_Cons:
  assumes "revoke_internal cx u s1 = Inr s2" and "revoked_all cx uids s2 s'" and "u \<notin> set uids"
    and "st_store s1 = st_store s" "st_config s1 = st_config s" "st_fees s1 = st_fees s"
    "st_guard s1 = st_guard s" "st_rate s1 = st_rate s"
  shows "revoked_all cx (u # uids) s s'"
proof -
  from revoke_internal_refines [OF assms(1)] obtain a where
    st: "store_step cx (st_store s) (st_store s2)" "same_frame s1 s2" "st_rate s2 = st_rate s1"
    "read_attestation (st_store s) u = Some a"
    "st_store s2 = revoke_in_store (led cx) u a (st_store s)"
    by (auto simp: assms(4))
  have "read_attestation (st_store s2)
      = (read_attestation (st_store s))(u \<mapsto> a\<lparr>a_revocation_time := timestamp (led cx)\<rparr>)"
    if "store_wf (st_store s)"
    using that st(4,5) by (simp add: read_as_map(2))
  then show ?thesis
    using assms(2,3,5-8) st(1-4) store_step_wf [OF st(1)]
    by (auto simp: revoked_all_def revoked_view_def same_frame_def fun_eq_iff
        intro: converse_rtranclp_into_rtranclp)
qed

lemma revoke_all_effect:
  "revoke_all cx uids s = Inr s' \<Longrightarrow> distinct uids \<Longrightarrow>
   revoked_all cx uids s s' \<and> st_keys s' = st_keys s"
  unfolding revoke_all_def
proof (induction uids arbitrary: s)
  case Nil
  then show ?case by (simp add: revoked_all_Nil)
next
  case (Cons u uids)
  then obtain s1 where int: "revoke_internal cx u s = Inr s1"
    and rest: "fold_r (revoke_internal cx) uids s1 = Inr s'"
    by (auto simp: result_iff)
  from Cons.IH [OF rest] Cons.prems(2) revoke_internal_refines [OF int] show ?case
    by (auto simp: same_frame_def intro: revoked_all_Cons [OF int])
qed

lemma check_revocable_record_Inr_iff [result_iff]:
  "check_revocable_record s seen extra u = Inr a \<longleftrightarrow>
   u \<notin> set seen \<and> read_attestation (st_store s) u = Some a \<and> extra a = Inr () \<and> a_revocable a \<and>
   a_revocation_time a = 0"
  by (auto simp: check_revocable_record_def result_iff)

lemma multi_revoke_scan_effect:
  "multi_revoke_scan s uids seen who = Inr who' \<Longrightarrow>
   distinct uids \<and> set uids \<inter> set seen = {} \<and> set who \<subseteq> set who' \<and>
   (\<forall>u\<in>set uids. \<exists>a. read_attestation (st_store s) u = Some a \<and> a_revocable a \<and>
      a_revocation_time a = 0 \<and> a_attester a \<in> set who')"
proof (induction uids arbitrary: seen who)
  case (Cons u uids)
  then obtain a where a: "check_revocable_record s seen (\<lambda>_. Inr ()) u = Inr a"
    and rest: "multi_revoke_scan s uids (u # seen) (List.insert (a_attester a) who) = Inr who'"
    by (auto simp: result_iff)
  from a Cons.IH [OF rest] show ?case
    by (auto simp: result_iff)
qed simp

lemma schema_revoke_scan_effect:
  "schema_revoke_scan s suid uids seen = Inr z \<Longrightarrow>
   distinct uids \<and> set uids \<inter> set seen = {} \<and>
   (\<forall>u\<in>set uids. \<exists>a. read_attestation (st_store s) u = Some a \<and> a_revocable a \<and>
      a_revocation_time a = 0 \<and> a_schema_uid a = suid)"
proof (induction uids arbitrary: seen)
  case (Cons u uids)
  then obtain a where a: "u \<notin> set seen" "read_attestation (st_store s) u = Some a" "a_revocable a"
      "a_revocation_time a = 0" "a_schema_uid a = suid"
    and rest: "schema_revoke_scan s suid uids (u # seen) = Inr z"
    by (auto simp: result_iff split: if_splits)
  from a Cons.IH [OF rest] show ?case by auto
qed simp

lemma require_auths_Inr_iff [result_iff]:
  "require_auths env whos = Inr z \<longleftrightarrow> (\<forall>w\<in>set whos. authorized env w)"
  unfolding require_auths_def by (induction whos) (auto simp: result_iff)

lemma multi_revoke_effect:
  assumes "multi_revoke cx uids s = Inr s'"
  shows "\<not> is_paused_status s \<and> distinct uids \<and>
    (\<forall>u\<in>set uids. \<exists>a. read_attestation (st_store s) u = Some a \<and> a_revocable a \<and>
       a_revocation_time a = 0 \<and> authorized (led cx) (a_attester a)) \<and>
    revoked_all cx uids s s' \<and> st_keys s' = st_keys s"
proof -
  from assms obtain who s1 where pre: "\<not> is_paused_status s"
    and scan: "multi_revoke_scan s uids [] [] = Inr who"
    and auth: "\<forall>w\<in>set who. authorized (led cx) w"
    and rev: "revoke_all cx uids s = Inr s1"
    and s': "s' = emit (BatchRevoked (length uids) (length who)) s1"
    by (auto simp: multi_revoke_def result_iff split: if_splits)
  note sc = multi_revoke_scan_effect [OF scan]
  then have "revoked_all cx uids s s1 \<and> st_keys s1 = st_keys s"
    using revoke_all_effect [OF rev] by blast
  with pre sc auth show ?thesis
    by (fastforce simp: s' revoked_all_def)
qed

lemma revoke_by_schema_effect:
  assumes "revoke_by_schema cx suid uids who s = Inr s'"
  shows "\<not> is_paused_status s \<and> authorized (led cx) who \<and>
    (\<exists>registry. schema_registry (st_config s) = Some registry \<and>
       x_is_authorized (ext cx) (led cx) registry suid who (st_world s) = Some True) \<and>
    distinct uids \<and>
    (\<forall>u\<in>set uids. \<exists>a. read_attestation (st_store s) u = Some a \<and> a_revocable a \<and>
       a_revocation_time a = 0 \<and> a_schema_uid a = suid) \<and>
    revoked_all cx uids s s' \<and> st_keys s' = st_keys s"
proof -
  from assms obtain s1 where pre: "\<not> is_paused_status s" "authorized (led cx) who"
    "\<exists>registry. schema_registry (st_config s) = Some registry \<and>
       x_is_authorized (ext cx) (led cx) registry suid who (st_world s) = Some True"
    and scan: "schema_revoke_scan s suid uids [] = Inr ()"
    and rev: "revoke_all cx uids s = Inr s1"
    and s': "s' = emit (BatchRevoked (length uids) 1) s1"
    by (auto simp: revoke_by_schema_def result_iff split: if_splits)
  note sc = schema_revoke_scan_effect [OF scan]
  then have "revoked_all cx uids s s1 \<and> st_keys s1 = st_keys s"
    using revoke_all_effect [OF rev] by blast
  with pre sc show ?thesis
    by (auto simp: s' revoked_all_def)
qed

lemma delegated_revoke_scan_effect:
  "delegated_revoke_scan cx s items seen who = Inr who' \<Longrightarrow>
   distinct (map fst items) \<and> fst ` set items \<inter> set seen = {} \<and>
   (\<forall>(u, n, sg, pk)\<in>set items. \<exists>a. read_attestation (st_store s) u = Some a \<and>
      key_bound cx (a_schema_uid a) (a_attester a) pk s \<and>
      ed25519_valid (hst cx) pk (bytes32_to_array
        (hash_delegated_revocation (hst cx) u (a_attester a) (domain_of (led cx) n))) sg)"
proof (induction items arbitrary: seen who)
  case (Cons item items)
  obtain u n sg pk where item: "item = (u, n, sg, pk)" by (cases item)
  with Cons.prems obtain a where a: "u \<notin> set seen" "read_attestation (st_store s) u = Some a"
      "check_delegated_revocation cx u a n sg pk s = Inr ()"
    and rest: "delegated_revoke_scan cx s items (u # seen) (List.insert (a_attester a) who) = Inr who'"
    by (auto simp: result_iff)
  from a(3) have "key_bound cx (a_schema_uid a) (a_attester a) pk s"
    "ed25519_valid (hst cx) pk (bytes32_to_array
        (hash_delegated_revocation (hst cx) u (a_attester a) (domain_of (led cx) n))) sg"
    by (auto simp: check_delegated_revocation_def Let_def result_iff verify_delegated_signature_key
        require_delegation_key_bound)
  with a(1,2) Cons.IH [OF rest] show ?case
    by (auto simp: item)
qed simp

lemma consume_and_revoke_all:
  "fold_r (consume_and_revoke cx) items s = Inr s' \<Longrightarrow> distinct (map fst items) \<Longrightarrow>
   revoked_all cx (map fst items) s s'"
proof (induction items arbitrary: s)
  case Nil
  then show ?case by (simp add: revoked_all_Nil)
next
  case (Cons item items)
  from Cons.prems obtain s2 where one: "consume_and_revoke cx item s = Inr s2"
    and rest: "fold_r (consume_and_revoke cx) items s2 = Inr s'"
    by (auto simp: result_iff)
  from one obtain a :: attestation and s1 where con: "consume_delegation_nonce (a_attester a) (snd item) s = Inr s1"
    and int: "revoke_internal cx (fst item) s1 = Inr s2"
    by (auto simp: consume_and_revoke_def bind_r_Inr_iff)
  from Cons.IH [OF rest] Cons.prems(2) con show ?case
    by (auto simp: result_iff intro!: revoked_all_Cons [OF int])
qed

lemma multi_revoke_by_delegation_effect:
  assumes "multi_revoke_by_delegation cx uids ns sgs pks s = Inr s'"
  shows "\<not> is_paused_status s \<and> distinct uids \<and> revoked_all cx uids s s' \<and>
    (\<forall>(u, n, sg, pk)\<in>set (zip uids (zip ns (zip sgs pks))).
      \<exists>a. read_attestation (st_store s) u = Some a \<and>
      key_bound cx (a_schema_uid a) (a_attester a) pk s \<and>
      ed25519_valid (hst cx) pk (bytes32_to_array
        (hash_delegated_revocation (hst cx) u (a_attester a) (domain_of (led cx) n))) sg) \<and>
    length ns = length uids \<and> length sgs = length uids \<and> length pks = length uids"
proof -
  from assms obtain who s1 where pre: "\<not> is_paused_status s"
    "length ns = length uids" "length sgs = length uids" "length pks = length uids"
    and scan: "delegated_revoke_scan cx s (zip uids (zip ns (zip sgs pks))) [] [] = Inr who"
    and rev: "fold_r (consume_and_revoke cx) (zip uids ns) s = Inr s1"
    and s': "s' = emit (BatchRevoked (length uids) (length who)) s1"
    by (auto simp: multi_revoke_by_delegation_def Let_def result_iff split: if_splits)
  note sc = delegated_revoke_scan_effect [OF scan]
  with pre have "distinct uids" by simp
  moreover from this pre have "revoked_all cx uids s s1"
    using consume_and_revoke_all [OF rev] by simp
  ultimately show ?thesis
    using pre sc by (auto simp: s' revoked_all_def)
qed

section \<open>Pruning and re-indexing: effects\<close>

definition expired_in :: "ledger_env \<Rightarrow> view \<Rightarrow> uid \<Rightarrow> bool" where
  "expired_in env v u \<longleftrightarrow> (\<exists>a. v u = Some a \<and> \<not> live_at env a)"

lemma prune_loop_effect:
  assumes "prune_loop (led cx) uids n s = Inr (m, s')"
  shows "store_steps cx (st_store s) (st_store s') \<and> same_frame s s' \<and> st_rate s' = st_rate s \<and>
    read_attestation (st_store s') = (\<lambda>u. if u \<in> set uids \<and>
        expired_in (led cx) (read_attestation (st_store s)) u then None
      else read_attestation (st_store s) u) \<and>
    m = n + card {u \<in> set uids. expired_in (led cx) (read_attestation (st_store s)) u}"
  using assms
proof (induction uids arbitrary: n s)
  case Nil
  then show ?case by simp
next
  case (Cons u uids)
  let ?E = "expired_in (led cx) (read_attestation (st_store s))"
  show ?case
  proof (cases "?E u")
    case True
    then obtain a where a: "read_attestation (st_store s) u = Some a" "\<not> live_at (led cx) a"
      by (auto simp: expired_in_def)
    let ?s = "emit (Pruned u) (s\<lparr>st_store := remove_attestation u (st_store s)\<rparr>)"
    from Cons.prems a have rest: "prune_loop (led cx) uids (n + 1) ?s = Inr (m, s')"
      by (auto simp: live_at_def is_ok_def result_iff Let_def validate_expiration_def split: if_splits)
    have E: "expired_in (led cx) (read_attestation (st_store ?s)) v \<longleftrightarrow> ?E v \<and> v \<noteq> u" for v
      by (auto simp: expired_in_def read_as_map(4))
    have "{v \<in> set (u # uids). ?E v} = insert u {v \<in> set uids. ?E v \<and> v \<noteq> u}"
      using True by auto
    then have "card {v \<in> set (u # uids). ?E v} = Suc (card {v \<in> set uids. ?E v \<and> v \<noteq> u})"
      by simp
    moreover have "store_step cx (st_store s) (st_store ?s)"
      using step_prune [OF a] by simp
    ultimately show ?thesis
      using Cons.IH [OF rest] True unfolding E
      by (auto simp: fun_eq_iff read_as_map(4) same_frame_def intro: converse_rtranclp_into_rtranclp)
  next
    case False
    then have rest: "prune_loop (led cx) uids n s = Inr (m, s')"
      using Cons.prems
      by (auto simp: expired_in_def live_at_def is_ok_def validate_expiration_def
          split: option.splits if_splits)
    have "{v \<in> set (u # uids). ?E v} = {v \<in> set uids. ?E v}"
      using False by auto
    with Cons.IH [OF rest] False show ?thesis
      by (auto simp: fun_eq_iff)
  qed
qed

lemma reindex_loop_frame:
  "\<exists>w evs. snd (reindex_loop cx ix uids failed s) = s\<lparr>st_world := w, st_events := st_events s @ evs\<rparr>"
proof (induction uids arbitrary: failed s)
  case Nil
  have "s = s\<lparr>st_world := st_world s, st_events := st_events s @ []\<rparr>" by simp
  then show ?case by (metis reindex_loop.simps(1) snd_conv)
next
  case (Cons u uids)
  show ?case
  proof (cases "read_attestation (st_store s) u")
    case None
    with Cons show ?thesis by simp
  next
    case (Some a)
    obtain b s1 where p: "push_to_indexer cx ix a s = (b, s1)" by (cases "push_to_indexer cx ix a s")
    with push_to_indexer_world [of cx ix a s] obtain w where s1: "s1 = s\<lparr>st_world := w\<rparr>" by auto
    show ?thesis
    proof (cases b)
      case True
      with Cons [of failed "emit (Reindexed u) s1"] Some p s1 show ?thesis
        by (auto simp: emit_def)
    next
      case False
      with Cons [of "failed @ [u]" s1] Some p s1 show ?thesis
        by auto
    qed
  qed
qed


section \<open>Properties of the batches\<close>

text \<open>
  C17: A batch issues all of its attestations or none. When \<^verbatim>\<open>multi_attest\<close> succeeds, it stayed within
  the batch limit, every attester in it authorized the call, the returned UIDs are those of the
  attestations in order, they are pairwise different and were all free, the store reads as after
  issuing each of them in turn, and the guards, configuration, fees and keys are as before.
\<close>

theorem multi_attest_atomic:
  assumes "multi_attest cx as s = Inr (uids, s')"
  shows "\<not> is_paused_status s \<and> length as \<le> MAX_MULTI_ATTEST \<and> uids = map a_uid as \<and> distinct uids \<and>
    (\<forall>a\<in>set as. authorized (led cx) (a_attester a) \<and> content_addressed (hst cx) a \<and>
       get_attestation s (a_uid a) = None \<and>
       get_attestation s' (a_uid a) = Some (a\<lparr>a_time := timestamp (led cx)\<rparr>)) \<and>
    (\<forall>u. u \<notin> set uids \<longrightarrow> get_attestation s' u = get_attestation s u) \<and> same_frame s s'"
proof -
  note eff = multi_attest_effect [OF assms]
  have view: "issued_view env as v u =
      (case map_of (rev (map (\<lambda>a. (a_uid a, a\<lparr>a_time := timestamp env\<rparr>)) as)) u of
         Some a \<Rightarrow> Some a | None \<Rightarrow> v u)" for env v u
    unfolding issued_view_def by (induction as arbitrary: v) (auto simp: map_add_def split: option.splits)
  have "map_of (rev (map (\<lambda>a. (a_uid a, a\<lparr>a_time := timestamp (led cx)\<rparr>)) as)) (a_uid a)
      = Some (a\<lparr>a_time := timestamp (led cx)\<rparr>)" if "a \<in> set as" for a
    using that eff
    by (intro map_of_is_SomeI) (auto simp: issued_all_def comp_def rev_map [symmetric])
  moreover have "map_of (rev (map (\<lambda>a. (a_uid a, a\<lparr>a_time := timestamp (led cx)\<rparr>)) as)) u = None"
    if "u \<notin> a_uid ` set as" for u
    using that by (auto simp: map_of_eq_None_iff image_iff)
  ultimately show ?thesis
    using eff by (auto simp: issued_all_def view get_attestation_def same_frame_def)
qed

theorem multi_attest_atomic_witness:
  "\<exists>uids s'. multi_attest sample_cx [sample_new 3] sample_state = Inr (uids, s') \<and> uids = [123] \<and>
     get_attestation s' 123 = Some ((sample_new 3)\<lparr>a_time := 1000\<rparr>)"
proof -
  let ?s = "sample_state\<lparr>st_guard := \<lparr>reentrancy_guard = True, call_depth = 0\<rparr>\<rparr>"
  have "issuance_ok sample_cx (sample_new 3) ?s"
    using sample_issuance_ok by (simp add: issuance_ok_def)
  then have "\<exists>s1. attest_internal sample_cx (sample_new 3) ?s = Inr (a_uid (sample_new 3), s1)"
    by (rule attest_internal_succeeds) (simp_all add: sample_defs u32_max_def)
  moreover have "enter_reentrancy_guard sample_state = Inr ?s" "require_unpaid_allowed ?s a = Inr ()" for a
    by (simp_all add: enter_reentrancy_guard_def sample_defs require_unpaid_allowed_def)
  ultimately have "\<exists>uids s'. multi_attest sample_cx [sample_new 3] sample_state = Inr (uids, s')"
    by (auto simp: multi_attest_def MAX_MULTI_ATTEST_def)
  then obtain uids s' where r: "multi_attest sample_cx [sample_new 3] sample_state = Inr (uids, s')"
    by blast
  have "a_uid (sample_new 3) = 123" "timestamp (led sample_cx) = 1000"
    by (simp_all add: sample_new_def sample_cx_def sample_env_def)
  with multi_attest_atomic [OF r] r show ?thesis
    by auto
qed

text \<open>
  C18: In a batch of relayed issuances every item is signed and nonces never repeat. When
  \<^verbatim>\<open>multi_attest_by_delegation\<close> succeeds, the four vectors have the same length, each item's signature is
  valid for its own attestation and nonce, and for every attester the nonces it used, in the order of
  the batch, are strictly increasing and above its watermark before the call.
\<close>

theorem delegated_batch_nonces:
  assumes "multi_attest_by_delegation cx as ns sgs pks s = Inr (uids, s')"
  shows "uids = map a_uid as \<and> length ns = length as \<and> length sgs = length as \<and> length pks = length as \<and>
    (\<forall>i<length as. ed25519_valid (hst cx) (pks ! i)
       (bytes32_to_array (hash_delegation_digest cx (as ! i) (ns ! i))) (sgs ! i)) \<and>
    sorted_wrt (<) (map snd (filter (\<lambda>x. fst x = who) (zip (map a_attester as) ns))) \<and>
    (\<forall>m i. get_delegation_nonce s who = Some m \<longrightarrow> i < length as \<longrightarrow> a_attester (as ! i) = who \<longrightarrow>
       m < ns ! i)"
proof -
  let ?items = "zip as (zip ns (zip sgs pks))"
  from multi_attest_by_delegation_effect [OF assms] obtain s1 w s2 where
    len: "length ns = length as" "length sgs = length as" "length pks = length as"
    and s1: "enter_reentrancy_guard s = Inr s1"
    and loop: "multi_delegation_loop cx ?items [] [] s1 = Inr (uids, w, s2)"
    by blast
  note eff = multi_delegation_loop_effect [OF loop]
  have keys: "st_keys s1 = st_keys s" using s1 by (auto simp: result_iff)
  have nth: "?items ! i = (as ! i, ns ! i, sgs ! i, pks ! i)" "?items ! i \<in> set ?items"
    if "i < length as" for i
    using that len by (simp_all add: set_zip) (auto simp: set_zip)
  have run: "sorted_wrt (<) (map (\<lambda>x. fst (snd x)) (filter (\<lambda>x. a_attester (fst x) = who) ?items)) \<and>
    (\<forall>m x. delegation_nonces (st_keys s1) who = Some m \<longrightarrow> x \<in> set ?items \<longrightarrow>
       a_attester (fst x) = who \<longrightarrow> m < fst (snd x))"
    by (rule delegation.run_increasing [OF multi_delegation_loop_run [OF loop]])
      (rule delegated_item_consumes)
  have "zip (map a_attester as) ns = map (\<lambda>x. (a_attester (fst x), fst (snd x))) ?items"
    using len by (intro nth_equalityI) auto
  then have sorted: "sorted_wrt (<) (map snd (filter (\<lambda>x. fst x = who) (zip (map a_attester as) ns)))"
    using run by (simp add: filter_map comp_def)
  moreover have "uids = map a_uid as"
    using eff len by (simp add: map_map [symmetric] del: map_map)
  moreover have "ed25519_valid (hst cx) (pks ! i)
       (bytes32_to_array (hash_delegation_digest cx (as ! i) (ns ! i))) (sgs ! i)" if "i < length as" for i
    using eff nth [OF that] by (force simp: hash_delegation_digest_def)
  moreover have "m < ns ! i" if "get_delegation_nonce s who = Some m" "i < length as"
    "a_attester (as ! i) = who" for m i
    using run nth [OF that(2)] that keys by (force simp: get_delegation_nonce_def)
  ultimately show ?thesis
    using len by blast
qed

theorem delegated_batch_nonces_witness:
  "\<exists>uids s'. multi_attest_by_delegation sample_cx [sample_new 3] [5] [0] [7] sample_state
      = Inr (uids, s') \<and> uids = [123]"
proof -
  let ?g = "sample_state\<lparr>st_guard := \<lparr>reentrancy_guard = True, call_depth = 0\<rparr>\<rparr>"
  let ?s = "set_delegation_nonce (Account 7) 5 ?g"
  have "issuance_ok sample_cx (sample_new 3) ?s"
    using sample_issuance_ok by (simp add: issuance_ok_def)
  then have int: "\<exists>s1. attest_internal sample_cx (sample_new 3) ?s = Inr (a_uid (sample_new 3), s1)"
    by (rule attest_internal_succeeds) (simp_all add: sample_defs u32_max_def)
  have "admit_delegated sample_cx (sample_new 3) 5 0 7 ?g = Inr ?s"
    by (rule sample_admit) simp_all
  moreover have "enter_reentrancy_guard sample_state = Inr ?g"
    by (simp add: enter_reentrancy_guard_def sample_defs)
  ultimately have "\<exists>uids s'. multi_attest_by_delegation sample_cx [sample_new 3] [5] [0] [7] sample_state
      = Inr (uids, s')"
    using int by (auto simp: multi_attest_by_delegation_def MAX_MULTI_ATTEST_def)
  then obtain uids s' where
    r: "multi_attest_by_delegation sample_cx [sample_new 3] [5] [0] [7] sample_state = Inr (uids, s')"
    by blast
  from delegated_batch_nonces [OF r] r show ?thesis
    by (auto simp: sample_new_def)
qed

text \<open>
  A batch revocation revokes exactly its UIDs. When \<^verbatim>\<open>multi_revoke\<close> succeeds, no UID is named twice,
  each named record existed, was revocable and unrevoked, and had its attester's authorization;
  afterwards each of them reads as before with the ledger's time as revocation time, and every other
  UID reads as before.
\<close>

theorem multi_revoke_exact:
  assumes "multi_revoke cx uids s = Inr s'" and "store_wf (st_store s)"
  shows "distinct uids \<and> same_frame s s' \<and>
    (\<forall>u\<in>set uids. \<exists>a. get_attestation s u = Some a \<and> a_revocable a \<and> a_revocation_time a = 0 \<and>
       authorized (led cx) (a_attester a) \<and>
       get_attestation s' u = Some (a\<lparr>a_revocation_time := timestamp (led cx)\<rparr>)) \<and>
    (\<forall>u. u \<notin> set uids \<longrightarrow> get_attestation s' u = get_attestation s u)"
  using multi_revoke_effect [OF assms(1)] assms(2)
  by (fastforce simp: revoked_all_def revoked_view_def get_attestation_def same_frame_def)

lemma holding_revoke_internal: "\<exists>s'. revoke_internal sample_cx 123 (holding_state 3) = Inr s'"
  using holding_revoke revoke_effect by blast

theorem multi_revoke_exact_witness:
  "\<exists>s' a. multi_revoke sample_cx [123] (holding_state 3) = Inr s' \<and>
     get_attestation s' 123 = Some a \<and> a_revocation_time a = 1000"
proof -
  have "\<exists>s'. multi_revoke sample_cx [123] (holding_state 3) = Inr s'"
    using holding_revoke_internal
    by (auto simp: multi_revoke_def MAX_MULTI_REVOKE_def check_revocable_record_def require_auths_def
        sample_read_holding sample_new_def revoke_all_def)
  then obtain s' where r: "multi_revoke sample_cx [123] (holding_state 3) = Inr s'" by blast
  have "timestamp (led sample_cx) = 1000" by (simp add: sample_cx_def sample_env_def)
  with multi_revoke_exact [OF r sample_wf_holding] r show ?thesis by auto
qed

text \<open>
  The recovery path \<^verbatim>\<open>revoke_by_schema\<close> stays within its schema. When it succeeds, the named
  authorizer authorized the call and is owner or delegate of the schema in the registry; every
  revoked record belongs to that schema, was revocable and unrevoked, and only gets its revocation
  time; no record outside the given list changes.
\<close>

theorem revoke_by_schema_scoped:
  assumes "revoke_by_schema cx suid uids who s = Inr s'" and "store_wf (st_store s)"
  shows "authorized (led cx) who \<and>
    (\<exists>registry. schema_registry (st_config s) = Some registry \<and>
       x_is_authorized (ext cx) (led cx) registry suid who (st_world s) = Some True) \<and>
    same_frame s s' \<and>
    (\<forall>u a. get_attestation s u = Some a \<longrightarrow>
       get_attestation s' u = Some (if u \<in> set uids
         then a\<lparr>a_revocation_time := timestamp (led cx)\<rparr> else a)) \<and>
    (\<forall>u\<in>set uids. \<exists>a. get_attestation s u = Some a \<and> a_schema_uid a = suid \<and> a_revocable a \<and>
       a_revocation_time a = 0)"
  using revoke_by_schema_effect [OF assms(1)] assms(2)
  by (fastforce simp: revoked_all_def revoked_view_def get_attestation_def same_frame_def)

theorem revoke_by_schema_scoped_witness:
  "\<exists>s' a. revoke_by_schema sample_cx 12 [123] (Account 7) (holding_state 3) = Inr s' \<and>
     get_attestation s' 123 = Some a \<and> a_revocation_time a = 1000"
proof -
  have "\<exists>s'. revoke_by_schema sample_cx 12 [123] (Account 7) (holding_state 3) = Inr s'"
    using holding_revoke_internal
    by (auto simp: revoke_by_schema_def MAX_REVOKE_BY_SCHEMA_def check_revocable_record_def
        sample_read_holding sample_new_def revoke_all_def sample_cx_def sample_externs_def
        require_auth_def sample_env_def)
  then obtain s' where
    r: "revoke_by_schema sample_cx 12 [123] (Account 7) (holding_state 3) = Inr s'" by blast
  have "timestamp (led sample_cx) = 1000" by (simp add: sample_cx_def sample_env_def)
  with revoke_by_schema_scoped [OF r sample_wf_holding] r show ?thesis
    by (auto simp: get_attestation_def sample_read_holding)
qed

text \<open>
  Pruning removes expired records and nothing else. When \<^verbatim>\<open>prune_expired\<close> succeeds, the admin had
  enabled it, exactly the named records whose expiration has passed are gone, their number is
  returned, and no verification verdict at that ledger changes for any UID.
\<close>

theorem prune_only_expired:
  assumes "prune_expired env uids s = Inr (n, s')"
  shows "auto_prune (st_config s) \<and> same_frame s s' \<and>
    (\<forall>u. get_attestation s' u =
       (if u \<in> set uids \<and> expired_in env (get_attestation s) u then None else get_attestation s u)) \<and>
    n = card {u \<in> set uids. expired_in env (get_attestation s) u} \<and>
    verify_attestation env s' = verify_attestation env s"
proof -
  let ?cx = "\<lparr>hst = toy_host, ext = undefined, led = env\<rparr>"
  from assms have on: "auto_prune (st_config s)" and loop: "prune_loop (led ?cx) uids 0 s = Inr (n, s')"
    by (auto simp: prune_expired_def split: if_splits)
  note eff = prune_loop_effect [OF loop]
  have rd: "read_attestation (st_store s') u = (if u \<in> set uids \<and>
      expired_in env (read_attestation (st_store s)) u then None else read_attestation (st_store s) u)" for u
    using eff by auto
  have "\<not> verify_attestation_record env (st_store s) u"
    if "expired_in env (read_attestation (st_store s)) u" for u
    using that by (auto simp: expired_in_def live_at_def verify_attestation_record_def is_ok_def
        validate_expiration_def not_less)
  then have "verify_attestation env s' u = verify_attestation env s u" for u
    by (simp add: verify_attestation_def verify_attestation_record_def [of env "st_store s'"] rd)
      (simp add: verify_attestation_record_def)
  with on eff show ?thesis
    by (auto simp: get_attestation_def [abs_def] fun_eq_iff)
qed

definition prunable_state :: "unit sas_state" where
  "prunable_state = (holding_state 3)\<lparr>st_config := fresh_config\<lparr>auto_prune := True\<rparr>\<rparr>"

theorem prune_only_expired_witness:
  "\<exists>n s'. prune_expired (sample_env\<lparr>timestamp := 5000\<rparr>) [123] prunable_state = Inr (n, s') \<and>
     get_attestation s' 123 = None"
proof -
  let ?e = "sample_env\<lparr>timestamp := 5000\<rparr>"
  have rd: "read_attestation (st_store prunable_state) 123 = Some ((sample_new 3)\<lparr>a_time := 900\<rparr>)"
    by (simp add: prunable_state_def sample_read_holding)
  then have "\<exists>n s'. prune_expired ?e [123] prunable_state = Inr (n, s')"
    by (auto simp: prune_expired_def MAX_PRUNE_BATCH_def is_ok_def validate_expiration_def
        sample_new_def Let_def add_u32_def u32_max_def prunable_state_def)
  then obtain n s' where r: "prune_expired ?e [123] prunable_state = Inr (n, s')" by blast
  have "expired_in ?e (get_attestation prunable_state) 123"
    by (simp add: expired_in_def get_attestation_def rd live_at_def sample_new_def)
  with prune_only_expired [OF r] r show ?thesis by auto
qed

end
