(* ===== verification/Sas_Fees.thy ===== *)
theory Sas_Fees
  imports Sas_Entry
begin

text \<open>
  Fees of the SAS contract (\<^verbatim>\<open>contracts/sas/src/lib.rs\<close>): the paid issuance \<^verbatim>\<open>attest_with_value\<close> with the
  split of its fee, the accounts kept for the treasury and for schema creators, the withdrawals, and
  the administration of the fee schedule. Token contracts are reached through \<open>x_transfer\<close> and
  \<open>x_balance\<close>.
\<close>

section \<open>Splitting a fee\<close>

definition distribute_attestation_fee ::
  "'w ctx \<Rightarrow> uid \<Rightarrow> address \<Rightarrow> int \<Rightarrow> 'w sas_state \<Rightarrow> 'w sas_state sas_result" where
  "distribute_attestation_fee cx suid token value s =
     (case schema_registry (st_config s) of
        None \<Rightarrow> Inr s
      | Some registry \<Rightarrow>
          (case x_get_creator_royalty (ext cx) (led cx) registry suid (st_world s) of
             None \<Rightarrow> Inr s
           | Some bps \<Rightarrow>
               if bps > 5000 then Inl (Panic InvalidValue)
               else
                 bind_r (or_panic InvalidValue
                          (map_option (\<lambda>product. tdiv product 10000) (checked_i128 (value * int bps))))
                   (\<lambda>creator_amount.
                 bind_r (or_panic InvalidValue (checked_i128 (value - creator_amount)))
                   (\<lambda>treasury_amount.
                 if treasury (st_config s) = None \<and> creator_amount = 0 then Inr s
                 else
                   bind_r (or_panic TreasuryNotSet (treasury (st_config s))) (\<lambda>treasury_addr.
                   bind_r (if treasury_amount > 0
                           then or_trap (x_transfer (ext cx) (led cx) token
                                  (current_contract (led cx)) treasury_addr treasury_amount
                                  (st_world s))
                           else Inr (st_world s)) (\<lambda>w.
                   bind_r (if creator_amount > 0
                           then (case x_get_creator (ext cx) (led cx) registry suid w of
                                   Some (Some creator) \<Rightarrow>
                                     or_trap (x_transfer (ext cx) (led cx) token
                                       (current_contract (led cx)) creator creator_amount w)
                                 | _ \<Rightarrow> Inl (Panic SchemaNotFound))
                           else Inr w) (\<lambda>w.
                   Inr (emit (FeeSplit suid treasury_amount creator_amount)
                          (s\<lparr>st_world := w\<rparr>)))))))))"

section \<open>Paid issuance\<close>

definition creator_share :: "schema_fee_config option \<Rightarrow> int \<Rightarrow> int" where
  "creator_share schema_fee base_amount =
     (case schema_fee of
        Some cfg \<Rightarrow>
          if sf_fee_type cfg = 1 then sf_fixed_amount cfg
          else if sf_fee_type cfg = 2 then
            (if base_amount > 0
             then tdiv (saturating_i128 (base_amount * int (sf_basis_points cfg))) 10000 else 0)
          else 0
      | None \<Rightarrow> 0)"

definition is_default_token :: "'w sas_state \<Rightarrow> address \<Rightarrow> bool" where
  "is_default_token s token =
     (case fee_config (st_fees s) of Some (fee_token, _) \<Rightarrow> fee_token = token | None \<Rightarrow> False)"

text \<open>Which payment the configuration asks for in a token, and the error otherwise.\<close>

definition check_payment :: "'w sas_state \<Rightarrow> address \<Rightarrow> int \<Rightarrow> int \<Rightarrow> int \<Rightarrow> unit sas_result" where
  "check_payment s token value total_required creator_amount =
     (if is_default_token s token
      then (if value \<noteq> total_required then Inl (Panic FeeMismatch) else Inr ())
      else
        case fee_assets (st_fees s) token of
          Some additional_base \<Rightarrow>
            if value \<noteq> saturating_i128 (additional_base + creator_amount)
            then Inl (Panic FeeMismatch) else Inr ()
        | None \<Rightarrow>
            if fee_config (st_fees s) = None \<and> value = 0 \<and> total_required = 0 then Inr ()
            else if multi_asset_active (st_fees s) then Inl (Panic InvalidToken)
            else Inl (Panic FeeMismatch))"

definition credit_treasury :: "address \<Rightarrow> int \<Rightarrow> 'w sas_state \<Rightarrow> 'w sas_state" where
  "credit_treasury token amount s =
     (if amount > 0
      then s\<lparr>st_fees := (st_fees s)\<lparr>treasury_fees := (treasury_fees (st_fees s))(token :=
                saturating_i128 (treasury_fees (st_fees s) token + amount))\<rparr>\<rparr>
      else s)"

definition credit_creator ::
  "'w ctx \<Rightarrow> uid \<Rightarrow> address \<Rightarrow> int \<Rightarrow> 'w sas_state \<Rightarrow> (address \<times> 'w sas_state) sas_result" where
  "credit_creator cx suid token amount s =
     (if amount > 0
      then
        bind_r (require_registry s) (\<lambda>registry.
        let creator_addr = (case x_get_creator (ext cx) (led cx) registry suid (st_world s) of
                              Some (Some c) \<Rightarrow> c | _ \<Rightarrow> current_contract (led cx));
            key = (creator_addr, token)
        in Inr (creator_addr,
             s\<lparr>st_fees := (st_fees s)\<lparr>creator_fees := (creator_fees (st_fees s))(key :=
                saturating_i128 (creator_fees (st_fees s) key + amount))\<rparr>\<rparr>))
      else Inr (current_contract (led cx), s))"

definition collect_fee ::
  "'w ctx \<Rightarrow> attestation \<Rightarrow> address \<Rightarrow> int \<Rightarrow> int \<Rightarrow> int \<Rightarrow> 'w sas_state \<Rightarrow> 'w sas_state sas_result" where
  "collect_fee cx a token value base_amount creator_amount s =
     (if value > 0
      then
        let treasury_opt = treasury (st_config s) in
        if \<not> is_default_token s token \<and> treasury_opt = None then Inl (Panic TreasuryNotSet)
        else
          let destination =
                (if creator_amount > 0 then current_contract (led cx)
                 else case treasury_opt of Some t \<Rightarrow> t | None \<Rightarrow> current_contract (led cx)) in
          bind_r (or_trap (x_transfer (ext cx) (led cx) token (a_attester a) destination value
                             (st_world s))) (\<lambda>w.
          let s = credit_treasury token base_amount (s\<lparr>st_world := w\<rparr>) in
          bind_r (credit_creator cx (a_schema_uid a) token creator_amount s) (\<lambda>(creator_addr, s).
          let s = emit (FeeDistributed (a_schema_uid a) token value base_amount creator_amount
                          creator_addr) s
          in distribute_attestation_fee cx (a_schema_uid a) token value s))
      else Inr s)"

definition attest_with_value ::
  "'w ctx \<Rightarrow> attestation \<Rightarrow> address \<Rightarrow> int \<Rightarrow> 'w sas_state \<Rightarrow> (uid \<times> 'w sas_state) sas_result" where
  "attest_with_value cx a token value s =
     bind_r (reject_reentrant s) (\<lambda>_.
     if is_paused_status s then Inl (Panic ProtocolPaused)
     else if value < 0 then Inl (Panic InvalidValue)
     else
       bind_r (fee_quote s (a_schema_uid a) (length (a_data a))) (\<lambda>base_amount.
       if fee_per_byte (st_fees s) > 0 \<and> value < base_amount then Inl (Panic InsufficientFee)
       else
         let creator_amount = creator_share (schema_fees (st_fees s) (a_schema_uid a)) base_amount;
             total_required = saturating_i128 (base_amount + creator_amount) in
         bind_r (check_payment s token value total_required creator_amount) (\<lambda>_.
         bind_r (require_auth (led cx) (a_attester a)) (\<lambda>_.
         bind_r (collect_fee cx a token value base_amount creator_amount s) (\<lambda>s.
         bind_r (attest_internal cx a s) (\<lambda>(u, s).
         Inr (u, emit (AttestedWithFee (a_uid a) (a_schema_uid a) (a_attester a) (a_recipient a)
                         total_required) s)))))))"

section \<open>Withdrawals\<close>

text \<open>Admin and treasury may withdraw.\<close>

definition require_treasurer :: "'w ctx \<Rightarrow> address \<Rightarrow> 'w sas_state \<Rightarrow> unit sas_result" where
  "require_treasurer cx authorizer s =
     bind_r (require_admin s) (\<lambda>admin.
     if authorizer \<noteq> admin \<and> treasury (st_config s) \<noteq> Some authorizer
     then Inl (Panic Unauthorized)
     else require_auth (led cx) authorizer)"

definition pay_out ::
  "'w ctx \<Rightarrow> address \<Rightarrow> int \<Rightarrow> address \<Rightarrow> address \<Rightarrow> 'w sas_state \<Rightarrow> 'w sas_state sas_result" where
  "pay_out cx token amount destination authorizer s =
     bind_r (or_trap (x_transfer (ext cx) (led cx) token (current_contract (led cx)) destination
                        amount (st_world s))) (\<lambda>w.
     Inr (emit (Withdrawal token amount destination authorizer) (s\<lparr>st_world := w\<rparr>)))"

definition withdraw_tokens ::
  "'w ctx \<Rightarrow> address \<Rightarrow> address \<Rightarrow> int \<Rightarrow> address \<Rightarrow> 'w sas_state \<Rightarrow> 'w sas_state sas_result" where
  "withdraw_tokens cx authorizer token amount destination s =
     bind_r (reject_reentrant s) (\<lambda>_.
     if amount \<le> 0 then Inl (Panic InvalidValue)
     else
       bind_r (require_treasurer cx authorizer s) (\<lambda>_.
       bind_r (or_trap (x_balance (ext cx) (led cx) token (current_contract (led cx)) (st_world s)))
         (\<lambda>balance.
       if balance < amount then Inl (Panic InvalidValue)
       else pay_out cx token amount destination authorizer s)))"

definition withdraw_creator_fees ::
  "'w ctx \<Rightarrow> address \<Rightarrow> address \<Rightarrow> int \<Rightarrow> address \<Rightarrow> 'w sas_state \<Rightarrow> 'w sas_state sas_result" where
  "withdraw_creator_fees cx creator token amount destination s =
     (if amount \<le> 0 then Inl (Panic InvalidValue)
      else
        bind_r (require_auth (led cx) creator) (\<lambda>_.
        let balance = creator_fees (st_fees s) (creator, token) in
        if balance < amount then Inl (Panic InvalidValue)
        else
          pay_out cx token amount destination creator
            (s\<lparr>st_fees := (st_fees s)\<lparr>creator_fees :=
                (creator_fees (st_fees s))((creator, token) := balance - amount)\<rparr>\<rparr>)))"

definition withdraw_treasury_fees ::
  "'w ctx \<Rightarrow> address \<Rightarrow> address \<Rightarrow> int \<Rightarrow> address \<Rightarrow> 'w sas_state \<Rightarrow> 'w sas_state sas_result" where
  "withdraw_treasury_fees cx authorizer token amount destination s =
     (if amount \<le> 0 then Inl (Panic InvalidValue)
      else
        bind_r (require_treasurer cx authorizer s) (\<lambda>_.
        let balance = treasury_fees (st_fees s) token in
        if balance < amount then Inl (Panic InvalidValue)
        else
          pay_out cx token amount destination authorizer
            (s\<lparr>st_fees := (st_fees s)\<lparr>treasury_fees :=
                (treasury_fees (st_fees s))(token := balance - amount)\<rparr>\<rparr>)))"

section \<open>The fee schedule\<close>

definition set_fee :: "ledger_env \<Rightarrow> address \<Rightarrow> int \<Rightarrow> 'w sas_state \<Rightarrow> 'w sas_state sas_result" where
  "set_fee env token amount s =
     bind_r (reject_reentrant s) (\<lambda>_.
     bind_r (require_admin s) (\<lambda>admin.
     bind_r (require_auth env admin) (\<lambda>_.
     if amount \<le> 0 then Inl (Panic InvalidValue)
     else
       Inr (emit (FeeConfigUpdated (fee_config (st_fees s)) (Some (token, amount)) admin)
              (s\<lparr>st_fees := (st_fees s)\<lparr>fee_config := Some (token, amount)\<rparr>\<rparr>)))))"

definition clear_fee :: "ledger_env \<Rightarrow> 'w sas_state \<Rightarrow> 'w sas_state sas_result" where
  "clear_fee env s =
     bind_r (reject_reentrant s) (\<lambda>_.
     bind_r (require_admin s) (\<lambda>admin.
     bind_r (require_auth env admin) (\<lambda>_.
     Inr (emit (FeeConfigUpdated (fee_config (st_fees s)) None admin)
            (s\<lparr>st_fees := (st_fees s)\<lparr>fee_config := None, fee_per_byte := 0\<rparr>\<rparr>)))))"

definition set_fee_per_byte :: "ledger_env \<Rightarrow> int \<Rightarrow> 'w sas_state \<Rightarrow> 'w sas_state sas_result" where
  "set_fee_per_byte env amount s =
     bind_r (require_admin s) (\<lambda>admin.
     bind_r (require_auth env admin) (\<lambda>_.
     if amount < 0 \<or> (amount > 0 \<and> fee_config (st_fees s) = None) then Inl (Panic InvalidValue)
     else Inr (s\<lparr>st_fees := (st_fees s)\<lparr>fee_per_byte := amount\<rparr>\<rparr>)))"

definition set_schema_zero_fee ::
  "ledger_env \<Rightarrow> uid \<Rightarrow> bool \<Rightarrow> 'w sas_state \<Rightarrow> 'w sas_state sas_result" where
  "set_schema_zero_fee env suid enabled s =
     bind_r (require_admin s) (\<lambda>admin.
     bind_r (require_auth env admin) (\<lambda>_.
     Inr (s\<lparr>st_fees := (st_fees s)\<lparr>zero_fee_schemas :=
            (zero_fee_schemas (st_fees s))(suid := enabled)\<rparr>\<rparr>)))"

definition quote_attestation_fee :: "'w sas_state \<Rightarrow> uid \<Rightarrow> nat \<Rightarrow> int sas_result" where
  "quote_attestation_fee s suid data_len = fee_quote s suid data_len"

definition set_accepted_fee ::
  "ledger_env \<Rightarrow> address \<Rightarrow> int \<Rightarrow> 'w sas_state \<Rightarrow> 'w sas_state sas_result" where
  "set_accepted_fee env token amount s =
     bind_r (reject_reentrant s) (\<lambda>_.
     bind_r (require_admin s) (\<lambda>admin.
     bind_r (require_auth env admin) (\<lambda>_.
     if amount \<le> 0 then Inl (Panic InvalidValue)
     else Inr (s\<lparr>st_fees := (st_fees s)\<lparr>fee_assets := (fee_assets (st_fees s))(token \<mapsto> amount),
                 multi_asset_active := True\<rparr>\<rparr>))))"

definition remove_accepted_fee ::
  "ledger_env \<Rightarrow> address \<Rightarrow> 'w sas_state \<Rightarrow> 'w sas_state sas_result" where
  "remove_accepted_fee env token s =
     bind_r (reject_reentrant s) (\<lambda>_.
     bind_r (require_admin s) (\<lambda>admin.
     bind_r (require_auth env admin) (\<lambda>_.
     Inr (s\<lparr>st_fees := (st_fees s)\<lparr>fee_assets := (fee_assets (st_fees s))(token := None)\<rparr>\<rparr>))))"

definition get_fee_ceilings :: "'w sas_state \<Rightarrow> fee_ceilings" where
  "get_fee_ceilings s =
     (case ceilings (st_fees s) of
        Some c \<Rightarrow> c
      | None \<Rightarrow> \<lparr>fc_max_fixed_fee = i128_max, fc_max_basis_points = MAX_CREATOR_BPS\<rparr>)"

definition set_fee_ceilings ::
  "ledger_env \<Rightarrow> int \<Rightarrow> nat \<Rightarrow> 'w sas_state \<Rightarrow> 'w sas_state sas_result" where
  "set_fee_ceilings env max_fixed_fee max_basis_points s =
     bind_r (require_admin s) (\<lambda>admin.
     bind_r (require_auth env admin) (\<lambda>_.
     if max_fixed_fee < 0 \<or> max_basis_points > MAX_CREATOR_BPS then Inl (Panic InvalidValue)
     else Inr (s\<lparr>st_fees := (st_fees s)\<lparr>ceilings :=
            Some \<lparr>fc_max_fixed_fee = max_fixed_fee, fc_max_basis_points = max_basis_points\<rparr>\<rparr>\<rparr>)))"

text \<open>The schema creator, as the registry reports it, or the administrator.\<close>

definition require_fee_manager ::
  "'w ctx \<Rightarrow> uid \<Rightarrow> address \<Rightarrow> 'w sas_state \<Rightarrow> unit sas_result" where
  "require_fee_manager cx suid authorizer s =
     bind_r (require_auth (led cx) authorizer) (\<lambda>_.
     bind_r (require_registry s) (\<lambda>registry.
     let creator = (case x_get_creator (ext cx) (led cx) registry suid (st_world s) of
                      Some c \<Rightarrow> c | None \<Rightarrow> None) in
     bind_r (require_admin s) (\<lambda>admin.
     if creator \<noteq> Some authorizer \<and> authorizer \<noteq> admin then Inl (Panic Unauthorized)
     else Inr ())))"

definition set_schema_fee ::
  "'w ctx \<Rightarrow> uid \<Rightarrow> address \<Rightarrow> nat \<Rightarrow> int \<Rightarrow> nat \<Rightarrow> 'w sas_state \<Rightarrow> 'w sas_state sas_result" where
  "set_schema_fee cx suid authorizer fee_type fixed_amount basis_points s =
     bind_r (require_fee_manager cx suid authorizer s) (\<lambda>_.
     let c = get_fee_ceilings s in
     if (if fee_type = 1 then fixed_amount < 0 \<or> fixed_amount > fc_max_fixed_fee c
         else if fee_type = 2 then basis_points > fc_max_basis_points c
         else True)
     then Inl (Panic InvalidValue)
     else
       Inr (s\<lparr>st_fees := (st_fees s)\<lparr>schema_fees := (schema_fees (st_fees s))(suid \<mapsto>
              \<lparr>sf_fee_type = fee_type, sf_fixed_amount = fixed_amount,
               sf_basis_points = basis_points\<rparr>)\<rparr>\<rparr>))"

definition clear_schema_fee ::
  "'w ctx \<Rightarrow> uid \<Rightarrow> address \<Rightarrow> 'w sas_state \<Rightarrow> 'w sas_state sas_result" where
  "clear_schema_fee cx suid authorizer s =
     bind_r (require_fee_manager cx suid authorizer s) (\<lambda>_.
     Inr (s\<lparr>st_fees := (st_fees s)\<lparr>schema_fees := (schema_fees (st_fees s))(suid := None)\<rparr>\<rparr>))"

definition get_schema_fee :: "'w sas_state \<Rightarrow> uid \<Rightarrow> schema_fee_config option" where
  "get_schema_fee s suid = schema_fees (st_fees s) suid"

definition get_treasury_fee_balance :: "'w sas_state \<Rightarrow> address \<Rightarrow> int" where
  "get_treasury_fee_balance s token = treasury_fees (st_fees s) token"

definition get_creator_fee_balance :: "'w sas_state \<Rightarrow> address \<Rightarrow> address \<Rightarrow> int" where
  "get_creator_fee_balance s creator token = creator_fees (st_fees s) (creator, token)"

section \<open>Effects\<close>

lemma checked_i128_Some_iff: "checked_i128 x = Some y \<longleftrightarrow> in_i128 x \<and> y = x"
  by (auto simp: checked_i128_def)

lemma distribute_effect:
  assumes "distribute_attestation_fee cx suid token value s = Inr s'"
  shows "s' = s \<or> (\<exists>t c w. s' = emit (FeeSplit suid t c) (s\<lparr>st_world := w\<rparr>) \<and> t = value - c \<and>
    (\<exists>bps\<le>5000. c = tdiv (value * int bps) 10000 \<and>
      (\<exists>registry. schema_registry (st_config s) = Some registry \<and>
        x_get_creator_royalty (ext cx) (led cx) registry suid (st_world s) = Some bps)))"
proof (cases "\<exists>registry bps. schema_registry (st_config s) = Some registry \<and>
    x_get_creator_royalty (ext cx) (led cx) registry suid (st_world s) = Some bps")
  case False
  with assms show ?thesis
    by (auto simp: distribute_attestation_fee_def split: option.splits)
next
  case True
  then obtain registry bps where r: "schema_registry (st_config s) = Some registry"
    "x_get_creator_royalty (ext cx) (led cx) registry suid (st_world s) = Some bps"
    by blast
  let ?c = "tdiv (value * int bps) 10000"
  from assms r have b: "bps \<le> 5000"
    by (auto simp: distribute_attestation_fee_def split: if_splits)
  from assms r have "s' = s \<or> (\<exists>w. s' = emit (FeeSplit suid (value - ?c) ?c) (s\<lparr>st_world := w\<rparr>))"
    by (cases "treasury (st_config s) = None \<and> ?c = 0")
      (force simp: distribute_attestation_fee_def bind_r_Inr_iff or_panic_Inr_iff checked_i128_Some_iff
        if_Inl_Inr_iff)+
  with b r show ?thesis by blast
qed

lemma distribute_frame:
  assumes "distribute_attestation_fee cx suid token value s = Inr s'"
  shows "same_frame s s' \<and> st_store s' = st_store s \<and> st_rate s' = st_rate s"
  using distribute_effect [OF assms] by (auto simp: same_frame_def)

text \<open>The accounts after crediting a fee.\<close>

definition credited :: "int \<Rightarrow> int \<Rightarrow> int" where
  "credited balance amount = (if amount > 0 then saturating_i128 (balance + amount) else balance)"

lemma collect_fee_effect:
  assumes "collect_fee cx a token value base c s = Inr s'"
  shows "st_config s' = st_config s \<and> st_keys s' = st_keys s \<and> st_guard s' = st_guard s \<and>
    st_store s' = st_store s \<and> st_rate s' = st_rate s \<and>
    (value \<le> 0 \<longrightarrow> s' = s) \<and>
    (value > 0 \<longrightarrow> (\<exists>creator. st_fees s' = (st_fees s)\<lparr>
       treasury_fees := (treasury_fees (st_fees s))(token := credited (treasury_fees (st_fees s) token) base),
       creator_fees := (creator_fees (st_fees s))((creator, token) :=
         credited (creator_fees (st_fees s) (creator, token)) c)\<rparr>))"
proof (cases "value > 0")
  case False
  with assms show ?thesis by (simp add: collect_fee_def)
next
  case True
  with assms obtain w s1 who where
    cc: "credit_creator cx (a_schema_uid a) token c (credit_treasury token base (s\<lparr>st_world := w\<rparr>))
      = Inr (who, s1)"
    and dist: "distribute_attestation_fee cx (a_schema_uid a) token value
      (emit (FeeDistributed (a_schema_uid a) token value base c who) s1) = Inr s'"
    by (auto simp: collect_fee_def Let_def result_iff split: if_splits)
  have "\<exists>creator. s1 = (s\<lparr>st_world := w\<rparr>)\<lparr>st_fees := (st_fees s)\<lparr>
       treasury_fees := (treasury_fees (st_fees s))(token := credited (treasury_fees (st_fees s) token) base),
       creator_fees := (creator_fees (st_fees s))((creator, token) :=
         credited (creator_fees (st_fees s) (creator, token)) c)\<rparr>\<rparr>"
    using cc
    by (auto simp: credit_creator_def credit_treasury_def credited_def Let_def result_iff
        split: if_splits)
  with distribute_frame [OF dist] True show ?thesis
    by (auto simp: same_frame_def)
qed

lemma check_payment_Inr_iff [result_iff]:
  "check_payment s token value due c = Inr z \<longleftrightarrow>
   (if is_default_token s token then value = due
    else case fee_assets (st_fees s) token of
           Some b \<Rightarrow> value = saturating_i128 (b + c)
         | None \<Rightarrow> fee_config (st_fees s) = None \<and> value = 0 \<and> due = 0)"
  by (auto simp: check_payment_def split: option.splits)

lemma attest_with_value_effect:
  assumes "attest_with_value cx a token value s = Inr (u, s')"
  shows "\<not> is_paused_status s \<and> authorized (led cx) (a_attester a) \<and> 0 \<le> value \<and>
    (\<exists>base s1 s2 ev. fee_quote s (a_schema_uid a) (length (a_data a)) = Inr base \<and>
      check_payment s token value
        (saturating_i128 (base + creator_share (schema_fees (st_fees s) (a_schema_uid a)) base))
        (creator_share (schema_fees (st_fees s) (a_schema_uid a)) base) = Inr () \<and>
      collect_fee cx a token value base (creator_share (schema_fees (st_fees s) (a_schema_uid a)) base) s
        = Inr s1 \<and>
      attest_internal cx a s1 = Inr (u, s2) \<and> s' = emit ev s2)"
  using assms
  by (auto simp: attest_with_value_def Let_def bind_r_Inr_iff require_auth_Inr_iff if_Inl_Inr_iff
      split: prod.splits)

lemma attest_with_value_steps:
  "attest_with_value cx a token value s = Inr (u, s') \<Longrightarrow> store_steps cx (st_store s) (st_store s')"
  by (auto dest!: attest_with_value_effect collect_fee_effect internal_steps)

lemma require_treasurer_Inr_iff [result_iff]:
  "require_treasurer cx who s = Inr z \<longleftrightarrow> authorized (led cx) who \<and>
   (\<exists>admin. sas_admin (st_config s) = Some admin \<and> (who = admin \<or> treasury (st_config s) = Some who))"
  by (auto simp: require_treasurer_def result_iff)

lemma pay_out_Inr_iff [result_iff]:
  "pay_out cx token amount dest who s = Inr s' \<longleftrightarrow>
   (\<exists>w. x_transfer (ext cx) (led cx) token (current_contract (led cx)) dest amount (st_world s) = Some w \<and>
     s' = emit (Withdrawal token amount dest who) (s\<lparr>st_world := w\<rparr>))"
  by (auto simp: pay_out_def result_iff)

section \<open>Properties\<close>

text \<open>
  The royalty split loses nothing. When a non-negative fee is distributed and the split is
  published, the treasury's and the creator's parts are non-negative, add up to the whole fee, and
  the creator's is the royalty in basis points rounded down, never more than half.
\<close>

theorem fee_split_exact:
  assumes "distribute_attestation_fee cx suid token value s = Inr s'" and "0 \<le> value" and "s' \<noteq> s"
  shows "\<exists>t c w bps. s' = emit (FeeSplit suid t c) (s\<lparr>st_world := w\<rparr>) \<and> t + c = value \<and> 0 \<le> t \<and> 0 \<le> c \<and>
    2 * c \<le> value \<and> c = value * int bps div 10000"
proof -
  from distribute_effect [OF assms(1)] assms(3) obtain t c w bps where
    s': "s' = emit (FeeSplit suid t c) (s\<lparr>st_world := w\<rparr>)" and t: "t = value - c" and b: "bps \<le> 5000"
    and c: "c = tdiv (value * int bps) 10000"
    by blast
  from assms(2) c have c': "c = value * int bps div 10000"
    by (simp add: tdiv_nonneg)
  have "value * int bps \<le> value * 5000"
    using assms(2) b by (intro mult_left_mono) simp_all
  then have "2 * c \<le> value" "0 \<le> c"
    using assms(2) c' by (simp_all add: pos_imp_zdiv_nonneg_iff)
  then show ?thesis
    using s' t c' assms(2)
    by (intro exI [of _ t] exI [of _ c] exI [of _ w] exI [of _ bps]) auto
qed

definition royalty_state :: "unit sas_state" where
  "royalty_state = sample_state\<lparr>st_config := (st_config sample_state)\<lparr>treasury := Some (Account 9)\<rparr>\<rparr>"

theorem fee_split_exact_witness:
  "\<exists>s'. distribute_attestation_fee sample_cx 12 (Contract 50) 101 royalty_state = Inr s' \<and>
     (\<exists>t c w bps. s' = emit (FeeSplit 12 t c) (royalty_state\<lparr>st_world := w\<rparr>) \<and> t + c = 101 \<and> 0 \<le> t \<and>
       0 \<le> c \<and> 2 * c \<le> 101 \<and> c = 101 * int bps div 10000)"
proof -
  let ?s = "emit (FeeSplit 12 81 20) royalty_state"
  have r: "distribute_attestation_fee sample_cx 12 (Contract 50) 101 royalty_state = Inr ?s"
    by (simp add: distribute_attestation_fee_def royalty_state_def sample_defs checked_i128_def
        in_i128_def i128_min_def i128_max_def tdiv_def bind_r_def or_panic_def or_trap_def emit_def)
  have "?s \<noteq> royalty_state"
    by (simp add: emit_def royalty_state_def sample_defs)
  with fee_split_exact [OF r] r show ?thesis by auto
qed


definition paying_state :: "unit sas_state" where
  "paying_state = sample_state\<lparr>st_fees := fresh_fees\<lparr>fee_config := Some (Contract 50, 10)\<rparr>,
     st_config := (st_config sample_state)\<lparr>treasury := Some (Account 9)\<rparr>\<rparr>"

lemma sample_paid: "\<exists>u s'. attest_with_value sample_cx (sample_new 3) (Contract 50) 10 paying_state = Inr (u, s')"
proof -
  obtain s1 where col: "collect_fee sample_cx (sample_new 3) (Contract 50) 10 10 0 paying_state = Inr s1"
    by (simp add: collect_fee_def credit_creator_def distribute_attestation_fee_def paying_state_def
        sample_defs checked_i128_def in_i128_def i128_min_def i128_max_def tdiv_def bind_r_def
        or_panic_def or_trap_def credit_treasury_def is_default_token_def Let_def)
  from collect_fee_effect [OF col] have s1: "st_config s1 = st_config paying_state"
    "st_guard s1 = st_guard sample_state" "st_store s1 = empty_store" "st_rate s1 = st_rate sample_state"
    by (simp_all add: paying_state_def sample_defs)
  have "issuance_ok sample_cx (sample_new 3) s1"
    using sample_issuance_ok s1
    by (simp add: issuance_ok_def paying_state_def sample_state_def fresh_state_def)
  then have "\<exists>s'. attest_internal sample_cx (sample_new 3) s1 = Inr (a_uid (sample_new 3), s')"
    by (rule attest_internal_succeeds) (simp_all add: s1 paying_state_def sample_defs u32_max_def)
  moreover have "fee_quote paying_state (a_schema_uid (sample_new 3)) (length (a_data (sample_new 3))) = Inr 10"
    by (simp add: fee_quote_def paying_state_def sample_defs MAX_ATTESTATION_DATA_BYTES_def
        checked_i128_def in_i128_def i128_min_def i128_max_def)
  ultimately show ?thesis
    using col
    by (auto simp: attest_with_value_def creator_share_def check_payment_def is_default_token_def
        reject_reentrant_def is_paused_status_def saturating_i128_def i128_max_def i128_min_def
        require_auth_def paying_state_def sample_state_def fresh_state_def fresh_fees_def fresh_config_def
        sample_cx_def sample_env_def)
qed


text \<open>
  Withdrawals are covered and authorized. A creator or treasury withdrawal that succeeds was for
  a positive amount within the recorded balance, carried the creator's, or the admin's or treasury's,
  authorization, moved that amount from the contract to the destination, and reduced exactly that one
  account by the amount.
\<close>

theorem withdrawal_covered:
  assumes "withdraw_creator_fees cx who token amount dest s = Inr s' \<or>
    withdraw_treasury_fees cx who token amount dest s = Inr s'"
  shows "authorized (led cx) who \<and> 0 < amount \<and>
    (\<exists>w. x_transfer (ext cx) (led cx) token (current_contract (led cx)) dest amount (st_world s) = Some w \<and>
       st_world s' = w) \<and>
    (amount \<le> get_creator_fee_balance s who token \<and>
     st_fees s' = (st_fees s)\<lparr>creator_fees := (creator_fees (st_fees s))
       ((who, token) := get_creator_fee_balance s who token - amount)\<rparr>
     \<or> amount \<le> get_treasury_fee_balance s token \<and>
       (sas_admin (st_config s) = Some who \<or> treasury (st_config s) = Some who) \<and>
       st_fees s' = (st_fees s)\<lparr>treasury_fees := (treasury_fees (st_fees s))
         (token := get_treasury_fee_balance s token - amount)\<rparr>)"
  using assms
proof
  assume "withdraw_creator_fees cx who token amount dest s = Inr s'"
  then show ?thesis
    by (auto simp: withdraw_creator_fees_def Let_def result_iff not_le not_less get_creator_fee_balance_def)
next
  assume "withdraw_treasury_fees cx who token amount dest s = Inr s'"
  then show ?thesis
    by (auto simp: withdraw_treasury_fees_def Let_def result_iff not_le not_less get_treasury_fee_balance_def)
qed

definition credited_state :: "unit sas_state" where
  "credited_state = sample_state\<lparr>st_fees := fresh_fees\<lparr>creator_fees := (\<lambda>_. 30)\<rparr>\<rparr>"

theorem withdrawal_covered_witness:
  "\<exists>s'. withdraw_creator_fees sample_cx (Account 7) (Contract 50) 12 (Account 8) credited_state = Inr s' \<and>
     12 \<le> get_creator_fee_balance credited_state (Account 7) (Contract 50)"
proof -
  have "\<exists>s'. withdraw_creator_fees sample_cx (Account 7) (Contract 50) 12 (Account 8) credited_state = Inr s'"
    by (simp add: withdraw_creator_fees_def credited_state_def pay_out_def sample_cx_def
        sample_externs_def require_auth_def sample_env_def)
  then obtain s' where
    r: "withdraw_creator_fees sample_cx (Account 7) (Contract 50) 12 (Account 8) credited_state = Inr s'"
    by blast
  from withdrawal_covered [OF disjI1 [OF r]] r show ?thesis
    by (auto simp: credited_state_def get_creator_fee_balance_def get_treasury_fee_balance_def)
qed

section \<open>A fee is paid to the treasury twice\<close>

text \<open>
  With a treasury configured, a schema without a creator fee and a registry that reports no royalty,
  collecting a fee of 10 moves 10 from the attester to the treasury and then another 10 from the
  contract's own balance to the treasury, and records 10 as still owed to it. The transfers are
  logged in the world as payer, payee and amount.
\<close>

definition logging_externs :: "(address \<times> address \<times> int) list externs" where
  "logging_externs = \<lparr>
     x_sasreg_upper = (\<lambda>_ _ _. None), x_sasreg_lower = (\<lambda>_ _ _. Some True),
     x_get_schema = (\<lambda>_ _ _ _. Some (Some sample_schema)),
     x_is_schema_quarantined = (\<lambda>_ _ _ _. Some False), x_get_max_ttl = (\<lambda>_ _ _ _. Some 0),
     x_is_authorized = (\<lambda>_ _ _ _ _. Some True), x_is_attester_authorized = (\<lambda>_ _ _ _ _. Some True),
     x_is_schema_restricted = (\<lambda>_ _ _ _. Some False),
     x_get_schema_policy = (\<lambda>_ _ _ _. Some Permissive),
     x_get_creator = (\<lambda>_ _ _ _. Some (Some (Account 7))),
     x_get_creator_royalty = (\<lambda>_ _ _ _. Some 0),
     x_get_schema_frost_group = (\<lambda>_ _ _ _. Some None),
     x_on_attest = (\<lambda>_ _ _ w. Some w), x_on_revoke = (\<lambda>_ _ _ w. Some w),
     x_index_attestation = (\<lambda>_ _ _ _ _ _ _ w. Some w), x_set_valid_from = (\<lambda>_ _ _ _ w. Some w),
     x_handle_revoke = (\<lambda>_ _ _ w. Some w), x_handle_replace = (\<lambda>_ _ _ _ w. Some w),
     x_handle_renew = (\<lambda>_ _ _ _ w. None), x_verify_proof = (\<lambda>_ _ _ _ w. Some (True, w)),
     x_balance = (\<lambda>_ _ _ _. Some 100),
     x_transfer = (\<lambda>_ _ payer payee amount w. Some (w @ [(payer, payee, amount)]))\<rparr>"

definition logging_cx :: "(address \<times> address \<times> int) list ctx" where
  "logging_cx = \<lparr>hst = toy_host, ext = logging_externs, led = sample_env\<rparr>"

definition logging_state :: "(address \<times> address \<times> int) list sas_state" where
  "logging_state = (fresh_state [])\<lparr>
     st_config := fresh_config\<lparr>sas_admin := Some (Account 1), schema_registry := Some (Contract 3),
       treasury := Some (Account 9)\<rparr>,
     st_fees := fresh_fees\<lparr>fee_config := Some (Contract 50, 10)\<rparr>\<rparr>"

theorem treasury_paid_twice:
  "\<exists>s'. collect_fee logging_cx (sample_new 3) (Contract 50) 10 10 0 logging_state = Inr s' \<and>
     st_world s' = [(Account 7, Account 9, 10), (Contract 2, Account 9, 10)] \<and>
     get_treasury_fee_balance s' (Contract 50) = 10"
  by (simp add: collect_fee_def credit_creator_def distribute_attestation_fee_def logging_state_def
      logging_cx_def logging_externs_def sample_env_def sample_new_def fresh_state_def fresh_config_def
      fresh_fees_def checked_i128_def in_i128_def i128_min_def i128_max_def tdiv_def or_panic_def
      or_trap_def credit_treasury_def is_default_token_def get_treasury_fee_balance_def
      saturating_i128_def Let_def)


end
