(* ===== verification/Sas_Admin.thy ===== *)
theory Sas_Admin
  imports Samples
begin

text \<open>
  Administration of the SAS contract (\<^verbatim>\<open>contracts/sas/src/lib.rs\<close>): initialisation, the in-place upgrade,
  the two-step transfer of the admin role, the circuit breaker, the bindings to other contracts and
  the issuance quota.
\<close>

section \<open>Initialisation and upgrade\<close>

definition registry_compatible :: "'w ctx \<Rightarrow> address \<Rightarrow> 'w sas_state \<Rightarrow> bool" where
  "registry_compatible cx registry s =
     (let upper = (x_sasreg_upper (ext cx) (led cx) registry (st_world s) = Some True) in
      if upper then True else x_sasreg_lower (ext cx) (led cx) registry (st_world s) = Some True)"

definition init :: "'w ctx \<Rightarrow> address \<Rightarrow> address \<Rightarrow> 'w sas_state \<Rightarrow> 'w sas_state sas_result" where
  "init cx admin registry s =
     bind_r (reject_reentrant s) (\<lambda>_.
     if sas_admin (st_config s) \<noteq> None then Inl (Panic AlreadyInitialized)
     else
       bind_r (require_auth (led cx) admin) (\<lambda>_.
       if \<not> registry_compatible cx registry s then Inl (Panic IncompatibleDependency)
       else
         Inr (s\<lparr>st_config := (st_config s)\<lparr>sas_admin := Some admin,
                schema_registry := Some registry,
                sas_version := (case sas_version (st_config s) of None \<Rightarrow> Some 1 | v \<Rightarrow> v)\<rparr>\<rparr>)))"

definition get_version :: "'w sas_state \<Rightarrow> nat" where
  "get_version s = (case sas_version (st_config s) of Some v \<Rightarrow> v | None \<Rightarrow> 1)"

definition validate_upgrade :: "bytes32 \<Rightarrow> nat \<Rightarrow> 'w sas_state \<Rightarrow> address sas_result" where
  "validate_upgrade new_wasm_hash new_version s =
     bind_r (or_panic IncompatibleDependency (sas_admin (st_config s))) (\<lambda>admin.
     bind_r (or_panic IncompatibleDependency (schema_registry (st_config s))) (\<lambda>_.
     let old_version = (case sas_version (st_config s) of Some v \<Rightarrow> v | None \<Rightarrow> 1) in
     if new_version > MAX_KNOWN_VERSION then Inl (Panic IncompatibleDependency)
     else if new_version \<noteq> saturating_add_u32 old_version 1 then Inl (Panic InvalidValue)
     else if new_wasm_hash = 0 then Inl (Panic InvalidValue)
     else Inr admin))"

definition commit_upgrade :: "address \<Rightarrow> bytes32 \<Rightarrow> nat \<Rightarrow> 'w sas_state \<Rightarrow> 'w sas_state" where
  "commit_upgrade admin new_wasm_hash new_version s =
     (let old_wasm_hash = (case current_wasm_hash (st_config s) of Some h \<Rightarrow> h | None \<Rightarrow> 0) in
      emit (ContractUpgraded old_wasm_hash new_wasm_hash admin)
        (s\<lparr>st_config := (st_config s)\<lparr>sas_version := Some new_version,
             current_wasm_hash := Some new_wasm_hash\<rparr>\<rparr>))"

text \<open>The deployer call that follows replaces the code, not the state.\<close>

definition upgrade ::
  "ledger_env \<Rightarrow> bytes32 \<Rightarrow> nat \<Rightarrow> 'w sas_state \<Rightarrow> 'w sas_state sas_result" where
  "upgrade env new_wasm_hash new_version s =
     bind_r (reject_reentrant s) (\<lambda>_.
     bind_r (validate_upgrade new_wasm_hash new_version s) (\<lambda>layout_admin.
     bind_r (require_admin s) (\<lambda>admin.
     if admin \<noteq> layout_admin then Inl (Panic IncompatibleDependency)
     else
       bind_r (require_auth env admin) (\<lambda>_.
       Inr (commit_upgrade admin new_wasm_hash new_version s)))))"

section \<open>The admin role\<close>

definition admin_address :: "'w sas_state \<Rightarrow> address sas_result" where
  "admin_address s = require_admin s"

definition propose_admin :: "ledger_env \<Rightarrow> address \<Rightarrow> 'w sas_state \<Rightarrow> 'w sas_state sas_result" where
  "propose_admin env new_admin s =
     bind_r (reject_reentrant s) (\<lambda>_.
     bind_r (require_admin s) (\<lambda>current_admin.
     bind_r (require_auth env current_admin) (\<lambda>_.
     Inr (emit (AdminTransferProposed current_admin new_admin)
            (s\<lparr>st_config := (st_config s)\<lparr>pending_admin := Some new_admin\<rparr>\<rparr>)))))"

definition accept_admin :: "ledger_env \<Rightarrow> 'w sas_state \<Rightarrow> 'w sas_state sas_result" where
  "accept_admin env s =
     bind_r (reject_reentrant s) (\<lambda>_.
     bind_r (or_panic NotInitialized (pending_admin (st_config s))) (\<lambda>pending.
     bind_r (require_auth env pending) (\<lambda>_.
     bind_r (require_admin s) (\<lambda>old_admin.
     Inr (emit (AdminTransferCompleted old_admin pending)
            (s\<lparr>st_config := (st_config s)\<lparr>sas_admin := Some pending, pending_admin := None\<rparr>\<rparr>))))))"

section \<open>The circuit breaker\<close>

definition pause :: "ledger_env \<Rightarrow> 'w sas_state \<Rightarrow> 'w sas_state sas_result" where
  "pause env s =
     bind_r (reject_reentrant s) (\<lambda>_.
     bind_r (require_admin s) (\<lambda>admin.
     bind_r (require_auth env admin) (\<lambda>_.
     Inr (emit (ProtocolPausedEv admin (timestamp env)) (emit (ContractPausedEv admin)
            (s\<lparr>st_config := (st_config s)\<lparr>paused := True\<rparr>\<rparr>))))))"

definition unpause :: "ledger_env \<Rightarrow> 'w sas_state \<Rightarrow> 'w sas_state sas_result" where
  "unpause env s =
     bind_r (reject_reentrant s) (\<lambda>_.
     bind_r (require_admin s) (\<lambda>admin.
     bind_r (require_auth env admin) (\<lambda>_.
     Inr (emit (ProtocolUnpausedEv admin (timestamp env)) (emit (ContractUnpausedEv admin)
            (s\<lparr>st_config := (st_config s)\<lparr>paused := False\<rparr>\<rparr>))))))"

section \<open>Bindings and policies\<close>

definition set_indexer :: "ledger_env \<Rightarrow> address \<Rightarrow> 'w sas_state \<Rightarrow> 'w sas_state sas_result" where
  "set_indexer env ix s =
     bind_r (reject_reentrant s) (\<lambda>_.
     bind_r (require_admin s) (\<lambda>admin.
     bind_r (require_auth env admin) (\<lambda>_.
     Inr (emit (IndexerUpdated (indexer (st_config s)) ix admin)
            (s\<lparr>st_config := (st_config s)\<lparr>indexer := Some ix\<rparr>\<rparr>)))))"

definition set_treasury :: "ledger_env \<Rightarrow> address \<Rightarrow> 'w sas_state \<Rightarrow> 'w sas_state sas_result" where
  "set_treasury env treasury_addr s =
     bind_r (reject_reentrant s) (\<lambda>_.
     bind_r (require_admin s) (\<lambda>admin.
     bind_r (require_auth env admin) (\<lambda>_.
     Inr (s\<lparr>st_config := (st_config s)\<lparr>treasury := Some treasury_addr\<rparr>\<rparr>))))"

definition set_zk_verifier :: "ledger_env \<Rightarrow> address \<Rightarrow> 'w sas_state \<Rightarrow> 'w sas_state sas_result" where
  "set_zk_verifier env verifier s =
     bind_r (require_admin s) (\<lambda>admin.
     bind_r (require_auth env admin) (\<lambda>_.
     Inr (s\<lparr>st_config := (st_config s)\<lparr>zk_verifier := Some verifier\<rparr>\<rparr>)))"

definition set_indexer_strict :: "ledger_env \<Rightarrow> bool \<Rightarrow> 'w sas_state \<Rightarrow> 'w sas_state sas_result" where
  "set_indexer_strict env strict s =
     bind_r (reject_reentrant s) (\<lambda>_.
     bind_r (require_admin s) (\<lambda>admin.
     bind_r (require_auth env admin) (\<lambda>_.
     Inr (emit (IndexerStrictUpdated (indexer_strict (st_config s)) strict admin)
            (s\<lparr>st_config := (st_config s)\<lparr>indexer_strict := strict\<rparr>\<rparr>)))))"

definition set_auto_prune :: "ledger_env \<Rightarrow> bool \<Rightarrow> 'w sas_state \<Rightarrow> 'w sas_state sas_result" where
  "set_auto_prune env enabled s =
     bind_r (require_admin s) (\<lambda>admin.
     bind_r (require_auth env admin) (\<lambda>_.
     Inr (s\<lparr>st_config := (st_config s)\<lparr>auto_prune := enabled\<rparr>\<rparr>)))"

section \<open>The issuance quota\<close>

definition set_issuance_rate_limit ::
  "ledger_env \<Rightarrow> nat \<Rightarrow> nat \<Rightarrow> 'w sas_state \<Rightarrow> 'w sas_state sas_result" where
  "set_issuance_rate_limit env max_issuances window s =
     bind_r (reject_reentrant s) (\<lambda>_.
     bind_r (require_admin s) (\<lambda>admin.
     bind_r (require_auth env admin) (\<lambda>_.
     if max_issuances = 0 \<or> max_issuances > 100 \<or> window = 0 \<or> window > 10000
     then Inl (Panic InvalidValue)
     else Inr (s\<lparr>st_rate := (st_rate s)\<lparr>rate_limit_config := Some (max_issuances, window)\<rparr>\<rparr>))))"

definition clear_issuance_rate_limit :: "ledger_env \<Rightarrow> 'w sas_state \<Rightarrow> 'w sas_state sas_result" where
  "clear_issuance_rate_limit env s =
     bind_r (reject_reentrant s) (\<lambda>_.
     bind_r (require_admin s) (\<lambda>admin.
     bind_r (require_auth env admin) (\<lambda>_.
     Inr (s\<lparr>st_rate := (st_rate s)\<lparr>rate_limit_config := None\<rparr>\<rparr>))))"

definition set_rate_limit_exempt ::
  "ledger_env \<Rightarrow> address \<Rightarrow> bool \<Rightarrow> 'w sas_state \<Rightarrow> 'w sas_state sas_result" where
  "set_rate_limit_exempt env attester exempt s =
     bind_r (reject_reentrant s) (\<lambda>_.
     bind_r (require_admin s) (\<lambda>admin.
     bind_r (require_auth env admin) (\<lambda>_.
     Inr (s\<lparr>st_rate := (st_rate s)\<lparr>rate_exempt := (rate_exempt (st_rate s))(attester := exempt)\<rparr>\<rparr>))))"

section \<open>Effects\<close>

lemma init_effect:
  assumes "init cx admin registry s = Inr s'"
  shows "authorized (led cx) admin \<and> sas_admin (st_config s) = None \<and> registry_compatible cx registry s \<and>
    s' = s\<lparr>st_config := (st_config s)\<lparr>sas_admin := Some admin, schema_registry := Some registry,
           sas_version := Some (get_version s)\<rparr>\<rparr>"
  using assms by (auto simp: init_def result_iff get_version_def split: option.splits)

lemma upgrade_effect:
  assumes "upgrade env h v s = Inr s'"
  shows "\<exists>admin registry. sas_admin (st_config s) = Some admin \<and> authorized env admin \<and>
    schema_registry (st_config s) = Some registry \<and> h \<noteq> 0 \<and> v \<le> MAX_KNOWN_VERSION \<and>
    v = min u32_max (get_version s + 1) \<and> s' = commit_upgrade admin h v s"
  using assms
  by (auto simp: upgrade_def validate_upgrade_def Let_def result_iff get_version_def
      saturating_add_u32_def not_less)

lemma commit_upgrade_simps [simp]:
  "st_fees (commit_upgrade a h v s) = st_fees s" "st_keys (commit_upgrade a h v s) = st_keys s"
  "st_rate (commit_upgrade a h v s) = st_rate s" "st_guard (commit_upgrade a h v s) = st_guard s"
  "st_store (commit_upgrade a h v s) = st_store s" "st_world (commit_upgrade a h v s) = st_world s"
  "st_config (commit_upgrade a h v s) =
     (st_config s)\<lparr>sas_version := Some v, current_wasm_hash := Some h\<rparr>"
  by (simp_all add: commit_upgrade_def Let_def)

section \<open>Properties\<close>

text \<open>
  An upgrade moves one version forward under the admin's authority. When \<^verbatim>\<open>upgrade\<close> succeeds, the
  contract was initialised, the admin authorized it, the new version is the current one plus one and
  a known one, the code hash is not zero, and only the version and the code hash change.
\<close>

theorem upgrade_one_version:
  assumes "upgrade env h v s = Inr s'"
  shows "(\<exists>admin. sas_admin (st_config s) = Some admin \<and> authorized env admin) \<and> h \<noteq> 0 \<and>
    v = get_version s + 1 \<and> v \<le> 2 \<and> get_version s' = v \<and>
    st_config s' = (st_config s)\<lparr>sas_version := Some v, current_wasm_hash := Some h\<rparr> \<and>
    st_fees s' = st_fees s \<and> st_keys s' = st_keys s \<and> st_guard s' = st_guard s \<and>
    st_store s' = st_store s"
proof -
  from upgrade_effect [OF assms] obtain admin where e: "sas_admin (st_config s) = Some admin"
    "authorized env admin" "h \<noteq> 0" "v \<le> MAX_KNOWN_VERSION" "v = min u32_max (get_version s + 1)"
    "s' = commit_upgrade admin h v s"
    by blast
  then have "v = get_version s + 1"
    by (auto simp: MAX_KNOWN_VERSION_def u32_max_def min_def split: if_splits)
  with e show ?thesis
    by (simp add: MAX_KNOWN_VERSION_def get_version_def)
qed

theorem upgrade_one_version_witness:
  "\<exists>s'. upgrade sample_env 77 2 sample_state = Inr s' \<and> get_version s' = 2"
proof -
  have "\<exists>s'. upgrade sample_env 77 2 sample_state = Inr s'"
    by (simp add: upgrade_def validate_upgrade_def require_admin_def or_panic_def require_auth_def
        saturating_add_u32_def u32_max_def MAX_KNOWN_VERSION_def sample_defs)
      (simp add: reject_reentrant_def)
  then obtain s' where r: "upgrade sample_env 77 2 sample_state = Inr s'" by blast
  from upgrade_one_version [OF r] r show ?thesis by auto
qed


definition limited_state :: "unit sas_state" where
  "limited_state = sample_state\<lparr>st_rate := (st_rate sample_state)\<lparr>rate_limit_config := Some (2, 100),
     rate_history := (\<lambda>_. [45])\<rparr>\<rparr>"



end
