(* ===== verification/Sas_System.thy ===== *)
theory Sas_System
  imports Sas_Batch Sas_Fees Sas_Admin
begin

text \<open>
  The SAS contract as a state machine. A step is one successful call of one state-changing entry
  point (a failing call leaves no trace, since the host discards its writes); a run is a sequence of
  steps at non-decreasing ledgers, between which the other contracts may change. The theory shows
  that every step refines the store specification, and with it the invariants and histories of all
  reachable states.
\<close>

section \<open>Steps\<close>

inductive admin_step :: "'w ctx \<Rightarrow> 'w sas_state \<Rightarrow> 'w sas_state \<Rightarrow> bool" for cx where
  "init cx admin registry s = Inr s' \<Longrightarrow> admin_step cx s s'"
| "upgrade (led cx) h v s = Inr s' \<Longrightarrow> admin_step cx s s'"
| "propose_admin (led cx) new s = Inr s' \<Longrightarrow> admin_step cx s s'"
| "accept_admin (led cx) s = Inr s' \<Longrightarrow> admin_step cx s s'"
| "pause (led cx) s = Inr s' \<Longrightarrow> admin_step cx s s'"
| "unpause (led cx) s = Inr s' \<Longrightarrow> admin_step cx s s'"
| "set_indexer (led cx) ix s = Inr s' \<Longrightarrow> admin_step cx s s'"
| "set_treasury (led cx) t s = Inr s' \<Longrightarrow> admin_step cx s s'"
| "set_zk_verifier (led cx) z s = Inr s' \<Longrightarrow> admin_step cx s s'"
| "set_indexer_strict (led cx) b s = Inr s' \<Longrightarrow> admin_step cx s s'"
| "set_auto_prune (led cx) b s = Inr s' \<Longrightarrow> admin_step cx s s'"
| "set_issuance_rate_limit (led cx) m n s = Inr s' \<Longrightarrow> admin_step cx s s'"
| "clear_issuance_rate_limit (led cx) s = Inr s' \<Longrightarrow> admin_step cx s s'"
| "set_rate_limit_exempt (led cx) who b s = Inr s' \<Longrightarrow> admin_step cx s s'"

inductive fee_step :: "'w ctx \<Rightarrow> 'w sas_state \<Rightarrow> 'w sas_state \<Rightarrow> bool" for cx where
  "set_fee (led cx) token amount s = Inr s' \<Longrightarrow> fee_step cx s s'"
| "clear_fee (led cx) s = Inr s' \<Longrightarrow> fee_step cx s s'"
| "set_fee_per_byte (led cx) amount s = Inr s' \<Longrightarrow> fee_step cx s s'"
| "set_schema_zero_fee (led cx) suid b s = Inr s' \<Longrightarrow> fee_step cx s s'"
| "set_accepted_fee (led cx) token amount s = Inr s' \<Longrightarrow> fee_step cx s s'"
| "remove_accepted_fee (led cx) token s = Inr s' \<Longrightarrow> fee_step cx s s'"
| "set_fee_ceilings (led cx) amount n s = Inr s' \<Longrightarrow> fee_step cx s s'"
| "set_schema_fee cx suid who n amount m s = Inr s' \<Longrightarrow> fee_step cx s s'"
| "clear_schema_fee cx suid who s = Inr s' \<Longrightarrow> fee_step cx s s'"
| "withdraw_tokens cx who token amount dest s = Inr s' \<Longrightarrow> fee_step cx s s'"
| "withdraw_creator_fees cx who token amount dest s = Inr s' \<Longrightarrow> fee_step cx s s'"
| "withdraw_treasury_fees cx who token amount dest s = Inr s' \<Longrightarrow> fee_step cx s s'"

inductive key_step :: "'w ctx \<Rightarrow> 'w sas_state \<Rightarrow> 'w sas_state \<Rightarrow> bool" for cx where
  "register_attester_key (led cx) who pk s = Inr s' \<Longrightarrow> key_step cx s s'"
| "rotate_attester_key (led cx) who pk s = Inr s' \<Longrightarrow> key_step cx s s'"
| "revoke_attester_key (led cx) who s = Inr s' \<Longrightarrow> key_step cx s s'"
| "set_delegation_policy (led cx) who p s = Inr s' \<Longrightarrow> key_step cx s s'"
| "invalidate_nonces (led cx) who m n s = Inr s' \<Longrightarrow> key_step cx s s'"
| "set_nonce_highwater_mark (led cx) who n s = Inr s' \<Longrightarrow> key_step cx s s'"
| "invalidate_nonces_by_delegation cx who m n k sg pk s = Inr s' \<Longrightarrow> key_step cx s s'"

inductive issue_step :: "'w ctx \<Rightarrow> 'w sas_state \<Rightarrow> 'w sas_state \<Rightarrow> bool" for cx where
  "attest cx a s = Inr (u, s') \<Longrightarrow> issue_step cx s s'"
| "attest_by_delegation cx a n sg pk s = Inr (u, s') \<Longrightarrow> issue_step cx s s'"
| "attest_by_scoped_delegation cx a n sg pk auth s = Inr (u, s') \<Longrightarrow> issue_step cx s s'"
| "attest_with_zk cx a p nf s = Inr (u, s') \<Longrightarrow> issue_step cx s s'"
| "attest_with_value cx a token amount s = Inr (u, s') \<Longrightarrow> issue_step cx s s'"
| "multi_attest cx as s = Inr (us, s') \<Longrightarrow> issue_step cx s s'"
| "multi_attest_by_delegation cx as ns sgs pks s = Inr (us, s') \<Longrightarrow> issue_step cx s s'"
| "broadcast_attest_by_attester cx who suid rs d e r s = Inr (us, s') \<Longrightarrow> issue_step cx s s'"
| "broadcast_attest cx suid rs d e r s = Inr (us, s') \<Longrightarrow> issue_step cx s s'"

inductive change_step :: "'w ctx \<Rightarrow> 'w sas_state \<Rightarrow> 'w sas_state \<Rightarrow> bool" for cx where
  "revoke cx u s = Inr s' \<Longrightarrow> change_step cx s s'"
| "revoke_by_authorizer cx u who s = Inr s' \<Longrightarrow> change_step cx s s'"
| "revoke_by_delegate cx u who s = Inr s' \<Longrightarrow> change_step cx s s'"
| "revoke_by_delegation cx u n sg pk s = Inr s' \<Longrightarrow> change_step cx s s'"
| "multi_revoke cx us s = Inr s' \<Longrightarrow> change_step cx s s'"
| "multi_revoke_by_delegation cx us ns sgs pks s = Inr s' \<Longrightarrow> change_step cx s s'"
| "revoke_by_schema cx suid us who s = Inr s' \<Longrightarrow> change_step cx s s'"
| "replace_attestation cx u a s = Inr (v, s') \<Longrightarrow> change_step cx s s'"
| "replace_by_delegation_consent cx u a x y s = Inr (v, s') \<Longrightarrow> change_step cx s s'"
| "renew_attestation cx u e s = Inr (v, s') \<Longrightarrow> change_step cx s s'"

inductive upkeep_step :: "'w ctx \<Rightarrow> 'w sas_state \<Rightarrow> 'w sas_state \<Rightarrow> bool" for cx where
  "prune_expired (led cx) us s = Inr (n, s') \<Longrightarrow> upkeep_step cx s s'"
| "migrate_attestation u s = Inr (b, s') \<Longrightarrow> upkeep_step cx s s'"
| "migrate_attestations us s = Inr (n, s') \<Longrightarrow> upkeep_step cx s s'"
| "reindex_attestation cx u s = Inr s' \<Longrightarrow> upkeep_step cx s s'"
| "bulk_reindex cx us s = Inr (vs, s') \<Longrightarrow> upkeep_step cx s s'"

definition sas_step :: "'w ctx \<Rightarrow> 'w sas_state \<Rightarrow> 'w sas_state \<Rightarrow> bool" where
  "sas_step cx s s' \<longleftrightarrow> admin_step cx s s' \<or> fee_step cx s s' \<or> key_step cx s s' \<or> issue_step cx s s' \<or>
     change_step cx s s' \<or> upkeep_step cx s s'"

inductive sas_run ::
  "host \<Rightarrow> ledger_env \<Rightarrow> 'w sas_state \<Rightarrow> ledger_env \<Rightarrow> 'w sas_state \<Rightarrow> bool" for h e0 s0 where
  run_start: "sas_run h e0 s0 e0 s0"
| run_step: "sas_run h e0 s0 e s \<Longrightarrow> env_le e (led cx) \<Longrightarrow> hst cx = h \<Longrightarrow> sas_step cx s s' \<Longrightarrow>
    sas_run h e0 s0 (led cx) s'"
| run_world: "sas_run h e0 s0 e s \<Longrightarrow> sas_run h e0 s0 e (s\<lparr>st_world := w\<rparr>)"

section \<open>What each kind of step may change\<close>

lemma admin_step_frame:
  "admin_step cx s s' \<Longrightarrow> st_store s' = st_store s \<and> st_keys s' = st_keys s \<and> st_guard s' = st_guard s \<and>
   st_fees s' = st_fees s"
  by (erule admin_step.cases)
    (auto dest!: init_effect upgrade_effect simp: propose_admin_def accept_admin_def pause_def unpause_def
      set_indexer_def set_treasury_def set_zk_verifier_def set_indexer_strict_def set_auto_prune_def
      set_issuance_rate_limit_def clear_issuance_rate_limit_def set_rate_limit_exempt_def result_iff)

lemma fee_step_frame:
  "fee_step cx s s' \<Longrightarrow> st_store s' = st_store s \<and> st_keys s' = st_keys s \<and> st_guard s' = st_guard s \<and>
   st_config s' = st_config s"
  by (erule fee_step.cases)
    (auto simp: set_fee_def clear_fee_def set_fee_per_byte_def set_schema_zero_fee_def
      set_accepted_fee_def remove_accepted_fee_def set_fee_ceilings_def set_schema_fee_def
      clear_schema_fee_def withdraw_tokens_def withdraw_creator_fees_def withdraw_treasury_fees_def
      Let_def result_iff)

lemma key_step_frame:
  "key_step cx s s' \<Longrightarrow> st_store s' = st_store s \<and> st_guard s' = st_guard s \<and>
   st_config s' = st_config s \<and> st_fees s' = st_fees s"
  by (erule key_step.cases)
    (auto simp: register_attester_key_def rotate_attester_key_def revoke_attester_key_def
      set_delegation_policy_def invalidate_nonces_def set_nonce_highwater_mark_def set_key_def
      invalidate_nonces_by_delegation_def invalidate_nonces_internal_def Let_def result_iff)

text \<open>What issuing, changing and maintaining calls keep, and that they refine the store specification.\<close>

definition store_call :: "'w ctx \<Rightarrow> 'w sas_state \<Rightarrow> 'w sas_state \<Rightarrow> bool" where
  "store_call cx s s' \<longleftrightarrow> store_steps cx (st_store s) (st_store s') \<and> st_guard s' = st_guard s \<and>
     st_config s' = st_config s"

lemma internal_call:
  "attest_internal cx a s = Inr (u, s') \<Longrightarrow> store_call cx s s' \<and> st_keys s' = st_keys s \<and> st_fees s' = st_fees s"
  "revoke_internal cx u s = Inr s' \<Longrightarrow> store_call cx s s' \<and> st_keys s' = st_keys s \<and> st_fees s' = st_fees s"
  "replace_internal cx u a b s = Inr (v, s') \<Longrightarrow>
   store_call cx s s' \<and> st_keys s' = st_keys s \<and> st_fees s' = st_fees s"
  using attest_internal_refines [of cx a s u s'] revoke_internal_refines [of cx u s s']
    replace_internal_refines [of cx u a b s v s']
  by (auto simp: store_call_def same_frame_def)

lemma issued_all_call: "issued_all cx as s s' \<Longrightarrow> store_call cx s s' \<and> st_fees s' = st_fees s"
  by (simp add: issued_all_def store_call_def)

lemma revoked_all_call: "revoked_all cx us s s' \<Longrightarrow> store_call cx s s' \<and> st_fees s' = st_fees s"
  by (simp add: revoked_all_def store_call_def)

lemma multi_delegation_call:
  assumes "multi_attest_by_delegation cx as ns sgs pks s = Inr (us, s')"
  shows "\<exists>items. issued_all cx items s s'"
proof -
  from multi_attest_by_delegation_effect [OF assms] obtain s1 w s2 ev where
    s1: "enter_reentrancy_guard s = Inr s1"
    and loop: "multi_delegation_loop cx (zip as (zip ns (zip sgs pks))) [] [] s1 = Inr (us, w, s2)"
    and s': "s' = exit_reentrancy_guard (emit ev s2)"
    by blast
  from multi_delegation_loop_effect [OF loop] issued_all_guarded [OF s1] show ?thesis
    unfolding s' by blast
qed

lemma broadcast_attest_call:
  assumes "broadcast_attest cx suid rs d e r s = Inr (us, s')"
  shows "\<exists>who. broadcast_attest_by_attester cx who suid rs d e r s = Inr (us, s')"
  using assms by (auto simp: broadcast_attest_def Let_def result_iff)

lemma issue_step_call:
  assumes "issue_step cx s s'"
  shows "store_call cx s s' \<and> \<not> is_paused_status s"
  using assms
proof cases
  case (1 a u)
  then show ?thesis using attest_effect internal_call(1) by blast
next
  case (2 a n sg pk u)
  then obtain s1 where "admit_delegated cx a n sg pk s = Inr s1" "attest_internal cx a s1 = Inr (u, s')"
    "\<not> is_paused_status s"
    using attest_by_delegation_effect by blast
  then show ?thesis
    using internal_call(1) [of cx a s1 u s'] admit_delegated_effect [of cx a n sg pk s s1]
    by (simp add: store_call_def result_iff)
next
  case (3 a n sg pk auth u)
  then obtain s1 where "consume_delegation_nonce (a_attester a) n s = Inr s1"
    "attest_internal cx a s1 = Inr (u, s')" "\<not> is_paused_status s"
    using attest_by_scoped_delegation_effect by blast
  then show ?thesis
    using internal_call(1) [of cx a s1 u s'] by (simp add: store_call_def result_iff)
next
  case (4 a p nf u)
  then obtain w s1 where "attest_internal cx a (s\<lparr>st_world := w\<rparr>) = Inr (u, s1)" "\<not> is_paused_status s"
    "st_store s' = st_store s1" "st_guard s' = st_guard s1" "st_config s' = st_config s1"
    using attest_with_zk_effect by fastforce
  then show ?thesis
    using internal_call(1) [of cx a "s\<lparr>st_world := w\<rparr>" u s1] by (simp add: store_call_def)
next
  case (5 a token amount u)
  from attest_with_value_effect [OF 5] obtain base c s1 s2 ev where
    col: "collect_fee cx a token amount base c s = Inr s1"
    and int: "attest_internal cx a s1 = Inr (u, s2)" and "s' = emit ev s2" "\<not> is_paused_status s"
    by blast
  with collect_fee_effect [OF col] internal_call(1) [OF int] show ?thesis
    by (simp add: store_call_def)
next
  case (6 as us)
  then show ?thesis using multi_attest_effect issued_all_call by blast
next
  case (7 as ns sgs pks us)
  then show ?thesis using multi_delegation_call multi_attest_by_delegation_effect issued_all_call by blast
next
  case (8 who suid rs d e r us)
  then show ?thesis using broadcast_effect issued_all_call by blast
next
  case (9 suid rs d e r us)
  then obtain who where "broadcast_attest_by_attester cx who suid rs d e r s = Inr (us, s')"
    using broadcast_attest_call by blast
  from broadcast_effect [OF this] issued_all_call show ?thesis by blast
qed

lemma revoke_by_delegate_authorizer:
  "revoke_by_delegate cx u who s = Inr s' \<Longrightarrow> revoke_by_authorizer cx u who s = Inr s'"
  by (auto simp: revoke_by_delegate_def result_iff)

lemma change_step_call:
  assumes "change_step cx s s'"
  shows "store_call cx s s' \<and> \<not> is_paused_status s \<and> st_fees s' = st_fees s"
  using assms
proof cases
  case (1 u)
  then show ?thesis using revoke_effect internal_call(2) by blast
next
  case (2 u who)
  then show ?thesis using revoke_by_authorizer_effect internal_call(2) by blast
next
  case (3 u who)
  then show ?thesis
    using revoke_by_delegate_authorizer revoke_by_authorizer_effect internal_call(2) by blast
next
  case (4 u n sg pk)
  then obtain a s1 where "consume_delegation_nonce (a_attester (a :: attestation)) n s = Inr s1"
    "revoke_internal cx u s1 = Inr s'" "\<not> is_paused_status s"
    using revoke_by_delegation_effect by blast
  then show ?thesis
    using internal_call(2) [of cx u s1 s'] by (simp add: store_call_def result_iff)
next
  case (5 us)
  then show ?thesis using multi_revoke_effect revoked_all_call by blast
next
  case (6 us ns sgs pks)
  then show ?thesis using multi_revoke_by_delegation_effect revoked_all_call by blast
next
  case (7 suid us who)
  then show ?thesis using revoke_by_schema_effect revoked_all_call by blast
next
  case (8 u a v)
  then show ?thesis using replace_attestation_effect internal_call(3) by blast
next
  case (9 u a x y v)
  then obtain old s1 s2 where "consume_delegation_nonce (a_attester (old :: attestation)) (ra_nonce x) s = Inr s1"
    "consume_recipient_consent_nonce (a_recipient old) (ra_nonce y) s1 = Inr s2"
    "replace_internal cx u a old s2 = Inr (v, s')" "\<not> is_paused_status s"
    using replace_by_delegation_consent_effect by blast
  then show ?thesis
    using internal_call(3) [of cx u a old s2 v s'] by (simp add: store_call_def result_iff)
next
  case (10 u e v)
  from renew_effect [OF 10] renew_attestation_steps [OF 10] show ?thesis
    by (auto simp: store_call_def)
qed

lemma reindex_frame: "bulk_reindex cx us s = Inr (vs, s') \<Longrightarrow> st_store s' = st_store s \<and> same_frame s s'"
proof -
  assume "bulk_reindex cx us s = Inr (vs, s')"
  then obtain ix where s': "s' = snd (reindex_loop cx ix us [] s)"
    by (auto simp: bulk_reindex_def result_iff) (metis snd_conv)+
  from reindex_loop_frame [of cx ix us "[]" s] show ?thesis
    unfolding s' by (auto simp: same_frame_def)
qed

lemma migrate_attestation_frame: "migrate_attestation u s = Inr (b, s') \<Longrightarrow> same_frame s s'"
  by (auto simp: migrate_attestation_def result_iff same_frame_def split: option.splits stored_value.splits)

lemma migrate_loop_frame: "migrate_loop us n s = Inr (m, s') \<Longrightarrow> same_frame s s'"
proof (induction us arbitrary: n s)
  case (Cons u us)
  then show ?case
    by (auto simp: result_iff dest!: migrate_attestation_frame Cons.IH intro: same_frame_trans)
qed simp

lemma prune_expired_loop:
  "prune_expired (led cx) us s = Inr (n, s') \<Longrightarrow>
   auto_prune (st_config s) \<and> prune_loop (led cx) us 0 s = Inr (n, s')"
  by (auto simp: prune_expired_def split: if_splits)

lemma upkeep_step_call:
  assumes "upkeep_step cx s s'"
  shows "store_call cx s s' \<and> same_frame s s'"
  using assms
proof cases
  case (1 us n)
  then have "prune_loop (led cx) us 0 s = Inr (n, s')" using prune_expired_loop by blast
  from prune_loop_effect [OF this] show ?thesis by (simp add: store_call_def same_frame_def)
next
  case (2 u b)
  from migrate_attestation_steps [OF 2] migrate_attestation_frame [OF 2] show ?thesis
    by (simp add: store_call_def same_frame_def)
next
  case (3 us n)
  then have "migrate_loop us 0 s = Inr (n, s')" by (auto simp: migrate_attestations_def result_iff)
  from migrate_loop_frame [OF this] migrate_attestations_steps [OF 3] show ?thesis
    by (simp add: store_call_def same_frame_def)
next
  case (4 u)
  from reindex_attestation_frame [OF 4] show ?thesis
    by (auto simp: store_call_def same_frame_def)
next
  case (5 us vs)
  from reindex_frame [OF 5] show ?thesis
    by (simp add: store_call_def same_frame_def)
qed

text \<open>Every step refines the store specification and leaves the guards as it found them.\<close>

lemma sas_step_refines:
  assumes "sas_step cx s s'"
  shows "store_steps cx (st_store s) (st_store s') \<and> st_guard s' = st_guard s"
proof -
  from assms consider "admin_step cx s s'" | "fee_step cx s s'" | "key_step cx s s'" |
    "issue_step cx s s'" | "change_step cx s s'" | "upkeep_step cx s s'"
    unfolding sas_step_def by blast
  then show ?thesis
  proof cases
    case 1
    from admin_step_frame [OF this] show ?thesis by simp
  next
    case 2
    from fee_step_frame [OF this] show ?thesis by simp
  next
    case 3
    from key_step_frame [OF this] show ?thesis by simp
  next
    case 4
    from issue_step_call [OF this] show ?thesis by (simp add: store_call_def)
  next
    case 5
    from change_step_call [OF this] show ?thesis by (simp add: store_call_def)
  next
    case 6
    from upkeep_step_call [OF this] show ?thesis by (simp add: store_call_def)
  qed
qed

section \<open>Replay protection over time\<close>

definition marks_grow :: "(address \<rightharpoonup> u64) \<Rightarrow> (address \<rightharpoonup> u64) \<Rightarrow> bool" where
  "marks_grow f g \<longleftrightarrow> (\<forall>who m. f who = Some m \<longrightarrow> (\<exists>n. g who = Some n \<and> m \<le> n))"

lemma marks_grow_refl [simp]: "marks_grow f f"
  by (simp add: marks_grow_def)

lemma marks_grow_trans: "marks_grow f g \<Longrightarrow> marks_grow g k \<Longrightarrow> marks_grow f k"
  unfolding marks_grow_def by (meson order_trans)

lemma marks_grow_set: "(\<forall>m. f who = Some m \<longrightarrow> m < n) \<Longrightarrow> marks_grow f (f(who \<mapsto> n))"
  by (auto simp: marks_grow_def)

definition keys_grow :: "key_state \<Rightarrow> key_state \<Rightarrow> bool" where
  "keys_grow k k' \<longleftrightarrow> marks_grow (delegation_nonces k) (delegation_nonces k') \<and>
     marks_grow (consent_nonces k) (consent_nonces k') \<and>
     (\<forall>x. zk_nullifiers k x \<longrightarrow> zk_nullifiers k' x)"

lemma keys_grow_refl [simp]: "keys_grow k k"
  by (simp add: keys_grow_def)

lemma keys_grow_trans: "keys_grow a b \<Longrightarrow> keys_grow b c \<Longrightarrow> keys_grow a c"
  unfolding keys_grow_def using marks_grow_trans by blast

lemma consume_grows:
  "consume_delegation_nonce who n s = Inr s' \<Longrightarrow> keys_grow (st_keys s) (st_keys s')"
  "consume_recipient_consent_nonce who n s = Inr s' \<Longrightarrow> keys_grow (st_keys s) (st_keys s')"
  by (simp_all add: result_iff keys_grow_def marks_grow_set set_delegation_nonce_def)

lemma invalidate_grows:
  "invalidate_nonces_internal who m n s = Inr s' \<Longrightarrow> keys_grow (st_keys s) (st_keys s')"
  by (auto simp: invalidate_nonces_internal_def get_nonce_highwater_mark_def set_delegation_nonce_def
      keys_grow_def emit_def intro!: marks_grow_set split: if_splits option.splits)

lemma consume_and_revoke_grows:
  assumes "consume_and_revoke cx item s = Inr s'"
  shows "keys_grow (st_keys s) (st_keys s')"
proof -
  from assms obtain a :: attestation and s1 where
    con: "consume_delegation_nonce (a_attester a) (snd item) s = Inr s1"
    and int: "revoke_internal cx (fst item) s1 = Inr s'"
    by (auto simp: consume_and_revoke_def bind_r_Inr_iff)
  from consume_grows(1) [OF con] internal_call(2) [OF int] show ?thesis by simp
qed

lemma delegated_item_grows:
  assumes "delegated_item cx item s = Inr s'"
  shows "keys_grow (st_keys s) (st_keys s')"
proof -
  obtain a n sg pk where item: "item = (a, n, sg, pk)" by (cases item)
  from assms obtain s1 u where adm: "admit_delegated cx a n sg pk s = Inr s1"
    and int: "attest_internal cx a s1 = Inr (u, s')"
    by (auto simp: delegated_item_def item bind_r_Inr_iff)
  from admit_delegated_effect [OF adm] consume_grows(1) internal_call(1) [OF int] show ?thesis by metis
qed

lemma multi_delegation_grows:
  assumes "multi_attest_by_delegation cx as ns sgs pks s = Inr (us, s')"
  shows "keys_grow (st_keys s) (st_keys s')"
proof -
  from multi_attest_by_delegation_effect [OF assms] obtain s1 w s2 ev where
    s1: "enter_reentrancy_guard s = Inr s1"
    and loop: "multi_delegation_loop cx (zip as (zip ns (zip sgs pks))) [] [] s1 = Inr (us, w, s2)"
    and s': "s' = exit_reentrancy_guard (emit ev s2)"
    by blast
  have "keys_grow (st_keys s1) (st_keys s2)"
    by (rule fold_r_invariant [OF multi_delegation_loop_run [OF loop]])
      (auto intro: keys_grow_trans delegated_item_grows)
  moreover have "st_keys s1 = st_keys s" "st_keys s' = st_keys s2"
    using s1 by (auto simp: s' enter_reentrancy_guard_def exit_reentrancy_guard_def result_iff)
  ultimately show ?thesis by simp
qed

lemma multi_revocation_grows:
  assumes "multi_revoke_by_delegation cx us ns sgs pks s = Inr s'"
  shows "keys_grow (st_keys s) (st_keys s')"
proof -
  from assms obtain who s1 where rev: "fold_r (consume_and_revoke cx) (zip us ns) s = Inr s1"
    and s': "s' = emit (BatchRevoked (length us) (length (who :: address list))) s1"
    by (auto simp: multi_revoke_by_delegation_def Let_def result_iff split: if_splits)
  have "keys_grow (st_keys s) (st_keys s1)"
    by (rule fold_r_invariant [OF rev]) (auto intro: keys_grow_trans consume_and_revoke_grows)
  then show ?thesis by (simp add: s')
qed

lemmas key_registration_defs = register_attester_key_def rotate_attester_key_def
  revoke_attester_key_def set_delegation_policy_def set_key_def keys_grow_def Let_def

lemma key_step_grows:
  assumes "key_step cx s s'"
  shows "keys_grow (st_keys s) (st_keys s')"
  using assms
proof cases
  case (5 who m n)
  then show ?thesis using invalidate_grows by (fastforce simp: invalidate_nonces_def result_iff)
next
  case (6 who n)
  then show ?thesis
    using invalidate_grows by (fastforce simp: set_nonce_highwater_mark_def Let_def result_iff)
next
  case (7 who m n k sg pk)
  then obtain s1 where "consume_delegation_nonce who k s = Inr s1"
    "invalidate_nonces_internal who m n s1 = Inr s'"
    by (auto simp: invalidate_nonces_by_delegation_def Let_def bind_r_Inr_iff split: if_splits)
  then show ?thesis using consume_grows(1) invalidate_grows keys_grow_trans by blast
qed (auto simp: key_registration_defs result_iff)

lemma issue_step_grows:
  assumes "issue_step cx s s'"
  shows "keys_grow (st_keys s) (st_keys s')"
  using assms
proof cases
  case (1 a u)
  then show ?thesis using attest_effect internal_call(1) by fastforce
next
  case (2 a n sg pk u)
  then obtain s1 where "admit_delegated cx a n sg pk s = Inr s1" "attest_internal cx a s1 = Inr (u, s')"
    using attest_by_delegation_effect by blast
  then have "delegated_item cx (a, n, sg, pk) s = Inr s'" by (simp add: delegated_item_def)
  then show ?thesis by (rule delegated_item_grows)
next
  case (3 a n sg pk auth u)
  then obtain s1 where con: "consume_delegation_nonce (a_attester a) n s = Inr s1"
    and int: "attest_internal cx a s1 = Inr (u, s')"
    using attest_by_scoped_delegation_effect by blast
  from consume_grows(1) [OF con] internal_call(1) [OF int] show ?thesis by simp
next
  case (4 a p nf u)
  then obtain w s1 where int: "attest_internal cx a (s\<lparr>st_world := w\<rparr>) = Inr (u, s1)"
    and "st_keys s' = (st_keys s1)\<lparr>zk_nullifiers := (zk_nullifiers (st_keys s1))(nf := True)\<rparr>"
    using attest_with_zk_effect by fastforce
  with internal_call(1) [OF int] show ?thesis by (simp add: keys_grow_def)
next
  case (5 a token amount u)
  from attest_with_value_effect [OF 5] obtain base c s1 s2 ev where
    col: "collect_fee cx a token amount base c s = Inr s1"
    and int: "attest_internal cx a s1 = Inr (u, s2)" and "s' = emit ev s2"
    by blast
  with collect_fee_effect [OF col] internal_call(1) [OF int] show ?thesis by simp
next
  case (6 as us)
  from multi_attest_effect [OF 6] show ?thesis by simp
next
  case (7 as ns sgs pks us)
  then show ?thesis by (rule multi_delegation_grows)
next
  case (8 who suid rs d e r us)
  from broadcast_effect [OF 8] show ?thesis by simp
next
  case (9 suid rs d e r us)
  then obtain who where "broadcast_attest_by_attester cx who suid rs d e r s = Inr (us, s')"
    using broadcast_attest_call by blast
  from broadcast_effect [OF this] show ?thesis by simp
qed

lemma change_step_grows:
  assumes "change_step cx s s'"
  shows "keys_grow (st_keys s) (st_keys s')"
  using assms
proof cases
  case (1 u)
  with revoke_effect have "revoke_internal cx u s = Inr s'" by blast
  from internal_call(2) [OF this] show ?thesis by simp
next
  case (2 u who)
  with revoke_by_authorizer_effect have "revoke_internal cx u s = Inr s'" by blast
  from internal_call(2) [OF this] show ?thesis by simp
next
  case (3 u who)
  with revoke_by_delegate_authorizer revoke_by_authorizer_effect have "revoke_internal cx u s = Inr s'"
    by blast
  from internal_call(2) [OF this] show ?thesis by simp
next
  case (4 u n sg pk)
  then obtain a s1 where con: "consume_delegation_nonce (a_attester (a :: attestation)) n s = Inr s1"
    and int: "revoke_internal cx u s1 = Inr s'"
    using revoke_by_delegation_effect by blast
  from consume_grows(1) [OF con] internal_call(2) [OF int] show ?thesis by simp
next
  case (5 us)
  from multi_revoke_effect [OF 5] show ?thesis by simp
next
  case (6 us ns sgs pks)
  then show ?thesis by (rule multi_revocation_grows)
next
  case (7 suid us who)
  from revoke_by_schema_effect [OF 7] show ?thesis by simp
next
  case (8 u a v)
  then obtain old where "replace_internal cx u a old s = Inr (v, s')"
    using replace_attestation_effect by blast
  from internal_call(3) [OF this] show ?thesis by simp
next
  case (9 u a x y v)
  then obtain old s1 s2 where
    c1: "consume_delegation_nonce (a_attester (old :: attestation)) (ra_nonce x) s = Inr s1"
    and c2: "consume_recipient_consent_nonce (a_recipient old) (ra_nonce y) s1 = Inr s2"
    and int: "replace_internal cx u a old s2 = Inr (v, s')"
    using replace_by_delegation_consent_effect by blast
  from keys_grow_trans [OF consume_grows(1) [OF c1] consume_grows(2) [OF c2]] internal_call(3) [OF int]
  show ?thesis by simp
next
  case (10 u e v)
  from renew_effect [OF 10] show ?thesis by auto
qed

lemma sas_step_grows:
  assumes "sas_step cx s s'"
  shows "keys_grow (st_keys s) (st_keys s')"
proof -
  from assms consider "admin_step cx s s'" | "fee_step cx s s'" | "key_step cx s s'" |
    "issue_step cx s s'" | "change_step cx s s'" | "upkeep_step cx s s'"
    unfolding sas_step_def by blast
  then show ?thesis
  proof cases
    case 1
    from admin_step_frame [OF this] show ?thesis by simp
  next
    case 2
    from fee_step_frame [OF this] show ?thesis by simp
  next
    case 3
    then show ?thesis by (rule key_step_grows)
  next
    case 4
    then show ?thesis by (rule issue_step_grows)
  next
    case 5
    then show ?thesis by (rule change_step_grows)
  next
    case 6
    from upkeep_step_call [OF this] show ?thesis by (simp add: same_frame_def)
  qed
qed

section \<open>Balances\<close>

definition balances_ok :: "fee_state \<Rightarrow> bool" where
  "balances_ok f \<longleftrightarrow> (\<forall>t. 0 \<le> treasury_fees f t) \<and> (\<forall>k. 0 \<le> creator_fees f k)"

lemma credited_nonneg: "0 \<le> b \<Longrightarrow> 0 \<le> credited b x"
  by (auto simp: credited_def saturating_i128_def i128_max_def i128_min_def)

lemma fee_step_balances: "fee_step cx s s' \<Longrightarrow> balances_ok (st_fees s) \<Longrightarrow> balances_ok (st_fees s')"
  by (erule fee_step.cases)
    (auto simp: set_fee_def clear_fee_def set_fee_per_byte_def set_schema_zero_fee_def
      set_accepted_fee_def remove_accepted_fee_def set_fee_ceilings_def set_schema_fee_def
      clear_schema_fee_def withdraw_tokens_def withdraw_creator_fees_def withdraw_treasury_fees_def
      balances_ok_def Let_def result_iff not_less)

lemma issue_step_balances:
  assumes "issue_step cx s s'" and ok: "balances_ok (st_fees s)"
  shows "balances_ok (st_fees s')"
  using assms(1)
proof cases
  case (1 a u)
  then show ?thesis using attest_effect internal_call(1) ok by fastforce
next
  case (2 a n sg pk u)
  then obtain s1 where "admit_delegated cx a n sg pk s = Inr s1" "attest_internal cx a s1 = Inr (u, s')"
    using attest_by_delegation_effect by blast
  then show ?thesis
    using internal_call(1) [of cx a s1 u s'] admit_delegated_effect [of cx a n sg pk s s1] ok
    by (simp add: result_iff)
next
  case (3 a n sg pk auth u)
  then obtain s1 where "consume_delegation_nonce (a_attester a) n s = Inr s1"
    "attest_internal cx a s1 = Inr (u, s')"
    using attest_by_scoped_delegation_effect by blast
  then show ?thesis using internal_call(1) [of cx a s1 u s'] ok by (simp add: result_iff)
next
  case (4 a p nf u)
  then obtain w s1 where "attest_internal cx a (s\<lparr>st_world := w\<rparr>) = Inr (u, s1)" "st_fees s' = st_fees s1"
    using attest_with_zk_effect by fastforce
  then show ?thesis using internal_call(1) [of cx a "s\<lparr>st_world := w\<rparr>" u s1] ok by simp
next
  case (5 a token amount u)
  from attest_with_value_effect [OF 5] obtain base c s1 s2 ev where
    col: "collect_fee cx a token amount base c s = Inr s1"
    and int: "attest_internal cx a s1 = Inr (u, s2)" and s': "s' = emit ev s2"
    by blast
  have "balances_ok (st_fees s1)"
    using collect_fee_effect [OF col] ok
    by (cases "amount > 0") (auto simp: balances_ok_def credited_nonneg)
  with internal_call(1) [OF int] s' show ?thesis by simp
next
  case (6 as us)
  then show ?thesis using multi_attest_effect issued_all_call ok by metis
next
  case (7 as ns sgs pks us)
  then show ?thesis using multi_delegation_call issued_all_call ok by metis
next
  case (8 who suid rs d e r us)
  then show ?thesis using broadcast_effect issued_all_call ok by metis
next
  case (9 suid rs d e r us)
  then show ?thesis using broadcast_attest_call broadcast_effect issued_all_call ok by metis
qed

lemma sas_step_balances:
  assumes "sas_step cx s s'" and ok: "balances_ok (st_fees s)"
  shows "balances_ok (st_fees s')"
proof -
  from assms(1) consider "admin_step cx s s'" | "fee_step cx s s'" | "key_step cx s s'" |
    "issue_step cx s s'" | "change_step cx s s'" | "upkeep_step cx s s'"
    unfolding sas_step_def by blast
  then show ?thesis
  proof cases
    case 1
    from admin_step_frame [OF this] ok show ?thesis by simp
  next
    case 2
    then show ?thesis using fee_step_balances ok by blast
  next
    case 3
    from key_step_frame [OF this] ok show ?thesis by simp
  next
    case 4
    then show ?thesis using issue_step_balances ok by blast
  next
    case 5
    from change_step_call [OF this] ok show ?thesis by simp
  next
    case 6
    from upkeep_step_call [OF this] ok show ?thesis by (simp add: same_frame_def)
  qed
qed

section \<open>Maintenance while paused\<close>

lemma migrate_attestation_view:
  "migrate_attestation u s = Inr (b, s') \<Longrightarrow> store_wf (st_store s) \<Longrightarrow>
   read_attestation (st_store s') = read_attestation (st_store s) \<and> store_wf (st_store s')"
  by (auto simp: migrate_attestation_def result_iff read_migrate_record fun_eq_iff store_wf_migrate
      split: option.splits stored_value.splits)

lemma migrate_loop_reads:
  "migrate_loop us n s = Inr (m, s') \<Longrightarrow> store_wf (st_store s) \<Longrightarrow>
   read_attestation (st_store s') = read_attestation (st_store s)"
proof (induction us arbitrary: n s)
  case (Cons u us)
  from Cons.prems(1) obtain b s1 k where "migrate_attestation u s = Inr (b, s1)"
    "migrate_loop us k s1 = Inr (m, s')"
    by (auto simp: bind_r_Inr_iff)
  with Cons.IH migrate_attestation_view [of u s b s1] Cons.prems(2) show ?case by simp
qed simp

lemma upkeep_step_view:
  assumes "upkeep_step cx s s'" and wf: "store_wf (st_store s)"
  shows "read_attestation (st_store s') u = read_attestation (st_store s) u \<or>
    auto_prune (st_config s) \<and> read_attestation (st_store s') u = None \<and>
    (\<exists>a. read_attestation (st_store s) u = Some a \<and> \<not> live_at (led cx) a)"
  using assms(1)
proof cases
  case (1 us n)
  then have "prune_loop (led cx) us 0 s = Inr (n, s')" "auto_prune (st_config s)"
    using prune_expired_loop by blast+
  with prune_loop_effect [of cx us 0 s n s'] show ?thesis
    by (auto simp: expired_in_def split: option.splits)
next
  case (2 u b)
  from migrate_attestation_view [OF 2 wf] show ?thesis by simp
next
  case (3 us n)
  then have "migrate_loop us 0 s = Inr (n, s')" by (auto simp: migrate_attestations_def result_iff)
  from migrate_loop_reads [OF this wf] show ?thesis by simp
next
  case (4 u)
  from reindex_attestation_frame [OF 4] show ?thesis by auto
next
  case (5 us vs)
  from reindex_frame [OF 5] show ?thesis by simp
qed

section \<open>Runs\<close>

lemma live_earlier: "live_at env' a \<Longrightarrow> env_le env env' \<Longrightarrow> live_at env a"
  by (auto simp: live_at_def env_le_def)

lemma env_le_refl [simp]: "env_le env env"
  by (simp add: env_le_def)

lemma env_le_trans: "env_le a b \<Longrightarrow> env_le b c \<Longrightarrow> env_le a c"
  by (auto simp: env_le_def)

lemma run_keys_grow: "sas_run h e0 s0 e s \<Longrightarrow> keys_grow (st_keys s0) (st_keys s)"
  by (induction rule: sas_run.induct) (auto intro: keys_grow_trans sas_step_grows)

lemma run_inv:
  assumes "sas_run h e0 s0 e s" and "store_inv h e0 (st_store s0)" and "balances_ok (st_fees s0)"
  shows "store_inv h e (st_store s) \<and> balances_ok (st_fees s) \<and> st_guard s = st_guard s0"
  using assms(1)
proof (induction rule: sas_run.induct)
  case (run_step e s cx s')
  then have "store_inv (hst cx) (led cx) (st_store s)" using store_inv_later by blast
  with sas_step_refines [OF run_step.hyps(4)] store_steps_inv [of cx "st_store s" "st_store s'"]
    sas_step_balances [OF run_step.hyps(4)] run_step show ?case by simp
qed (use assms in simp_all)

lemma run_later:
  assumes "sas_run h e0 s0 e s" and wf: "store_wf (st_store s0)"
    and a: "read_attestation (st_store s0) u = Some a" and "live_at e a"
  shows "store_wf (st_store s) \<and> (\<exists>b. read_attestation (st_store s) u = Some b \<and> later_version a b)"
  using assms(1,4)
proof (induction rule: sas_run.induct)
  case (run_step e s cx s')
  then have "live_at e a" using live_earlier by blast
  with run_step.IH obtain b where b: "store_wf (st_store s)" "read_attestation (st_store s) u = Some b"
    "later_version a b" by blast
  have steps: "store_steps cx (st_store s) (st_store s')" using sas_step_refines run_step.hyps(4) by blast
  with store_steps_later [OF steps b(1,2) later_live [OF b(3) run_step.prems]] store_steps_wf [OF steps b(1)]
    later_version_trans [OF b(3)] show ?case by blast
qed (use wf a in auto)

text \<open>A concrete run: the contract is deployed, initialised, and one attestation is issued.\<close>

definition deployed_state :: "unit sas_state" where
  "deployed_state = sample_state\<lparr>st_config := (st_config sample_state)\<lparr>sas_version := Some 1\<rparr>\<rparr>"

lemma sample_deployment: "init sample_cx (Account 1) (Contract 3) (fresh_state ()) = Inr deployed_state"
  by (simp add: init_def result_iff sample_defs require_auth_def registry_compatible_def deployed_state_def)

lemma deployed_attest: "\<exists>u s'. attest sample_cx (sample_new 3) deployed_state = Inr (u, s')"
proof -
  have "issuance_ok sample_cx (sample_new 3) deployed_state"
    using sample_issuance_ok by (simp add: issuance_ok_def deployed_state_def)
  then have "\<exists>s'. attest_internal sample_cx (sample_new 3) deployed_state = Inr (a_uid (sample_new 3), s')"
    by (rule attest_internal_succeeds) (simp_all add: deployed_state_def sample_defs u32_max_def)
  then show ?thesis
    by (auto simp: attest_def result_iff require_unpaid_allowed_def reject_reentrant_def
        require_auth_def is_paused_status_def sample_defs deployed_state_def)
qed

lemma deployment_run: "sas_run toy_host sample_env (fresh_state ()) sample_env deployed_state"
proof -
  have "sas_step sample_cx (fresh_state ()) deployed_state"
    unfolding sas_step_def using admin_step.intros(1) [OF sample_deployment] by blast
  from run_step [OF run_start _ _ this] show ?thesis by (simp add: sample_cx_def)
qed

lemma sample_run:
  assumes "sas_run toy_host e0 s0 sample_env s" and "sas_step sample_cx s s'"
  shows "sas_run toy_host e0 s0 sample_env s'"
  using run_step [OF assms(1) _ _ assms(2)] by (simp add: sample_cx_def)

section \<open>Properties\<close>

text \<open>
  C3: In every state that a deployed contract can reach, by any sequence of calls of any of its entry
  points, at any ledgers of non-decreasing time and whatever the other contracts do in between: the
  reentrancy guard and the call depth are released; no fee balance is negative; every stored record
  lies under its own UID, which is the content hash of its payload; its issuance is anchored at its
  issuance time, which is not in the future; an anchored revocation is not earlier than the issuance
  and is the one that the record shows; and a UID without a record has no anchors.
\<close>

theorem reachable_invariant:
  assumes "sas_run h e0 (fresh_state w) e s"
  shows "\<not> reentrancy_guard (st_guard s) \<and> call_depth (st_guard s) = 0 \<and>
    0 \<le> get_treasury_fee_balance s t \<and> 0 \<le> get_creator_fee_balance s c t \<and>
    (case get_attestation s u of
       None \<Rightarrow> get_issuance_timestamp s u = None \<and> get_revocation_timestamp s u = None
     | Some a \<Rightarrow> a_uid a = u \<and>
         u = attestation_uid h (a_schema_uid a) (a_recipient a) (a_attester a) (a_data a) \<and>
         a_time a \<le> timestamp e \<and>
         (\<exists>i. get_issuance_timestamp s u = Some i \<and> ta_ledger_timestamp i = a_time a \<and>
           (\<forall>r. get_revocation_timestamp s u = Some r \<longrightarrow>
              anchor_le i r \<and> a_revocation_time a = ta_ledger_timestamp r)))"
proof -
  have "store_inv h e0 (st_store (fresh_state w))" "balances_ok (st_fees (fresh_state w))"
    by (simp_all add: fresh_state_def fresh_fees_def balances_ok_def store_inv_empty)
  from run_inv [OF assms this] have inv: "store_inv h e (st_store s)" "balances_ok (st_fees s)"
    "st_guard s = st_guard (fresh_state w)"
    by auto
  have anch: "ta_ledger_timestamp i \<le> timestamp e" if "anchors (st_store s) k = Some i" for k i
  proof -
    from inv(1) that have "anchor_le i (anchor_now e)" unfolding store_inv_def by blast
    then show ?thesis by (simp add: anchor_le_def anchor_now_def)
  qed
  show ?thesis
  proof (cases "get_attestation s u")
    case None
    with inv show ?thesis
      by (auto simp: store_inv_def get_attestation_def get_issuance_timestamp_def read_anchor_def
          get_revocation_timestamp_def get_treasury_fee_balance_def get_creator_fee_balance_def
          balances_ok_def fresh_state_def)
  next
    case (Some a)
    then have a: "read_attestation (st_store s) u = Some a" by (simp add: get_attestation_def)
    with inv(1) have "record_anchored (st_store s) u a" "content_addressed h a" "a_uid a = u"
      by (auto simp: store_inv_def intro: store.read_uid)
    moreover from this(1) anch have "a_time a \<le> timestamp e" unfolding record_anchored_def by metis
    ultimately show ?thesis
      using inv(2,3) Some
      by (auto simp: record_anchored_def content_addressed_def get_issuance_timestamp_def read_anchor_def
          get_revocation_timestamp_def get_treasury_fee_balance_def get_creator_fee_balance_def
          balances_ok_def fresh_state_def)
  qed
qed

theorem reachable_invariant_witness:
  "\<exists>u s a. attest sample_cx (sample_new 3) deployed_state = Inr (u, s) \<and>
     get_attestation s u = Some a \<and> a_uid a = u \<and> \<not> reentrancy_guard (st_guard s)"
proof -
  obtain u s where at: "attest sample_cx (sample_new 3) deployed_state = Inr (u, s)"
    using deployed_attest by blast
  then have "sas_step sample_cx deployed_state s"
    unfolding sas_step_def using issue_step.intros(1) [OF at] by blast
  note inv = reachable_invariant [OF sample_run [OF deployment_run this], of _ _ u]
  have "\<exists>a. read_attestation (st_store s) u = Some a"
    using attest_effect [OF at] attest_internal_refines [of sample_cx "sample_new 3" deployed_state u s]
      attest_internal_effect [of sample_cx "sample_new 3" deployed_state u s]
    by (auto simp: read_issue_in_store)
  with inv at show ?thesis by (auto simp: get_attestation_def)
qed

text \<open>
  C4: A record outlives everything that anybody can do while it has not expired. Starting from a
  well-formed state that holds the record, after any sequence of calls the same UID still reads as a
  later version of it: all fields but revocation and expiration time are the same, the expiration
  has only moved later, and a record that was revoked, or that is not revocable, is unchanged.
\<close>

theorem live_record_kept:
  assumes "sas_run h e0 s0 e s" and "store_wf (st_store s0)"
    and "get_attestation s0 u = Some a" and "live_at e a"
  shows "\<exists>b. get_attestation s u = Some b \<and>
    b = a\<lparr>a_revocation_time := a_revocation_time b, a_expiration_time := a_expiration_time b\<rparr> \<and>
    (a_expiration_time b = 0 \<or> a_expiration_time a \<noteq> 0 \<and> a_expiration_time a \<le> a_expiration_time b) \<and>
    (a_revocation_time a \<noteq> 0 \<or> \<not> a_revocable a \<longrightarrow> b = a)"
  using run_later [OF assms(1,2) _ assms(4)] assms(3)
  unfolding get_attestation_def later_version_def extends_to_def by blast

theorem live_record_kept_witness:
  "\<exists>s b. revoke sample_cx 123 (holding_state 3) = Inr s \<and> get_attestation s 123 = Some b \<and>
     a_recipient b = Account 5 \<and> a_data b = [1, 1, 1]"
proof -
  obtain s where r: "revoke sample_cx 123 (holding_state 3) = Inr s" using holding_revoke by blast
  then have "sas_step sample_cx (holding_state 3) s"
    unfolding sas_step_def using change_step.intros(1) [OF r] by blast
  note run = sample_run [OF run_start this]
  have a: "get_attestation (holding_state 3) 123 = Some ((sample_new 3)\<lparr>a_time := 900\<rparr>)"
    by (simp add: get_attestation_def sample_read_holding)
  have "live_at sample_env ((sample_new 3)\<lparr>a_time := 900\<rparr>)"
    by (simp add: live_at_def sample_defs)
  from live_record_kept [OF run sample_wf_holding a this] obtain b where
    b: "get_attestation s 123 = Some b"
    "b = (sample_new 3)\<lparr>a_time := 900, a_revocation_time := a_revocation_time b,
       a_expiration_time := a_expiration_time b\<rparr>"
    by auto
  have "a_recipient b = Account 5" "a_data b = [1, 1, 1]"
    by (subst b(2), simp add: sample_new_def numeral_3_eq_3)+
  with r b(1) show ?thesis by blast
qed

text \<open>
  C5: Nothing that was spent can be spent again. Over any sequence of calls, a delegation nonce at or
  below a recorded watermark stays rejected, so does a consent nonce of a recipient, and a recorded
  nullifier stays recorded.
\<close>

theorem replay_never_accepted:
  assumes "sas_run h e0 s0 e s"
  shows "(delegation_nonces (st_keys s0) who = Some m \<and> n \<le> m \<longrightarrow>
      consume_delegation_nonce who n s = Inl (Panic DelegationReplay)) \<and>
    (consent_nonces (st_keys s0) who = Some m \<and> n \<le> m \<longrightarrow>
      consume_recipient_consent_nonce who n s = Inl (Panic DelegationReplay)) \<and>
    (zk_nullifiers (st_keys s0) x \<longrightarrow> zk_nullifiers (st_keys s) x)"
  using run_keys_grow [OF assms]
  by (force simp: keys_grow_def marks_grow_def consume_delegation_nonce_def
      consume_recipient_consent_nonce_def nonce_replayed_iff)

definition spent_state :: "unit sas_state" where
  "spent_state = sample_state\<lparr>st_keys := fresh_keys\<lparr>delegation_nonces := [Account 7 \<mapsto> 4]\<rparr>\<rparr>"

theorem replay_never_accepted_witness:
  "\<exists>s. pause sample_env spent_state = Inr s \<and>
     consume_delegation_nonce (Account 7) 3 s = Inl (Panic DelegationReplay)"
proof -
  have "\<exists>s. pause (led sample_cx) spent_state = Inr s"
    by (simp add: pause_def spent_state_def result_iff require_admin_def sample_defs require_auth_def)
  then obtain s where p: "pause (led sample_cx) spent_state = Inr s" by blast
  then have "sas_step sample_cx spent_state s"
    unfolding sas_step_def using admin_step.intros(5) [OF p] by blast
  from replay_never_accepted [OF sample_run [OF run_start this], of "Account 7" 4 3] p show ?thesis
    by (auto simp: spent_state_def sample_cx_def)
qed

text \<open>
  C11: A pause freezes the attestations. While the contract is paused, no call of any entry point
  issues, revokes, replaces or renews an attestation: every UID reads as before, except that pruning,
  when the administrator has enabled it, may remove records that have expired.
\<close>

theorem pause_freezes_records:
  assumes "sas_step cx s s'" and "store_wf (st_store s)" and "is_paused_status s"
  shows "get_attestation s' u = get_attestation s u \<or>
    auto_prune (st_config s) \<and> get_attestation s' u = None \<and>
    (\<exists>a. get_attestation s u = Some a \<and> a_expiration_time a \<noteq> 0 \<and> a_expiration_time a \<le> timestamp (led cx))"
proof -
  from assms(1) consider "admin_step cx s s'" | "fee_step cx s s'" | "key_step cx s s'" |
    "issue_step cx s s'" | "change_step cx s s'" | "upkeep_step cx s s'"
    unfolding sas_step_def by blast
  then show ?thesis
  proof cases
    case 6
    from upkeep_step_view [OF this assms(2)] show ?thesis
      by (auto simp: get_attestation_def live_at_def not_less)
  qed (use assms(3) admin_step_frame fee_step_frame key_step_frame issue_step_call change_step_call
      in \<open>fastforce simp: get_attestation_def\<close>)+
qed

theorem pause_freezes_records_witness:
  "\<exists>s1 s2. pause sample_env (holding_state 3) = Inr s1 \<and> unpause sample_env s1 = Inr s2 \<and>
     get_attestation s2 123 = get_attestation s1 123"
proof -
  have "\<exists>s. pause (led sample_cx) (holding_state 3) = Inr s \<and> is_paused_status s \<and>
      st_store s = st_store (holding_state 3) \<and> (\<exists>s2. unpause (led sample_cx) s = Inr s2)"
    by (simp add: pause_def unpause_def holding_state_def result_iff require_admin_def sample_defs
        require_auth_def is_paused_status_def)
  then obtain s1 s2 where s1: "pause (led sample_cx) (holding_state 3) = Inr s1" "is_paused_status s1"
    "st_store s1 = st_store (holding_state 3)" and s2: "unpause (led sample_cx) s1 = Inr s2"
    by blast
  then have "sas_step sample_cx s1 s2"
    unfolding sas_step_def using admin_step.intros(6) [OF s2] by blast
  from pause_freezes_records [OF this _ s1(2), of 123] s1(1,3) s2 show ?thesis
    by (auto simp: sample_wf_holding get_attestation_def sample_read_holding sample_cx_def
        sample_env_def sample_new_def)
qed



text \<open>
  The check of a claimed timestamp is exact. In every reachable state, and at every later ledger,
  \<^verbatim>\<open>verify_timestamp\<close> accepts a claim about a UID if and only if it is the recorded issuance anchor or
  the recorded revocation anchor of that UID.
\<close>

theorem timestamp_check_exact:
  assumes "sas_run h e0 (fresh_state w) e s" and "env_le e env"
  shows "verify_timestamp env s u claim \<longleftrightarrow>
    get_issuance_timestamp s u = Some claim \<or> get_revocation_timestamp s u = Some claim"
proof -
  have "store_inv h e0 (st_store (fresh_state w))" "balances_ok (st_fees (fresh_state w))"
    by (simp_all add: fresh_state_def fresh_fees_def balances_ok_def store_inv_empty)
  from run_inv [OF assms(1) this] store_inv_later [OF _ assms(2)] have "store_inv h env (st_store s)"
    by blast
  from check_claim_exact [OF this, of u claim] show ?thesis
    by (auto simp: verify_timestamp_def is_ok_def get_issuance_timestamp_def get_revocation_timestamp_def
        read_anchor_def split: sum.splits)
qed

theorem timestamp_check_exact_witness:
  "\<exists>u s. attest sample_cx (sample_new 3) deployed_state = Inr (u, s) \<and>
     verify_timestamp sample_env s u \<lparr>ta_ledger_sequence = 50, ta_ledger_timestamp = 1000\<rparr> \<and>
     \<not> verify_timestamp sample_env s u \<lparr>ta_ledger_sequence = 49, ta_ledger_timestamp = 1000\<rparr>"
proof -
  obtain u s where at: "attest sample_cx (sample_new 3) deployed_state = Inr (u, s)"
    using deployed_attest by blast
  then have "sas_step sample_cx deployed_state s"
    unfolding sas_step_def using issue_step.intros(1) [OF at] by blast
  note exact = timestamp_check_exact [OF sample_run [OF deployment_run this] env_le_refl, of u]
  have "st_store s = issue_in_store (led sample_cx) (sample_new 3) (st_store deployed_state)"
    "u = a_uid (sample_new 3)"
    using attest_effect [OF at] attest_internal_refines [of sample_cx "sample_new 3" deployed_state u s]
      attest_internal_effect [of sample_cx "sample_new 3" deployed_state u s]
    by auto
  then have "get_issuance_timestamp s u = Some \<lparr>ta_ledger_sequence = 50, ta_ledger_timestamp = 1000\<rparr>"
    "get_revocation_timestamp s u = None"
    by (simp_all add: get_issuance_timestamp_def get_revocation_timestamp_def read_anchor_def
        anchor_now_def sample_cx_def sample_env_def deployed_state_def sample_state_def fresh_state_def)
  with at show ?thesis by (simp add: exact)
qed

end
