(* ===== verification/Schema_Syntax.thy ===== *)
theory Schema_Syntax
  imports Common_Types
begin

text \<open>
  The validators of schema definitions in \<^verbatim>\<open>packages/soroban-sas-common/src/validation.rs\<close>:
  \<^verbatim>\<open>validate_schema_syntax\<close> with its index-based scanning loops and \<^verbatim>\<open>validate_schema_lexical\<close>, and the
  proof that the scanner accepts exactly a grammar of comma-separated \<open>name type\<close> fields with
  pairwise different names.
\<close>

section \<open>Characters\<close>

definition MAX_SCHEMA_LENGTH :: nat where
  "MAX_SCHEMA_LENGTH = 1024"

definition MAX_SCHEMA_FIELDS :: nat where
  "MAX_SCHEMA_FIELDS = 64"

text \<open>The ASCII predicates of Rust's \<^verbatim>\<open>u8\<close>.\<close>

definition is_ascii_alphabetic :: "byte \<Rightarrow> bool" where
  "is_ascii_alphabetic b \<longleftrightarrow> 65 \<le> b \<and> b \<le> 90 \<or> 97 \<le> b \<and> b \<le> 122"

definition is_ascii_alphanumeric :: "byte \<Rightarrow> bool" where
  "is_ascii_alphanumeric b \<longleftrightarrow> is_ascii_alphabetic b \<or> 48 \<le> b \<and> b \<le> 57"

definition to_ascii_lowercase :: "byte \<Rightarrow> byte" where
  "to_ascii_lowercase b = (if 65 \<le> b \<and> b \<le> 90 then b + 32 else b)"

definition is_ascii_whitespace :: "byte \<Rightarrow> bool" where
  "is_ascii_whitespace b \<longleftrightarrow> b = 32 \<or> b = 10 \<or> b = 13 \<or> b = 9 \<or> b = 11 \<or> b = 12"

text \<open>\<^verbatim>\<open>core::str::from_utf8\<close> and \<^verbatim>\<open>chars\<close>: the code points of a well-formed byte string.\<close>

definition continuation :: "byte \<Rightarrow> bool" where
  "continuation b \<longleftrightarrow> 128 \<le> b \<and> b \<le> 191"

definition low_bits :: "byte \<Rightarrow> nat" where
  "low_bits b = unat b mod 64"

fun utf8_chars :: "bytes \<Rightarrow> nat list option" where
  "utf8_chars [] = Some []"
| "utf8_chars (b # bs) =
     (if b < 128 then map_option (Cons (unat b)) (utf8_chars bs)
      else if 194 \<le> b \<and> b \<le> 223 then
        (case bs of
           c # rest \<Rightarrow> if continuation c
             then map_option (Cons ((unat b - 192) * 64 + low_bits c)) (utf8_chars rest) else None
         | _ \<Rightarrow> None)
      else if 224 \<le> b \<and> b \<le> 239 then
        (case bs of
           c # d # rest \<Rightarrow>
             if continuation c \<and> continuation d \<and> (b = 224 \<longrightarrow> 160 \<le> c) \<and> (b = 237 \<longrightarrow> c \<le> 159)
             then map_option (Cons ((unat b - 224) * 4096 + low_bits c * 64 + low_bits d)) (utf8_chars rest)
             else None
         | _ \<Rightarrow> None)
      else if 240 \<le> b \<and> b \<le> 244 then
        (case bs of
           c # d # e # rest \<Rightarrow>
             if continuation c \<and> continuation d \<and> continuation e \<and> (b = 240 \<longrightarrow> 144 \<le> c) \<and>
                (b = 244 \<longrightarrow> c \<le> 143)
             then map_option (Cons ((unat b - 240) * 262144 + low_bits c * 4096 + low_bits d * 64 + low_bits e))
                    (utf8_chars rest)
             else None
         | _ \<Rightarrow> None)
      else None)"

text \<open>\<^verbatim>\<open>char::is_whitespace\<close>: the Unicode property \<^verbatim>\<open>White_Space\<close>.\<close>

definition char_is_whitespace :: "nat \<Rightarrow> bool" where
  "char_is_whitespace c \<longleftrightarrow> 9 \<le> c \<and> c \<le> 13 \<or> c = 32 \<or> c = 133 \<or> c = 160 \<or> c = 5760 \<or>
     8192 \<le> c \<and> c \<le> 8202 \<or> c = 8232 \<or> c = 8233 \<or> c = 8239 \<or> c = 8287 \<or> c = 12288"

definition invisible_char :: "nat \<Rightarrow> bool" where
  "invisible_char c \<longleftrightarrow> c = 133 \<or> c = 160 \<or> c = 5760 \<or> 8192 \<le> c \<and> c \<le> 8203 \<or> c = 8204 \<or> c = 8205 \<or>
     c = 8232 \<or> c = 8233 \<or> c = 8239 \<or> c = 8287 \<or> c = 8288 \<or> c = 12288 \<or> c = 65279 \<or> c = 173"

definition contains_control_or_invalid_whitespace :: "bytes \<Rightarrow> bool" where
  "contains_control_or_invalid_whitespace bs \<longleftrightarrow>
     list_ex (\<lambda>b. b < 32 \<or> b = 127) bs \<or>
     (case utf8_chars bs of
        Some cs \<Rightarrow> list_ex (\<lambda>c. c \<noteq> 32 \<and> char_is_whitespace c \<or> invisible_char c) cs
      | None \<Rightarrow> True)"

section \<open>Scanning\<close>

text \<open>\<^verbatim>\<open>bytes.get(i)\<close>\<close>

definition get_byte :: "bytes \<Rightarrow> nat \<Rightarrow> byte option" where
  "get_byte bs i = (if i < length bs then Some (bs ! i) else None)"

text \<open>The two loops of \<^verbatim>\<open>trim_bounds\<close>.\<close>

function trim_front :: "bytes \<Rightarrow> nat \<Rightarrow> nat \<Rightarrow> nat option" where
  "trim_front bs start fin =
     (if start < fin then
        (case get_byte bs start of
           None \<Rightarrow> None
         | Some b \<Rightarrow> if is_ascii_whitespace b then trim_front bs (start + 1) fin else Some start)
      else Some start)"
  by pat_completeness auto
termination by (relation "measure (\<lambda>(bs, start, fin). fin - start)") auto

fun trim_back :: "bytes \<Rightarrow> nat \<Rightarrow> nat \<Rightarrow> nat option" where
  "trim_back bs start 0 = Some 0"
| "trim_back bs start (Suc fin) =
     (if Suc fin > start then
        (case get_byte bs fin of
           None \<Rightarrow> None
         | Some b \<Rightarrow> if is_ascii_whitespace b then trim_back bs start fin else Some (Suc fin))
      else Some (Suc fin))"

definition trim_bounds :: "bytes \<Rightarrow> nat \<Rightarrow> nat \<Rightarrow> (nat \<times> nat) option" where
  "trim_bounds bs start fin =
     (case trim_front bs start fin of
        None \<Rightarrow> None
      | Some start \<Rightarrow>
          (case trim_back bs start fin of
             None \<Rightarrow> None
           | Some fin \<Rightarrow> if start \<ge> fin then None else Some (start, fin)))"

text \<open>The scan for the next separator: \<^verbatim>\<open>,\<close> between fields, a space between name and type.\<close>

function scan_to :: "bytes \<Rightarrow> byte \<Rightarrow> nat \<Rightarrow> nat \<Rightarrow> nat option" where
  "scan_to bs c i fin =
     (if i < fin then
        (case get_byte bs i of
           None \<Rightarrow> None
         | Some b \<Rightarrow> if b = c then Some i else scan_to bs c (i + 1) fin)
      else Some i)"
  by pat_completeness auto
termination by (relation "measure (\<lambda>(bs, c, i, fin). fin - i)") auto

function identifier_tail :: "bytes \<Rightarrow> nat \<Rightarrow> nat \<Rightarrow> bool" where
  "identifier_tail bs i fin =
     (if i < fin then
        (case get_byte bs i of
           None \<Rightarrow> False
         | Some b \<Rightarrow> (is_ascii_alphanumeric b \<or> b = 95) \<and> identifier_tail bs (i + 1) fin)
      else True)"
  by pat_completeness auto
termination by (relation "measure (\<lambda>(bs, i, fin). fin - i)") auto

definition is_valid_identifier :: "bytes \<Rightarrow> nat \<Rightarrow> nat \<Rightarrow> bool" where
  "is_valid_identifier bs start fin =
     (if start \<ge> fin then False
      else (case get_byte bs start of
              None \<Rightarrow> False
            | Some first \<Rightarrow>
                if \<not> (is_ascii_alphabetic first \<or> first = 95) then False
                else identifier_tail bs (start + 1) fin))"

definition type_byte :: "byte \<Rightarrow> bool" where
  "type_byte b \<longleftrightarrow> is_ascii_alphanumeric b \<or>
     b = 95 \<or> b = 60 \<or> b = 62 \<or> b = 91 \<or> b = 93 \<or> b = 44 \<or> b = 58 \<or> b = 40 \<or> b = 41 \<or> b = 32 \<or> b = 63"

function type_loop :: "bytes \<Rightarrow> nat \<Rightarrow> nat \<Rightarrow> bool \<Rightarrow> bool \<Rightarrow> bool" where
  "type_loop bs i fin has_alpha prev_space =
     (if i < fin then
        (case get_byte bs i of
           None \<Rightarrow> False
         | Some b \<Rightarrow>
             if b = 32 \<and> prev_space then False
             else if \<not> type_byte b then False
             else type_loop bs (i + 1) fin (has_alpha \<or> is_ascii_alphabetic b) (b = 32))
      else has_alpha \<and> \<not> prev_space)"
  by pat_completeness auto
termination by (relation "measure (\<lambda>(bs, i, fin, a, p). fin - i)") auto

definition is_valid_type :: "bytes \<Rightarrow> nat \<Rightarrow> nat \<Rightarrow> bool" where
  "is_valid_type bs start fin = (if start \<ge> fin then False else type_loop bs start fin False False)"

function same_bytes :: "bytes \<Rightarrow> nat \<Rightarrow> nat \<Rightarrow> nat \<Rightarrow> nat \<Rightarrow> bool" where
  "same_bytes bs a b offset len =
     (if offset < len then
        (case get_byte bs (a + offset) of
           None \<Rightarrow> False
         | Some x \<Rightarrow>
             (case get_byte bs (b + offset) of
                None \<Rightarrow> False
              | Some y \<Rightarrow>
                  if to_ascii_lowercase x \<noteq> to_ascii_lowercase y then False
                  else same_bytes bs a b (offset + 1) len))
      else True)"
  by pat_completeness auto
termination by (relation "measure (\<lambda>(bs, a, b, offset, len). len - offset)") auto

definition eq_ignore_ascii_case :: "bytes \<Rightarrow> nat \<Rightarrow> nat \<Rightarrow> nat \<Rightarrow> nat \<Rightarrow> bool" where
  "eq_ignore_ascii_case bs a0 a1 b0 b1 =
     (if a1 < a0 \<or> b1 < b0 \<or> a1 - a0 \<noteq> b1 - b0 then False else same_bytes bs a0 b0 0 (a1 - a0))"

text \<open>The position after a separator: a comma and at most one space.\<close>

definition skip_space :: "bytes \<Rightarrow> nat \<Rightarrow> nat \<Rightarrow> nat" where
  "skip_space bs i fin = (if i < fin \<and> get_byte bs i = Some 32 then i + 1 else i)"

lemma scan_to_ge: "scan_to bs c i fin = Some j \<Longrightarrow> i \<le> j"
  by (induction bs c i fin rule: scan_to.induct)
    (subst (asm) scan_to.simps, auto split: if_splits option.splits)

function field_name_collides :: "bytes \<Rightarrow> nat \<Rightarrow> nat \<Rightarrow> nat \<Rightarrow> nat \<Rightarrow> bool" where
  "field_name_collides bs cursor until name_start name_end =
     (if cursor < until then
        (case scan_to bs 44 cursor until of
           None \<Rightarrow> False
         | Some field_end \<Rightarrow>
             (case trim_bounds bs cursor field_end of
                None \<Rightarrow> False
              | Some (field_start, trimmed_end) \<Rightarrow>
                  (case scan_to bs 32 field_start trimmed_end of
                     None \<Rightarrow> False
                   | Some split \<Rightarrow>
                       if split > field_start \<and>
                          eq_ignore_ascii_case bs field_start split name_start name_end then True
                       else if field_end \<ge> until then False
                       else field_name_collides bs (skip_space bs (field_end + 1) until) until
                              name_start name_end)))
      else False)"
  by pat_completeness auto
termination
proof (relation "measure (\<lambda>(bs, cursor, until, a, b). until - cursor)", goal_cases)
  case (2 bs cursor until name_start name_end field_end fs te split)
  then have "cursor \<le> field_end" using scan_to_ge by blast
  with 2 show ?case by (auto simp: skip_space_def)
qed simp

section \<open>The validators\<close>

text \<open>The checks of one field \<open>[start, field_end)\<close>; the result is the end of its name.\<close>

definition check_field :: "bytes \<Rightarrow> nat \<Rightarrow> nat \<Rightarrow> nat \<Rightarrow> (nat \<times> nat) sas_result" where
  "check_field bs region_start start field_end =
     (if field_end > start \<and> get_byte bs (field_end - 1) = Some 32 then Inl (Panic InvalidSchemaDefinition)
      else
        (case trim_bounds bs start field_end of
           None \<Rightarrow> Inl (Panic InvalidSchemaDefinition)
         | Some (field_start, fe) \<Rightarrow>
             if fe - field_start > 64 then Inl (Panic InvalidSchemaDefinition)
             else
               (case scan_to bs 32 field_start fe of
                  None \<Rightarrow> Inl (Panic InvalidSchemaDefinition)
                | Some split_index \<Rightarrow>
                    if split_index = field_start \<or> split_index \<ge> fe then Inl (Panic InvalidSchemaDefinition)
                    else if split_index - field_start > 32 then Inl (Panic InvalidSchemaDefinition)
                    else
                      let ty_start = split_index + 1 in
                      if ty_start \<ge> fe \<or> get_byte bs ty_start = Some 32
                        then Inl (Panic InvalidSchemaDefinition)
                      else if fe - ty_start > 32 then Inl (Panic InvalidSchemaDefinition)
                      else if \<not> is_valid_identifier bs field_start split_index \<or>
                              \<not> is_valid_type bs ty_start fe then Inl (Panic InvalidSchemaDefinition)
                      else if field_name_collides bs region_start field_start field_start split_index
                        then Inl (Panic InvalidSchemaDefinition)
                      else Inr (field_start, split_index))))"

function field_loop :: "bytes \<Rightarrow> nat \<Rightarrow> nat \<Rightarrow> nat \<Rightarrow> nat \<Rightarrow> nat sas_result" where
  "field_loop bs region_start fin start field_count =
     (if start < fin then
        (case scan_to bs 44 start fin of
           None \<Rightarrow> Inl (Panic InvalidSchemaDefinition)
         | Some field_end \<Rightarrow>
             (case check_field bs region_start start field_end of
                Inl e \<Rightarrow> Inl e
              | Inr _ \<Rightarrow>
                  if field_count + 1 > MAX_SCHEMA_FIELDS then Inl (Panic InvalidSchemaDefinition)
                  else if field_end \<ge> fin then Inr (field_count + 1)
                  else
                    let next_start = skip_space bs (field_end + 1) fin in
                    if next_start > field_end + 1 \<and> next_start < fin \<and>
                       get_byte bs next_start = Some 32 then Inl (Panic InvalidSchemaDefinition)
                    else if next_start \<ge> fin then Inl (Panic InvalidSchemaDefinition)
                    else field_loop bs region_start fin next_start (field_count + 1)))
      else Inr field_count)"
  by pat_completeness auto
termination
proof (relation "measure (\<lambda>(bs, rs, fin, start, n). fin - start)", goal_cases)
  case (2 bs rs fin start n field_end r nxt)
  then have "start \<le> field_end" using scan_to_ge by blast
  with 2 show ?case by (auto simp: skip_space_def split: if_splits)
qed simp

definition validate_schema_syntax :: "bytes \<Rightarrow> unit sas_result" where
  "validate_schema_syntax schema =
     (if length schema = 0 then Inl (Panic EmptySchema)
      else if length schema > MAX_SCHEMA_LENGTH then Inl (Panic InvalidSchemaDefinition)
      else if contains_control_or_invalid_whitespace schema then Inl (Panic InvalidSchemaDefinition)
      else
        (case trim_bounds schema 0 (length schema) of
           None \<Rightarrow> Inl (Panic InvalidSchemaDefinition)
         | Some (start, fin) \<Rightarrow>
             if get_byte schema start = Some 44 \<or> get_byte schema (fin - 1) = Some 44
               then Inl (Panic InvalidSchemaDefinition)
             else
               bind_r (field_loop schema start fin start 0) (\<lambda>field_count.
               if field_count = 0 then Inl (Panic EmptySchema) else Inr ())))"

fun separators_ok :: "bytes \<Rightarrow> bool" where
  "separators_ok [] = True"
| "separators_ok (b # bs) =
     (if b = 32 then \<not> (case bs of c # _ \<Rightarrow> c = 32 \<or> c = 44 | [] \<Rightarrow> False) \<and> separators_ok bs
      else if b = 44 then
        (case bs of
           [] \<Rightarrow> False
         | c # ds \<Rightarrow> c \<noteq> 44 \<and> \<not> (c = 32 \<and> (case ds of d # _ \<Rightarrow> d = 32 | [] \<Rightarrow> False))) \<and> separators_ok bs
      else separators_ok bs)"

definition validate_schema_lexical :: "bytes \<Rightarrow> unit sas_result" where
  "validate_schema_lexical schema =
     (if length schema = 0 then Inr ()
      else if length schema > MAX_SCHEMA_LENGTH then Inl (Panic InvalidSchemaDefinition)
      else if contains_control_or_invalid_whitespace schema then Inl (Panic InvalidSchemaDefinition)
      else if \<not> separators_ok schema then Inl (Panic InvalidSchemaDefinition)
      else if get_byte schema 0 = Some 44 then Inl (Panic InvalidSchemaDefinition)
      else Inr ())"


section \<open>Slices\<close>

text \<open>The scanners work on index ranges; the grammar is about the byte strings in them.\<close>

declare trim_front.simps [simp del] scan_to.simps [simp del] identifier_tail.simps [simp del]
  type_loop.simps [simp del] same_bytes.simps [simp del] field_name_collides.simps [simp del]
  field_loop.simps [simp del] trim_back.simps [simp del]

definition slice :: "'a list \<Rightarrow> nat \<Rightarrow> nat \<Rightarrow> 'a list" where
  "slice bs i j = take (j - i) (drop i bs)"

lemma slice_same [simp]: "slice bs i i = []"
  by (simp add: slice_def)

lemma slice_empty: "j \<le> i \<Longrightarrow> slice bs i j = []"
  by (simp add: slice_def)

lemma length_slice [simp]: "i \<le> j \<Longrightarrow> j \<le> length bs \<Longrightarrow> length (slice bs i j) = j - i"
  by (simp add: slice_def)

lemma slice_Cons: "i < j \<Longrightarrow> j \<le> length bs \<Longrightarrow> slice bs i j = bs ! i # slice bs (Suc i) j"
  by (simp add: slice_def Cons_nth_drop_Suc [symmetric] Suc_diff_Suc [symmetric])

lemma slice_append: "i \<le> j \<Longrightarrow> j \<le> k \<Longrightarrow> slice bs i j @ slice bs j k = slice bs i k"
proof -
  assume "i \<le> j" "j \<le> k"
  then have "drop j bs = drop (j - i) (drop i bs)" "k - i = (j - i) + (k - j)" by simp_all
  then show ?thesis unfolding slice_def by (simp only: take_add)
qed

lemma slice_snoc: "i < j \<Longrightarrow> j \<le> length bs \<Longrightarrow> slice bs i j = slice bs i (j - 1) @ [bs ! (j - 1)]"
  using slice_append [of i "j - 1" j bs] slice_Cons [of "j - 1" j bs] by simp

lemma set_slice: "set (slice bs i j) \<subseteq> set bs"
  unfolding slice_def by (meson in_set_dropD in_set_takeD subsetI)

lemma get_byte_nth [simp]: "i < length bs \<Longrightarrow> get_byte bs i = Some (bs ! i)"
  by (simp add: get_byte_def)

text \<open>A prefix of a slice determines where the next slice starts.\<close>

lemma slice_split:
  assumes "slice bs i j = xs @ ys" and "i \<le> j" and "j \<le> length bs"
  shows "slice bs i (i + length xs) = xs \<and> slice bs (i + length xs) j = ys \<and> i + length xs \<le> j"
proof -
  have len: "length xs + length ys = j - i" using assms by (metis length_append length_slice)
  then have le: "i + length xs \<le> j" using assms(2) by linarith
  have "slice bs i (i + length xs) @ slice bs (i + length xs) j = xs @ ys"
    using slice_append [OF _ le, of i bs] assms(1) by simp
  moreover have "length (slice bs i (i + length xs)) = length xs" using le assms(3) by simp
  ultimately show ?thesis using le by simp
qed

lemma scan_to_slice:
  "i \<le> j \<Longrightarrow> j \<le> length bs \<Longrightarrow>
   scan_to bs c i j = Some (i + length (takeWhile (\<lambda>b. b \<noteq> c) (slice bs i j)))"
proof (induction bs c i j rule: scan_to.induct)
  case (1 bs c i j)
  then show ?case by (subst scan_to.simps) (auto simp: slice_Cons)
qed

lemma trim_front_props:
  "trim_front bs i j = Some k \<Longrightarrow> i \<le> j \<Longrightarrow> j \<le> length bs \<Longrightarrow>
   i \<le> k \<and> k \<le> j \<and> (\<forall>l. i \<le> l \<and> l < k \<longrightarrow> is_ascii_whitespace (bs ! l)) \<and>
   (k < j \<longrightarrow> \<not> is_ascii_whitespace (bs ! k))"
proof (induction bs i j rule: trim_front.induct)
  case (1 bs i j)
  show ?case
  proof (cases "i < j \<and> is_ascii_whitespace (bs ! i)")
    case True
    then have "trim_front bs (i + 1) j = Some k"
      using 1(2-) by (subst (asm) trim_front.simps) simp
    with 1 True have IH: "Suc i \<le> k \<and> k \<le> j \<and> (\<forall>l. Suc i \<le> l \<and> l < k \<longrightarrow> is_ascii_whitespace (bs ! l)) \<and>
        (k < j \<longrightarrow> \<not> is_ascii_whitespace (bs ! k))"
      by simp
    moreover have "is_ascii_whitespace (bs ! l)" if "i \<le> l" "l < k" for l
      using IH True that by (cases "l = i") auto
    ultimately show ?thesis by auto
  next
    case False
    then have "k = i" using 1(2-) by (subst (asm) trim_front.simps) (auto split: if_splits)
    with False 1(3) show ?thesis by auto
  qed
qed

lemma trim_back_props:
  "trim_back bs i j = Some k \<Longrightarrow> i \<le> j \<Longrightarrow> j \<le> length bs \<Longrightarrow>
   i \<le> k \<and> k \<le> j \<and> (\<forall>l. k \<le> l \<and> l < j \<longrightarrow> is_ascii_whitespace (bs ! l)) \<and>
   (i < k \<longrightarrow> \<not> is_ascii_whitespace (bs ! (k - 1)))"
proof (induction j)
  case (Suc j)
  show ?case
  proof (cases "i \<le> j \<and> is_ascii_whitespace (bs ! j)")
    case True
    then have "trim_back bs i j = Some k" using Suc.prems by (simp add: trim_back.simps)
    with Suc True have IH: "i \<le> k \<and> k \<le> j \<and> (\<forall>l. k \<le> l \<and> l < j \<longrightarrow> is_ascii_whitespace (bs ! l)) \<and>
        (i < k \<longrightarrow> \<not> is_ascii_whitespace (bs ! (k - 1)))"
      by simp
    moreover have "is_ascii_whitespace (bs ! l)" if "k \<le> l" "l < Suc j" for l
      using IH True that by (cases "l = j") auto
    ultimately show ?thesis by auto
  next
    case False
    then have "k = Suc j" using Suc.prems by (auto simp: trim_back.simps split: if_splits)
    with False Suc.prems show ?thesis by (cases "i \<le> j") auto
  qed
qed (simp add: trim_back.simps)

lemma trim_bounds_trimmed:
  assumes "i < j" "j \<le> length bs" "\<not> is_ascii_whitespace (bs ! i)" "\<not> is_ascii_whitespace (bs ! (j - 1))"
  shows "trim_bounds bs i j = Some (i, j)"
proof -
  have "trim_front bs i j = Some i" using assms by (subst trim_front.simps) simp
  moreover have "trim_back bs i j = Some j" using assms by (cases j) (simp_all add: trim_back.simps)
  ultimately show ?thesis using assms(1) by (simp add: trim_bounds_def)
qed

lemma trim_bounds_empty [simp]: "trim_bounds bs i i = None"
  by (cases i) (simp_all add: trim_bounds_def trim_front.simps [of bs i i] trim_front.simps trim_back.simps)

lemma trim_bounds_props:
  assumes "trim_bounds bs i j = Some (a, b)" and "i \<le> j" and "j \<le> length bs"
  shows "i \<le> a \<and> a < b \<and> b \<le> j \<and> (\<forall>l. i \<le> l \<and> l < a \<longrightarrow> is_ascii_whitespace (bs ! l)) \<and>
    (\<forall>l. b \<le> l \<and> l < j \<longrightarrow> is_ascii_whitespace (bs ! l)) \<and>
    \<not> is_ascii_whitespace (bs ! a) \<and> \<not> is_ascii_whitespace (bs ! (b - 1))"
proof -
  from assms(1) have f: "trim_front bs i j = Some a" and b: "trim_back bs a j = Some b" and "a < b"
    by (auto simp: trim_bounds_def split: option.splits if_splits)
  with trim_front_props [OF f assms(2,3)] trim_back_props [OF b _ assms(3)] show ?thesis by auto
qed

lemma nth_slice: "l < j - i \<Longrightarrow> j \<le> length bs \<Longrightarrow> slice bs i j ! l = bs ! (i + l)"
  by (simp add: slice_def)

lemma slice_replicate:
  assumes "\<And>l. i \<le> l \<Longrightarrow> l < j \<Longrightarrow> bs ! l = c" and "i \<le> j" and "j \<le> length bs"
  shows "slice bs i j = replicate (j - i) c"
  by (rule nth_equalityI) (use assms in \<open>auto simp: nth_slice\<close>)

text \<open>Trimming a whole string of which space is the only white space.\<close>

lemma slice_whole: "slice bs 0 (length bs) = bs"
  by (simp add: slice_def)

lemma trim_bounds_whole:
  assumes "trim_bounds bs 0 (length bs) = Some (i, j)"
    and sp: "\<And>b. b \<in> set bs \<Longrightarrow> is_ascii_whitespace b \<Longrightarrow> b = 32"
  shows "i < j \<and> j \<le> length bs \<and> bs = replicate i 32 @ slice bs i j @ replicate (length bs - j) 32 \<and>
    \<not> is_ascii_whitespace (bs ! i) \<and> \<not> is_ascii_whitespace (bs ! (j - 1))"
proof -
  note p = trim_bounds_props [OF assms(1)]
  have "slice bs 0 i = replicate (i - 0) 32" "slice bs j (length bs) = replicate (length bs - j) 32"
    by (rule slice_replicate; use p sp in force)+
  then have "bs = replicate i 32 @ slice bs i j @ replicate (length bs - j) 32"
    using slice_append [of 0 i "length bs" bs] slice_append [of i j "length bs" bs] p
    by (simp add: slice_whole)
  with p show ?thesis by simp
qed

lemma trim_bounds_padded:
  assumes "bs = replicate k 32 @ xs @ replicate m 32" and "xs \<noteq> []"
    and "\<not> is_ascii_whitespace (hd xs)" and "\<not> is_ascii_whitespace (last xs)"
  shows "trim_bounds bs 0 (length bs) = Some (k, k + length xs)"
proof -
  have front: "trim_front bs l (length bs) = Some k" if "l \<le> k" for l
    using that
  proof (induction "k - l" arbitrary: l)
    case 0
    then show ?case
      using assms by (subst trim_front.simps) (simp add: nth_append hd_conv_nth)
  next
    case (Suc d)
    then have "trim_front bs (l + 1) (length bs) = Some k" by simp
    then show ?case
      using assms Suc by (subst trim_front.simps) (simp add: nth_append is_ascii_whitespace_def)
  qed
  have rear: "trim_back bs k (k + length xs + l) = Some (k + length xs)" if "l \<le> m" for l
    using that
  proof (induction l)
    case 0
    define n where "n = k + length xs - 1"
    have n: "k + length xs = Suc n" "length xs = Suc (n - k)" "k \<le> n"
      using assms(2) unfolding n_def by (simp_all add: Suc_le_eq neq_Nil_conv) (cases xs, auto)+
    then have "bs ! n = last xs"
      using assms(1,2) by (simp add: nth_append last_conv_nth)
    with n assms(1,4) show ?case by (simp add: trim_back.simps)
  next
    case (Suc l)
    then have "bs ! (k + length xs + l) = 32" using assms(1) by (simp add: nth_append)
    with Suc assms(1) show ?case by (simp add: trim_back.simps is_ascii_whitespace_def)
  qed
  have "trim_front bs 0 (length bs) = Some k" by (rule front) simp
  moreover have "trim_back bs k (length bs) = Some (k + length xs)"
    using rear [of m] assms(1) by (simp add: add.assoc)
  ultimately show ?thesis using assms(2) by (simp add: trim_bounds_def)
qed


section \<open>The grammar\<close>

text \<open>
  A field is a name, one space and a type. A name is an identifier of at most 32 characters; a type
  has at most 32 characters of a fixed alphabet, with at least one letter and only single spaces
  inside. A schema is a list of at most 64 fields, separated by a comma and an optional space, whose
  names differ also when the case of letters is ignored, possibly surrounded by spaces.
\<close>

definition name_ok :: "bytes \<Rightarrow> bool" where
  "name_ok n \<longleftrightarrow> n \<noteq> [] \<and> length n \<le> 32 \<and> (is_ascii_alphabetic (hd n) \<or> hd n = 95) \<and>
     (\<forall>b\<in>set (tl n). is_ascii_alphanumeric b \<or> b = 95)"

definition single_spaced :: "bytes \<Rightarrow> bool" where
  "single_spaced t \<longleftrightarrow> successively (\<lambda>a b. \<not> (a = 32 \<and> b = 32)) t"

definition type_ok :: "bytes \<Rightarrow> bool" where
  "type_ok t \<longleftrightarrow> t \<noteq> [] \<and> length t \<le> 32 \<and> hd t \<noteq> 32 \<and> last t \<noteq> 32 \<and> single_spaced t \<and>
     (\<forall>b\<in>set t. type_byte b) \<and> (\<exists>b\<in>set t. is_ascii_alphabetic b)"

definition field_name :: "bytes \<Rightarrow> bytes" where
  "field_name f = takeWhile (\<lambda>b. b \<noteq> 32) f"

definition field_type :: "bytes \<Rightarrow> bytes" where
  "field_type f = drop (Suc (length (field_name f))) f"

definition field_ok :: "bytes \<Rightarrow> bool" where
  "field_ok f \<longleftrightarrow> length f \<le> 64 \<and> name_ok (field_name f) \<and> type_ok (field_type f)"

definition folded_name :: "bytes \<Rightarrow> bytes" where
  "folded_name f = map to_ascii_lowercase (field_name f)"

fun joined :: "bytes \<Rightarrow> (bool \<times> bytes) list \<Rightarrow> bytes" where
  "joined f [] = f"
| "joined f ((sp, g) # rest) = f @ 44 # (if sp then [32] else []) @ joined g rest"

definition spells :: "bytes \<Rightarrow> bytes list \<Rightarrow> bool" where
  "spells s fs \<longleftrightarrow> (\<exists>k m f rest. fs = f # map snd rest \<and> s = replicate k 32 @ joined f rest @ replicate m 32)"

definition schema_fields_ok :: "bytes list \<Rightarrow> bool" where
  "schema_fields_ok fs \<longleftrightarrow> length fs \<le> MAX_SCHEMA_FIELDS \<and> (\<forall>f\<in>set fs. field_ok f \<and> 44 \<notin> set f) \<and>
     distinct (map folded_name fs)"

lemma field_name_decomp: "field_ok f \<Longrightarrow> f = field_name f @ 32 # field_type f"
proof -
  assume "field_ok f"
  then have "field_type f \<noteq> []" by (simp add: field_ok_def type_ok_def)
  then have len: "length (field_name f) < length f" by (simp add: field_type_def)
  have "f = field_name f @ dropWhile (\<lambda>b. b \<noteq> 32) f" by (simp add: field_name_def)
  moreover have "dropWhile (\<lambda>b. b \<noteq> 32) f = drop (length (field_name f)) f"
    by (simp add: field_name_def dropWhile_eq_drop)
  moreover have "f ! length (field_name f) = 32"
    using len nth_length_takeWhile [of "\<lambda>b. b \<noteq> 32" f] by (simp add: field_name_def)
  ultimately show ?thesis
    using len by (metis Cons_nth_drop_Suc field_type_def)
qed

lemma field_ok_ends: "field_ok f \<Longrightarrow> f \<noteq> [] \<and> hd f \<noteq> 32 \<and> last f \<noteq> 32"
proof -
  assume ok: "field_ok f"
  then have t: "field_type f \<noteq> []" "last (field_type f) \<noteq> 32" and n: "field_name f \<noteq> []"
    by (auto simp: field_ok_def type_ok_def name_ok_def)
  have f: "f = field_name f @ 32 # field_type f" by (rule field_name_decomp [OF ok])
  have "hd f = hd (field_name f @ 32 # field_type f)" by (rule arg_cong [OF f])
  also have "\<dots> = hd (field_name f)" using n by simp
  finally have hd: "hd f = hd (field_name f)" .
  have "last f = last (field_name f @ 32 # field_type f)" by (rule arg_cong [OF f])
  also have "\<dots> = last (field_type f)" using t(1) by simp
  finally have "last f \<noteq> 32" using t(2) by simp
  moreover have "f \<noteq> []" using n by (auto simp: field_name_def)
  moreover have "hd (field_name f) \<noteq> 32"
    using set_takeWhileD [of _ "\<lambda>b. b \<noteq> 32" f] hd_in_set [OF n] by (simp add: field_name_def)
  ultimately show ?thesis using hd by simp
qed

lemma identifier_tail_slice:
  "i \<le> j \<Longrightarrow> j \<le> length bs \<Longrightarrow>
   identifier_tail bs i j \<longleftrightarrow> (\<forall>b\<in>set (slice bs i j). is_ascii_alphanumeric b \<or> b = 95)"
proof (induction bs i j rule: identifier_tail.induct)
  case (1 bs i j)
  then show ?case by (subst identifier_tail.simps) (auto simp: slice_Cons)
qed

lemma is_valid_identifier_slice:
  assumes "i \<le> j" "j \<le> length bs" "j - i \<le> 32"
  shows "is_valid_identifier bs i j \<longleftrightarrow> name_ok (slice bs i j)"
  using assms
  by (cases "i < j") (auto simp: is_valid_identifier_def name_ok_def slice_Cons identifier_tail_slice)

lemma type_loop_slice:
  "i \<le> j \<Longrightarrow> j \<le> length bs \<Longrightarrow>
   type_loop bs i j a p \<longleftrightarrow> (\<forall>b\<in>set (slice bs i j). type_byte b) \<and>
     (a \<or> (\<exists>b\<in>set (slice bs i j). is_ascii_alphabetic b)) \<and>
     single_spaced ((if p then [32] else []) @ slice bs i j) \<and>
     (if slice bs i j = [] then \<not> p else last (slice bs i j) \<noteq> 32)"
proof (induction bs i j a p rule: type_loop.induct)
  case (1 bs i j a p)
  show ?case
  proof (cases "i < j")
    case True
    let ?b = "bs ! i" and ?t = "slice bs (Suc i) j"
    have step: "type_loop bs i j a p \<longleftrightarrow> \<not> (?b = 32 \<and> p) \<and> type_byte ?b \<and>
        type_loop bs (i + 1) j (a \<or> is_ascii_alphabetic ?b) (?b = 32)"
      using True 1(3) by (subst type_loop.simps) simp
    have "\<not> (?b = 32 \<and> p) \<Longrightarrow> type_byte ?b \<Longrightarrow>
        type_loop bs (i + 1) j (a \<or> is_ascii_alphabetic ?b) (?b = 32) \<longleftrightarrow> (\<forall>b\<in>set ?t. type_byte b) \<and>
        ((a \<or> is_ascii_alphabetic ?b) \<or> (\<exists>b\<in>set ?t. is_ascii_alphabetic b)) \<and>
        single_spaced ((if ?b = 32 then [32] else []) @ ?t) \<and>
        (if ?t = [] then ?b \<noteq> 32 else last ?t \<noteq> 32)"
      using 1(1) [OF True, of ?b] True 1(3) by simp
    moreover have "single_spaced ((if p then [32] else []) @ ?b # ?t) \<longleftrightarrow> \<not> (?b = 32 \<and> p) \<and>
        single_spaced ((if ?b = 32 then [32] else []) @ ?t)"
      by (cases ?t) (auto simp: single_spaced_def)
    ultimately show ?thesis
      unfolding step slice_Cons [OF True 1(3)] by (cases "?t = []") auto
  next
    case False
    with 1(2) show ?thesis by (subst type_loop.simps) (simp add: single_spaced_def)
  qed
qed

lemma is_valid_type_slice:
  assumes "i < j" "j \<le> length bs" "j - i \<le> 32" "bs ! i \<noteq> 32"
  shows "is_valid_type bs i j \<longleftrightarrow> type_ok (slice bs i j)"
  using assms by (auto simp: is_valid_type_def type_ok_def type_loop_slice slice_Cons)

lemma same_bytes_slice:
  "a + n \<le> length bs \<Longrightarrow> b + n \<le> length bs \<Longrightarrow> k \<le> n \<Longrightarrow>
   same_bytes bs a b k n \<longleftrightarrow> map to_ascii_lowercase (slice bs (a + k) (a + n)) =
     map to_ascii_lowercase (slice bs (b + k) (b + n))"
proof (induction bs a b k n rule: same_bytes.induct)
  case (1 bs a b k n)
  then show ?case
    by (subst same_bytes.simps) (auto simp: slice_Cons)
qed

lemma eq_ignore_ascii_case_slice:
  assumes "a0 \<le> a1" "a1 \<le> length bs" "b0 \<le> b1" "b1 \<le> length bs"
  shows "eq_ignore_ascii_case bs a0 a1 b0 b1 \<longleftrightarrow>
    map to_ascii_lowercase (slice bs a0 a1) = map to_ascii_lowercase (slice bs b0 b1)"
proof (cases "a1 - a0 = b1 - b0")
  case True
  then have "a1 = a0 + (a1 - a0)" "b1 = b0 + (a1 - a0)" using assms by simp_all
  with True show ?thesis
    using assms same_bytes_slice [of a0 "a1 - a0" bs b0 0]
    by (metis add_0_right eq_ignore_ascii_case_def le0 not_less)
next
  case False
  then have "length (slice bs a0 a1) \<noteq> length (slice bs b0 b1)" using assms by simp
  then have "map to_ascii_lowercase (slice bs a0 a1) \<noteq> map to_ascii_lowercase (slice bs b0 b1)"
    by (metis length_map)
  with False show ?thesis by (simp add: eq_ignore_ascii_case_def)
qed


section \<open>The scanner accepts exactly the grammar\<close>

text \<open>The fields already accepted, each with the separator that follows it.\<close>

fun consumed :: "(bytes \<times> bool) list \<Rightarrow> bytes" where
  "consumed [] = []"
| "consumed ((f, sp) # ds) = f @ 44 # (if sp then [32] else []) @ consumed ds"

lemma consumed_snoc: "consumed (ds @ [(f, sp)]) = consumed ds @ f @ 44 # (if sp then [32] else [])"
  by (induction ds) auto

lemma takeWhile_stop: "c \<notin> set xs \<Longrightarrow> takeWhile (\<lambda>b. b \<noteq> c) (xs @ c # ys) = xs"
  by (induction xs) auto

lemma consumed_hd: "\<forall>(f, sp)\<in>set ds. field_ok f \<Longrightarrow> ds \<noteq> [] \<Longrightarrow> consumed ds \<noteq> [] \<and> hd (consumed ds) \<noteq> 32"
  by (cases ds) (auto dest: field_ok_ends)

lemma slice_hd: "i < j \<Longrightarrow> j \<le> length bs \<Longrightarrow> bs ! i = hd (slice bs i j)"
  by (simp add: slice_Cons)

lemma slice_last: "i < j \<Longrightarrow> j \<le> length bs \<Longrightarrow> bs ! (j - 1) = last (slice bs i j)"
  by (simp add: slice_snoc)

lemma printable_whitespace: "32 \<le> b \<Longrightarrow> is_ascii_whitespace b \<longleftrightarrow> b = 32"
  by (auto simp: is_ascii_whitespace_def)

lemma trim_field:
  assumes "slice bs i j = f" "field_ok f" "i \<le> j" "j \<le> length bs" "\<forall>b\<in>set bs. 32 \<le> b"
  shows "trim_bounds bs i j = Some (i, j)"
proof -
  from field_ok_ends [OF assms(2)] assms(1,3) have "i < j" by (cases "i < j") (auto simp: slice_empty)
  have ws: "\<not> is_ascii_whitespace b" if "b \<in> set f" "b \<noteq> 32" for b
    using assms(1,5) that set_slice [of bs i j] by (subst printable_whitespace) auto
  show ?thesis
    using assms field_ok_ends [OF assms(2)] slice_hd [of i j bs] slice_last [of i j bs] \<open>i < j\<close>
    by (intro trim_bounds_trimmed) (simp_all add: ws)
qed

lemma field_split: "field_ok f \<Longrightarrow> length (field_name f) < length f"
proof -
  assume "field_ok f"
  then have "field_type f \<noteq> []" by (simp add: field_ok_def type_ok_def)
  then show ?thesis by (simp add: field_type_def)
qed

lemma scan_name:
  assumes "slice bs i j = f" "i \<le> j" "j \<le> length bs"
  shows "scan_to bs 32 i j = Some (i + length (field_name f))"
  using assms by (simp add: scan_to_slice field_name_def)

lemma slice_prefix:
  assumes "slice bs i j = f" "i + n \<le> j" "j \<le> length bs"
  shows "slice bs i (i + n) = take n f"
  using assms by (auto simp: slice_def min_def)

lemma collides_iff:
  assumes "slice bs cursor until = consumed ds" "cursor \<le> until" "until \<le> length bs"
    and "\<forall>(f, sp)\<in>set ds. field_ok f \<and> 44 \<notin> set f" and "\<forall>b\<in>set bs. 32 \<le> b"
    and "a \<le> b" "b \<le> length bs"
  shows "field_name_collides bs cursor until a b \<longleftrightarrow>
    map to_ascii_lowercase (slice bs a b) \<in> set (map (folded_name \<circ> fst) ds)"
  using assms(1,2,4)
proof (induction ds arbitrary: cursor)
  case Nil
  then have "cursor = until" using assms(3) length_slice [of cursor until bs] by simp
  then show ?case by (subst field_name_collides.simps) simp
next
  case (Cons d ds)
  obtain f sp where d: "d = (f, sp)" by (cases d)
  let ?sep = "(44 :: byte) # (if sp then [32] else [])"
  have f: "field_ok f" "44 \<notin> set f" using Cons.prems(3) d by auto
  have spelled: "slice bs cursor until = f @ ?sep @ consumed ds" using Cons.prems(1) d by simp
  define e where "e = cursor + length f"
  from slice_split [OF spelled Cons.prems(2) assms(3)]
  have e: "slice bs cursor e = f" "slice bs e until = ?sep @ consumed ds" "e \<le> until"
    by (simp_all add: e_def)
  have lt: "e < until" using e(2,3) assms(3) by (cases "e < until") (auto simp: slice_empty)
  have ce: "cursor < e" using field_ok_ends [OF f(1)] by (simp add: e_def)
  have at_e: "bs ! e = 44" using slice_hd [OF lt assms(3)] e(2) by simp
  from slice_split [OF e(2,3) assms(3)]
  have nxt: "slice bs (e + length ?sep) until = consumed ds" "e + length ?sep \<le> until" by auto
  have skip: "skip_space bs (e + 1) until = e + length ?sep"
  proof (cases sp)
    case True
    then have "slice bs (Suc e) until = 32 # consumed ds"
      using e(2) slice_Cons [OF lt assms(3)] by simp
    moreover from this have "Suc e < until" by (cases "Suc e < until") (auto simp: slice_empty)
    moreover from calculation have "bs ! Suc e = 32"
      using slice_hd [of "Suc e" until bs] assms(3) by simp
    ultimately have "e + 1 < until \<and> get_byte bs (e + 1) = Some 32"
      using assms(3) by (simp add: get_byte_def)
    then have "skip_space bs (e + 1) until = e + 1 + 1" unfolding skip_space_def by (rule if_P)
    moreover have "length ?sep = 2" using True by simp
    ultimately show ?thesis by linarith
  next
    case False
    show ?thesis
    proof (cases "Suc e < until")
      case True
      have s: "slice bs (Suc e) until = consumed ds" using nxt(1) False by simp
      have "slice bs (Suc e) until \<noteq> []" unfolding slice_Cons [OF True assms(3)] by simp
      then have "ds \<noteq> []" unfolding s by auto
      then have "hd (consumed ds) \<noteq> 32" using consumed_hd [of ds] Cons.prems(3) by auto
      then have "bs ! Suc e \<noteq> 32" using slice_hd [OF True assms(3)] unfolding s by argo
      then show ?thesis using False True assms(3) by (simp add: skip_space_def get_byte_def)
    qed (use False in \<open>simp add: skip_space_def\<close>)
  qed
  have scan: "scan_to bs 44 cursor until = Some e"
    using scan_to_slice [of cursor until bs 44] Cons.prems(2) assms(3) f(2)
    by (simp add: spelled e_def takeWhile_stop)
  have trim: "trim_bounds bs cursor e = Some (cursor, e)"
    using trim_field [OF e(1) f(1) _ _ assms(5)] ce lt assms(3) by simp
  have name: "scan_to bs 32 cursor e = Some (cursor + length (field_name f))"
    using scan_name [OF e(1)] ce lt assms(3) by simp
  have "slice bs cursor (cursor + length (field_name f)) = take (length (field_name f)) f"
    by (rule slice_prefix [OF e(1)]) (use field_split [OF f(1)] lt assms(3) in \<open>simp_all add: e_def\<close>)
  then have nm: "slice bs cursor (cursor + length (field_name f)) = field_name f"
    by (simp add: field_name_def takeWhile_eq_take [symmetric])
  have "field_name f \<noteq> []" using f(1) by (simp add: field_ok_def name_ok_def)
  moreover have "eq_ignore_ascii_case bs cursor (cursor + length (field_name f)) a b \<longleftrightarrow>
      folded_name f = map to_ascii_lowercase (slice bs a b)"
    using eq_ignore_ascii_case_slice [of cursor "cursor + length (field_name f)" bs a b] assms(6,7)
      field_split [OF f(1)] lt assms(3) by (simp add: nm folded_name_def e_def)
  moreover have "field_name_collides bs (e + length ?sep) until a b \<longleftrightarrow>
      map to_ascii_lowercase (slice bs a b) \<in> set (map (folded_name \<circ> fst) ds)"
    by (rule Cons.IH) (use nxt Cons.prems(3) in auto)
  ultimately show ?case
    using ce lt scan trim name skip
    by (subst field_name_collides.simps) (auto simp: d)
qed


text \<open>The scanner as a recursion over the remaining text, with the names seen so far.\<close>

fun drop_space :: "bytes \<Rightarrow> bytes" where
  "drop_space (b # bs) = (if b = 32 then bs else b # bs)"
| "drop_space [] = []"

lemma length_drop_space: "length (drop_space bs) \<le> length bs"
  by (cases bs) auto

function accepts :: "bytes list \<Rightarrow> nat \<Rightarrow> bytes \<Rightarrow> bool" where
  "accepts seen n s \<longleftrightarrow>
     (let f = takeWhile (\<lambda>b. b \<noteq> 44) s in
      field_ok f \<and> folded_name f \<notin> set seen \<and> n < MAX_SCHEMA_FIELDS \<and>
      (case dropWhile (\<lambda>b. b \<noteq> 44) s of
         [] \<Rightarrow> True
       | _ # rest \<Rightarrow> accepts (seen @ [folded_name f]) (Suc n) (drop_space rest)))"
  by pat_completeness auto
termination
proof (relation "measure (\<lambda>(seen, n, s). length s)", goal_cases)
  case (2 seen n s f b rest)
  then have "length (b # rest) \<le> length s" by (metis length_dropWhile_le)
  with length_drop_space [of rest] show ?case by simp
qed simp

declare accepts.simps [simp del]

lemma accepts_field:
  assumes "accepts seen n s"
  shows "s \<noteq> [] \<and> hd s \<noteq> 32"
proof -
  have "field_ok (takeWhile (\<lambda>b. b \<noteq> 44) s)"
    using assms by (subst (asm) accepts.simps) (simp add: Let_def)
  from field_ok_ends [OF this] show ?thesis by (cases s) (auto split: if_splits)
qed

lemma accepts_grammar:
  "accepts seen n s \<longleftrightarrow> (\<exists>f rest. s = joined f rest \<and>
     (\<forall>g\<in>set (f # map snd rest). field_ok g \<and> 44 \<notin> set g) \<and>
     distinct (seen @ map folded_name (f # map snd rest)) \<and> n + length (f # map snd rest) \<le> MAX_SCHEMA_FIELDS)"
  if "distinct seen" for seen n s
  using that
proof (induction seen n s rule: accepts.induct)
  case (1 seen n s)
  let ?f = "takeWhile (\<lambda>b. b \<noteq> 44) s"
  have split: "s = ?f @ dropWhile (\<lambda>b. b \<noteq> 44) s" by simp
  have nocomma: "44 \<notin> set ?f" by (auto dest: set_takeWhileD)
  show ?case
  proof (cases "dropWhile (\<lambda>b. b \<noteq> 44) s")
    case Nil
    with split have s: "?f = s" by simp
    have "joined f rest = s \<Longrightarrow> rest = [] \<and> f = s" for f rest
      using nocomma unfolding s by (cases rest) auto
    then have only: "s = joined f rest \<longleftrightarrow> rest = [] \<and> f = s" for f rest by (metis joined.simps(1))
    have "accepts seen n s \<longleftrightarrow> field_ok s \<and> folded_name s \<notin> set seen \<and> n < MAX_SCHEMA_FIELDS"
      by (subst accepts.simps) (simp only: Let_def s Nil list.case simp_thms)
    with 1(2) nocomma show ?thesis unfolding only s by auto
  next
    case (Cons c rest)
    then have c: "c = 44" using hd_dropWhile [of "\<lambda>b. b \<noteq> 44" s] by simp
    with split Cons have s: "s = ?f @ 44 # rest" by metis
    have ind: "accepts (seen @ [folded_name ?f]) (Suc n) (drop_space rest) \<longleftrightarrow>
        (\<exists>f' rest'. drop_space rest = joined f' rest' \<and>
          (\<forall>g\<in>set (f' # map snd rest'). field_ok g \<and> 44 \<notin> set g) \<and>
          distinct ((seen @ [folded_name ?f]) @ map folded_name (f' # map snd rest')) \<and>
          Suc n + length (f' # map snd rest') \<le> MAX_SCHEMA_FIELDS)"
      if "field_ok ?f" "folded_name ?f \<notin> set seen" "n < MAX_SCHEMA_FIELDS"
      by (rule 1(1) [OF refl Cons]) (use that 1(2) in simp)
    show ?thesis (is "_ \<longleftrightarrow> ?R")
    proof
      assume "accepts seen n s"
      then have acc: "field_ok ?f" "folded_name ?f \<notin> set seen" "n < MAX_SCHEMA_FIELDS"
        "accepts (seen @ [folded_name ?f]) (Suc n) (drop_space rest)"
        using Cons by (subst (asm) accepts.simps, simp add: Let_def)+
      from ind [OF acc(1-3)] acc(4) obtain f' rest' where r: "drop_space rest = joined f' rest'"
        "\<forall>g\<in>set (f' # map snd rest'). field_ok g \<and> 44 \<notin> set g"
        "distinct ((seen @ [folded_name ?f]) @ map folded_name (f' # map snd rest'))"
        "Suc n + length (f' # map snd rest') \<le> MAX_SCHEMA_FIELDS"
        by blast
      have "rest = (if rest \<noteq> [] \<and> hd rest = 32 then [32] else []) @ drop_space rest"
        by (cases rest) auto
      then obtain sp where "rest = (if sp then [32] else []) @ drop_space rest" by blast
      with s r(1) have "s = joined ?f ((sp, f') # rest')" by simp
      with r(2-) acc(1) nocomma show ?R
        by (intro exI [of _ ?f] exI [of _ "(sp, f') # rest'"]) auto
    next
      assume ?R
      then obtain f rest0 where r: "s = joined f rest0"
        "\<forall>g\<in>set (f # map snd rest0). field_ok g \<and> 44 \<notin> set g"
        "distinct (seen @ map folded_name (f # map snd rest0))"
        "n + length (f # map snd rest0) \<le> MAX_SCHEMA_FIELDS"
        by blast
      have "44 \<in> set s" by (subst s) simp
      with r(1,2) obtain sp g rest' where rest0: "rest0 = (sp, g) # rest'"
        by (cases rest0) auto
      then have s2: "s = f @ 44 # (if sp then [32] else []) @ joined g rest'" using r(1) by simp
      then have f: "?f = f" using r(2) by (simp add: takeWhile_stop)
      with s s2 have rest: "rest = (if sp then [32] else []) @ joined g rest'" by simp
      have "field_ok g" using r(2) rest0 by simp
      then have "joined g rest' \<noteq> [] \<and> hd (joined g rest') \<noteq> 32"
        using field_ok_ends [of g] by (cases rest') auto
      then have "drop_space rest = joined g rest'" unfolding rest by (cases "joined g rest'") auto
      then have "accepts (seen @ [folded_name ?f]) (Suc n) (drop_space rest)"
        using r(2-) unfolding f by (subst ind [unfolded f]) (auto simp: rest0)
      then show "accepts seen n s"
        using r(2-) Cons unfolding f
        by (subst accepts.simps) (auto simp: Let_def f rest0)
    qed
  qed
qed


lemma slice_suffix:
  assumes "slice bs i j = f" "i + n \<le> j" "j \<le> length bs"
  shows "slice bs (i + n) j = drop n f"
proof -
  have "drop n (slice bs i j) = slice bs (i + n) j"
    by (simp add: slice_def drop_take add.commute)
  with assms(1) show ?thesis by simp
qed

lemma check_field_iff:
  assumes f: "slice bs start fe = f" and le: "start \<le> fe" "fe \<le> length bs"
    and first: "start < fe \<Longrightarrow> bs ! start \<noteq> 32" and print: "\<forall>b\<in>set bs. 32 \<le> b"
    and region: "slice bs rs start = consumed ds" "rs \<le> start" "\<forall>(g, sp)\<in>set ds. field_ok g \<and> 44 \<notin> set g"
  shows "is_ok (check_field bs rs start fe) \<longleftrightarrow>
    field_ok f \<and> folded_name f \<notin> set (map (folded_name \<circ> fst) ds)"
proof (cases "start < fe \<and> last f \<noteq> 32")
  case False
  then have "\<not> field_ok f" using field_ok_ends [of f] f le by (cases "start < fe") (auto simp: slice_empty)
  moreover have "\<not> is_ok (check_field bs rs start fe)"
    using False le slice_last [of start fe bs] f
    by (cases "start < fe") (auto simp: check_field_def is_ok_def)
  ultimately show ?thesis by simp
next
  case True
  let ?n = "length (field_name f)" and ?L = "length f"
  have L: "fe = start + ?L" "?L > 0" using f le True length_slice [of start fe bs] by auto
  have lastb: "bs ! (fe - 1) \<noteq> 32" using slice_last [of start fe bs] f le True by simp
  have in32: "32 \<le> bs ! k" if "k < length bs" for k using print that by simp
  have trim: "trim_bounds bs start fe = Some (start, fe)"
    by (rule trim_bounds_trimmed)
      (use True le lastb first in \<open>auto simp: printable_whitespace [OF in32]\<close>)
  have scan: "scan_to bs 32 start fe = Some (start + ?n)" by (rule scan_name [OF f le])
  have nL: "?n \<le> ?L" by (simp add: field_name_def length_takeWhile_le)
  have name: "slice bs start (start + ?n) = field_name f"
    using slice_prefix [OF f _ le(2), of ?n] nL L by (simp add: field_name_def takeWhile_eq_take [symmetric])
  have collide: "field_name_collides bs rs start start (start + ?n) \<longleftrightarrow>
      folded_name f \<in> set (map (folded_name \<circ> fst) ds)"
    using collides_iff [OF region(1,2) _ region(3) print, of start "start + ?n"] le nL L
    by (simp add: name folded_name_def)
  have "get_byte bs (fe - 1) \<noteq> Some 32" using lastb by (simp add: get_byte_def)
  then have ok: "is_ok (check_field bs rs start fe) \<longleftrightarrow> fe - start \<le> 64 \<and> ?n \<noteq> 0 \<and> start + ?n < fe \<and>
      ?n \<le> 32 \<and> start + Suc ?n < fe \<and> get_byte bs (start + Suc ?n) \<noteq> Some 32 \<and>
      fe - (start + Suc ?n) \<le> 32 \<and> is_valid_identifier bs start (start + ?n) \<and>
      is_valid_type bs (start + Suc ?n) fe \<and> \<not> field_name_collides bs rs start start (start + ?n)"
    by (auto simp: check_field_def trim scan Let_def is_ok_def not_less)
  show ?thesis
  proof (cases "?L \<le> 64 \<and> ?n \<noteq> 0 \<and> Suc ?n < ?L \<and> ?n \<le> 32 \<and> ?L - Suc ?n \<le> 32")
    case False
    then have "\<not> field_ok f"
      by (auto simp: field_ok_def name_ok_def type_ok_def field_type_def)
    moreover have "\<not> is_ok (check_field bs rs start fe)"
      using False L(1) unfolding ok by auto
    ultimately show ?thesis by simp
  next
    case dims: True
    have ty: "slice bs (start + Suc ?n) fe = field_type f"
      using slice_suffix [OF f _ le(2), of "Suc ?n"] dims L by (simp add: field_type_def)
    have tylen: "start + Suc ?n < fe" "fe - (start + Suc ?n) \<le> 32" using dims L by simp_all
    have hd: "bs ! (start + Suc ?n) = hd (field_type f)"
      using slice_hd [OF tylen(1) le(2)] ty by simp
    have ident: "is_valid_identifier bs start (start + ?n) \<longleftrightarrow> name_ok (field_name f)"
      using is_valid_identifier_slice [of start "start + ?n" bs] dims L le by (simp add: name)
    have type: "bs ! (start + Suc ?n) \<noteq> 32 \<Longrightarrow>
        is_valid_type bs (start + Suc ?n) fe \<longleftrightarrow> type_ok (field_type f)"
      using is_valid_type_slice [OF tylen(1) le(2) tylen(2)] unfolding ty .
    have "type_ok (field_type f) \<Longrightarrow> hd (field_type f) \<noteq> 32" by (simp add: type_ok_def)
    then show ?thesis
      using dims L(1) le hd ident type tylen unfolding ok collide
      by (auto simp: field_ok_def get_byte_def)
  qed
qed

lemma field_loop_iff:
  assumes "fin \<le> length bs" and print: "\<forall>b\<in>set bs. 32 \<le> b" and "start < fin" and "bs ! start \<noteq> 32"
    and "slice bs rs start = consumed ds" "rs \<le> start" "\<forall>(g, sp)\<in>set ds. field_ok g \<and> 44 \<notin> set g"
  shows "is_ok (field_loop bs rs fin start n) \<longleftrightarrow>
    accepts (map (folded_name \<circ> fst) ds) n (slice bs start fin)"
  using assms(3-)
proof (induction "fin - start" arbitrary: start ds n rule: less_induct)
  case less
  let ?s = "slice bs start fin"
  let ?f = "takeWhile (\<lambda>b. b \<noteq> 44) ?s" and ?r = "dropWhile (\<lambda>b. b \<noteq> 44) ?s"
  let ?seen = "map (folded_name \<circ> fst) ds"
  define e where "e = start + length ?f"
  have s: "?s = ?f @ ?r" by simp
  have e: "slice bs start e = ?f" "slice bs e fin = ?r" "e \<le> fin"
    using slice_split [OF s] less.prems(1) assms(1) by (simp_all add: e_def)
  have scan: "scan_to bs 44 start fin = Some e"
    using scan_to_slice [of start fin bs 44] less.prems(1) assms(1) by (simp add: e_def)
  have check: "is_ok (check_field bs rs start e) \<longleftrightarrow> field_ok ?f \<and> folded_name ?f \<notin> set ?seen"
    by (rule check_field_iff [OF e(1) _ _ _ print less.prems(3-5)])
      (use less.prems(2) e(3) assms(1) in \<open>simp_all add: e_def\<close>)
  have nocomma: "44 \<notin> set ?f" by (auto dest: set_takeWhileD)
  have loop: "is_ok (field_loop bs rs fin start n) \<longleftrightarrow>
      is_ok (check_field bs rs start e) \<and> n < MAX_SCHEMA_FIELDS \<and>
      (e < fin \<longrightarrow> (let k = skip_space bs (e + 1) fin in
         \<not> (k > e + 1 \<and> k < fin \<and> get_byte bs k = Some 32) \<and> k < fin \<and>
         is_ok (field_loop bs rs fin k (Suc n))))"
    using less.prems(1)
    by (subst field_loop.simps) (auto simp: scan is_ok_def Let_def split: sum.splits)
  show ?case
  proof (cases "e < fin")
    case False
    with e(2,3) have "?r = []" by (simp add: slice_empty)
    with False loop check show ?thesis
      by (subst accepts.simps) (simp only: Let_def list.case simp_thms, blast)
  next
    case True
    then have r: "?r = 44 # slice bs (Suc e) fin"
      using slice_Cons [OF True assms(1)] e(2) hd_dropWhile [of "\<lambda>b. b \<noteq> 44" ?s] by simp
    let ?rest = "slice bs (Suc e) fin" and ?k = "skip_space bs (e + 1) fin"
    have k: "?k = (if Suc e < fin \<and> bs ! Suc e = 32 then e + 2 else e + 1)" "e < ?k"
      using assms(1) by (auto simp: skip_space_def get_byte_def)
    have kr: "slice bs ?k fin = drop_space ?rest"
    proof (cases "Suc e < fin")
      case True
      with assms(1) show ?thesis unfolding k(1) by (simp add: slice_Cons)
    qed (simp add: skip_space_def slice_empty)
    have acc: "accepts ?seen n ?s \<longleftrightarrow> field_ok ?f \<and> folded_name ?f \<notin> set ?seen \<and> n < MAX_SCHEMA_FIELDS \<and>
        accepts (?seen @ [folded_name ?f]) (Suc n) (slice bs ?k fin)"
      by (subst accepts.simps) (simp only: Let_def r list.case kr)
    show ?thesis
    proof (cases "field_ok ?f \<and> ?k < fin \<and> bs ! ?k \<noteq> 32")
      case ok: True
      let ?ds = "ds @ [(?f, Suc e < ?k)]"
      have at_e: "bs ! e = 44" using slice_hd [OF True assms(1)] unfolding e(2) r by simp
      have sep: "slice bs e ?k = 44 # (if Suc e < ?k then [32] else [])"
      proof (cases "Suc e < fin \<and> bs ! Suc e = 32")
        case sp: True
        then have "?k = Suc (Suc e)" using k(1) by simp
        moreover have "slice bs e (Suc (Suc e)) = [bs ! e, bs ! Suc e]"
          using sp assms(1) by (simp add: slice_Cons)
        ultimately show ?thesis using sp at_e by simp
      next
        case False
        then have "?k = Suc e" using k(1) by auto
        moreover have "slice bs e (Suc e) = [bs ! e]" using True assms(1) by (simp add: slice_Cons)
        ultimately show ?thesis using at_e by simp
      qed
      have se: "start \<le> e" by (simp add: e_def)
      have "slice bs rs e = consumed ds @ ?f"
        using slice_append [OF less.prems(4) se, of bs] unfolding e(1) less.prems(3) by (rule sym)
      moreover have "slice bs rs ?k = slice bs rs e @ slice bs e ?k"
        by (rule slice_append [symmetric]) (use less.prems(4) se k(2) in linarith)+
      ultimately have "slice bs rs ?k = consumed ?ds"
        unfolding sep consumed_snoc by (simp only: append_assoc)
      then have "is_ok (field_loop bs rs fin ?k (Suc n)) \<longleftrightarrow>
          accepts (map (folded_name \<circ> fst) ?ds) (Suc n) (slice bs ?k fin)"
        using ok k(2) se less.prems(1,4,5) nocomma by (intro less.hyps) auto
      with ok check True assms(1) show ?thesis
        unfolding loop acc by (auto simp: Let_def get_byte_def)
    next
      case bad: False
      have "\<not> accepts ?seen n ?s"
        using bad accepts_field [of _ _ "slice bs ?k fin"] slice_hd [of ?k fin bs] assms(1)
        unfolding acc by (cases "?k < fin") (auto simp: slice_empty)
      moreover have "\<not> is_ok (field_loop bs rs fin start n)"
        using bad True check assms(1) k unfolding loop
        by (auto simp: Let_def get_byte_def split: if_splits)
      ultimately show ?thesis by simp
    qed
  qed
qed


lemma field_loop_counts: "field_loop bs rs fin start n = Inr m \<Longrightarrow> start < fin \<Longrightarrow> n < m"
proof (induction bs rs fin start n rule: field_loop.induct)
  case (1 bs rs fin start n)
  from 1(2,3) obtain e r where step: "scan_to bs 44 start fin = Some e" "check_field bs rs start e = Inr r"
    "\<not> n + 1 > MAX_SCHEMA_FIELDS"
    and res: "m = n + 1 \<or> \<not> e \<ge> fin \<and> skip_space bs (e + 1) fin < fin \<and>
      \<not> (skip_space bs (e + 1) fin > e + 1 \<and> skip_space bs (e + 1) fin < fin \<and>
         get_byte bs (skip_space bs (e + 1) fin) = Some 32) \<and>
      field_loop bs rs fin (skip_space bs (e + 1) fin) (n + 1) = Inr m"
    by (subst (asm) field_loop.simps) (auto simp: Let_def split: option.splits sum.splits if_splits)
  from res show ?case
  proof
    assume rec: "\<not> e \<ge> fin \<and> skip_space bs (e + 1) fin < fin \<and>
      \<not> (skip_space bs (e + 1) fin > e + 1 \<and> skip_space bs (e + 1) fin < fin \<and>
         get_byte bs (skip_space bs (e + 1) fin) = Some 32) \<and>
      field_loop bs rs fin (skip_space bs (e + 1) fin) (n + 1) = Inr m"
    then have "n + 1 < m" using step by (intro 1(1) [OF 1(3) step(1,2,3) _ refl]) auto
    then show ?thesis by simp
  qed simp
qed

lemma joined_ends:
  "f \<noteq> [] \<Longrightarrow> hd (joined f rest) = hd f \<and> joined f rest \<noteq> []"
  "\<forall>g\<in>set (f # map snd rest). g \<noteq> [] \<Longrightarrow> last (joined f rest) = last (last (f # map snd rest))"
  by (induction f rest rule: joined.induct) auto

lemma printable_schema:
  "\<not> contains_control_or_invalid_whitespace s \<Longrightarrow> b \<in> set s \<Longrightarrow> 32 \<le> b"
  by (auto simp: contains_control_or_invalid_whitespace_def list_ex_iff not_less)

section \<open>Extending a schema by appending fields\<close>

lemma replicate_space_prefix:
  assumes "replicate k 32 @ xs = replicate k' 32 @ ys" "xs \<noteq> []" "ys \<noteq> []" "hd xs \<noteq> 32" "hd ys \<noteq> (32 :: byte)"
  shows "k = k' \<and> xs = ys"
  using assms
proof (induction k arbitrary: k')
  case 0
  then show ?case by (cases k') (auto simp: neq_Nil_conv)
next
  case (Suc k)
  then show ?case by (cases k') (auto simp: neq_Nil_conv)
qed

lemma comma_split:
  assumes "xs @ 44 # zs = ys @ 44 # ws" "44 \<notin> set xs" "(44 :: byte) \<notin> set ys"
  shows "xs = ys \<and> zs = ws"
  using assms
proof (induction xs arbitrary: ys)
  case Nil
  then show ?case by (cases ys) auto
next
  case (Cons x xs)
  then show ?case by (cases ys) auto
qed

lemma joined_extends:
  assumes "joined f rest @ replicate m 32 @ 44 # t = joined g rest' @ replicate m' 32"
    and "\<forall>x\<in>set (f # map snd rest) \<union> set (g # map snd rest'). field_ok x \<and> 44 \<notin> set x"
  shows "\<exists>more. more \<noteq> [] \<and> g # map snd rest' = f # map snd rest @ more"
  using assms
proof (induction rest arbitrary: f g rest')
  case Nil
  then have g: "field_ok g" "44 \<notin> set g" "44 \<notin> set f" by auto
  have "rest' \<noteq> []"
  proof
    assume "rest' = []"
    moreover have "44 \<in> set (joined f [] @ replicate m 32 @ 44 # t)" by simp
    ultimately have "44 \<in> set (g @ replicate m' 32)" unfolding Nil(1) by simp
    with g show False by auto
  qed
  then obtain sp h rs where rest': "rest' = (sp, h) # rs" by (cases rest') auto
  with Nil(1) have "(f @ replicate m 32) @ 44 # t = g @ 44 # ((if sp then [32] else []) @ joined h rs @ replicate m' 32)"
    by simp
  from comma_split [OF this] g have "f @ replicate m 32 = g" by auto
  moreover from this field_ok_ends [OF g(1)] have "m = 0" by (cases m) (auto simp: replicate_append_same [symmetric])
  ultimately show ?case using rest' by simp
next
  case (Cons p rest)
  obtain sp f2 where p: "p = (sp, f2)" by (cases p)
  from Cons.prems(2) p have ok: "field_ok g" "44 \<notin> set g" "44 \<notin> set f" "field_ok f2" by auto
  let ?l = "(if sp then [32] else []) @ joined f2 rest @ replicate m 32 @ 44 # t"
  have eq: "f @ 44 # ?l = joined g rest' @ replicate m' 32" using Cons.prems(1) p by simp
  have "rest' \<noteq> []"
  proof
    assume "rest' = []"
    moreover have "44 \<in> set (f @ 44 # ?l)" by simp
    ultimately have "44 \<in> set (g @ replicate m' 32)" unfolding eq by simp
    with ok show False by auto
  qed
  then obtain sp' g2 rs where rest': "rest' = (sp', g2) # rs" by (cases rest') auto
  let ?r = "(if sp' then [32] else []) @ joined g2 rs @ replicate m' 32"
  have "f @ 44 # ?l = g @ 44 # ?r" using eq rest' by simp
  from comma_split [OF this] ok have fg: "f = g" "?l = ?r" by auto
  have "field_ok g2" using Cons.prems(2) rest' by auto
  then have hds: "f2 \<noteq> []" "hd f2 \<noteq> 32" "g2 \<noteq> []" "hd g2 \<noteq> 32"
    using field_ok_ends ok(4) by blast+
  have "replicate (of_bool sp) 32 @ (joined f2 rest @ replicate m 32 @ 44 # t) =
      replicate (of_bool sp') 32 @ (joined g2 rs @ replicate m' 32)"
    using fg(2) by (cases sp; cases sp') simp_all
  from replicate_space_prefix [OF this] hds joined_ends(1)
  have "joined f2 rest @ replicate m 32 @ 44 # t = joined g2 rs @ replicate m' 32" by simp
  from Cons.IH [OF this] Cons.prems(2) p rest' obtain more where
    "more \<noteq> []" "g2 # map snd rs = f2 # map snd rest @ more"
    by auto
  with fg(1) p rest' show ?case by auto
qed

lemma appended_fields:
  assumes "spells s fs" "spells (s @ 44 # t) gs" "schema_fields_ok fs" "schema_fields_ok gs"
  shows "\<exists>more. more \<noteq> [] \<and> gs = fs @ more"
proof -
  from assms(1,2) obtain k m f rest k' m' g rest' where
    fs: "fs = f # map snd rest" "s = replicate k 32 @ joined f rest @ replicate m 32" and
    gs: "gs = g # map snd rest'" "s @ 44 # t = replicate k' 32 @ joined g rest' @ replicate m' 32"
    unfolding spells_def by blast
  have ok: "\<forall>x\<in>set (f # map snd rest) \<union> set (g # map snd rest'). field_ok x \<and> 44 \<notin> set x"
    using assms(3,4) fs(1) gs(1) by (auto simp: schema_fields_ok_def)
  then have "f \<noteq> []" "hd f \<noteq> 32" "g \<noteq> []" "hd g \<noteq> 32" using field_ok_ends by auto
  moreover have "replicate k 32 @ (joined f rest @ replicate m 32 @ 44 # t) =
      replicate k' 32 @ (joined g rest' @ replicate m' 32)"
    using fs(2) gs(2) by simp
  ultimately have "joined f rest @ replicate m 32 @ 44 # t = joined g rest' @ replicate m' 32"
    using replicate_space_prefix [of k "joined f rest @ replicate m 32 @ 44 # t" k'] joined_ends(1) by simp
  from joined_extends [OF this ok] fs(1) gs(1) show ?thesis by simp
qed

lemma schema_accepted_iff:
  "validate_schema_syntax s = Inr () \<longleftrightarrow>
   length s \<le> 1024 \<and> \<not> contains_control_or_invalid_whitespace s \<and> (\<exists>fs. spells s fs \<and> schema_fields_ok fs)"
proof (cases "s = [] \<or> length s > 1024 \<or> contains_control_or_invalid_whitespace s")
  case True
  moreover have "\<not> spells [] fs \<or> \<not> schema_fields_ok fs" for fs
    using field_ok_ends joined_ends(1) by (fastforce simp: spells_def schema_fields_ok_def)
  ultimately show ?thesis
    by (auto simp: validate_schema_syntax_def MAX_SCHEMA_LENGTH_def)
next
  case False
  have print: "\<forall>b\<in>set s. 32 \<le> b" using False printable_schema by blast
  have valid: "validate_schema_syntax s = Inr () \<longleftrightarrow> (\<exists>i j. trim_bounds s 0 (length s) = Some (i, j) \<and>
      get_byte s i \<noteq> Some 44 \<and> get_byte s (j - 1) \<noteq> Some 44 \<and> is_ok (field_loop s i j i 0))"
  proof (cases "trim_bounds s 0 (length s)")
    case (Some p)
    obtain i j where p: "p = (i, j)" by (cases p)
    have "i < j" using trim_bounds_props [of s 0 "length s" i j] Some p by simp
    from field_loop_counts [OF _ this, of s i 0] False Some p show ?thesis
      by (auto simp: validate_schema_syntax_def MAX_SCHEMA_LENGTH_def is_ok_def bind_r_def split: sum.splits)
  qed (use False in \<open>simp add: validate_schema_syntax_def\<close>)
  show ?thesis
  proof
    assume "validate_schema_syntax s = Inr ()"
    then obtain i j where t: "trim_bounds s 0 (length s) = Some (i, j)"
      and loop: "is_ok (field_loop s i j i 0)"
      unfolding valid by blast
    have w: "i < j \<and> j \<le> length s \<and> s = replicate i 32 @ slice s i j @ replicate (length s - j) 32 \<and>
        \<not> is_ascii_whitespace (s ! i)"
      using trim_bounds_whole [OF t] print printable_whitespace by blast
    then have "s ! i \<noteq> 32" by (auto simp: is_ascii_whitespace_def)
    with w loop have "accepts [] 0 (slice s i j)"
      using field_loop_iff [of j s i i "[]" 0] print by simp
    then obtain f rest where "slice s i j = joined f rest" "schema_fields_ok (f # map snd rest)"
      using accepts_grammar [of "[]" 0 "slice s i j"] by (auto simp: schema_fields_ok_def)
    with w have "spells s (f # map snd rest)" unfolding spells_def by metis
    with \<open>schema_fields_ok (f # map snd rest)\<close> False show "length s \<le> 1024 \<and>
        \<not> contains_control_or_invalid_whitespace s \<and> (\<exists>fs. spells s fs \<and> schema_fields_ok fs)"
      by auto
  next
    assume "length s \<le> 1024 \<and> \<not> contains_control_or_invalid_whitespace s \<and>
      (\<exists>fs. spells s fs \<and> schema_fields_ok fs)"
    then obtain k m f rest where s: "s = replicate k 32 @ joined f rest @ replicate m 32"
      and ok: "schema_fields_ok (f # map snd rest)"
      unfolding spells_def by blast
    let ?x = "joined f rest"
    have fields: "field_ok g \<and> 44 \<notin> set g \<and> g \<noteq> []" if "g \<in> set (f # map snd rest)" for g
      using ok that field_ok_ends by (auto simp: schema_fields_ok_def)
    let ?l = "last (f # map snd rest)"
    have l: "?l \<in> set (f # map snd rest)" by (rule last_in_set) simp
    have ends: "hd ?x = hd f" "?x \<noteq> []" "last ?x = last ?l"
      using joined_ends fields by auto
    have "hd f \<noteq> 32" "hd f \<noteq> 44" "last ?l \<noteq> 32" "last ?l \<noteq> 44"
      using fields [of f] fields [OF l] field_ok_ends [of f] field_ok_ends [of ?l]
      by (auto simp: dest: hd_in_set last_in_set)
    with ends have e: "hd ?x \<noteq> 32" "hd ?x \<noteq> 44" "last ?x \<noteq> 32" "last ?x \<noteq> 44" by simp_all
    have inx: "hd ?x \<in> set s" "last ?x \<in> set s" using ends(2) by (auto simp: s)
    have t: "trim_bounds s 0 (length s) = Some (k, k + length ?x)"
      by (rule trim_bounds_padded [OF s ends(2)])
        (use inx print e printable_whitespace in blast)+
    have at: "s ! k = hd ?x" "s ! (k + length ?x - 1) = last ?x"
      using ends(2) by (simp_all add: s nth_append hd_conv_nth last_conv_nth neq_Nil_conv) auto
    have x: "slice s k (k + length ?x) = ?x" by (simp add: s slice_def)
    have "accepts [] 0 ?x"
      using ok accepts_grammar [of "[]" 0 ?x] by (auto simp: schema_fields_ok_def)
    then have "is_ok (field_loop s k (k + length ?x) k 0)"
      using field_loop_iff [of "k + length ?x" s k k "[]" 0] print at(1) e(1) ends(2) x s by simp
    with t at e show "validate_schema_syntax s = Inr ()"
      unfolding valid by (auto simp: get_byte_def)
  qed
qed

section \<open>Properties\<close>

text \<open>
  C7: The schema validator decides a grammar. \<^verbatim>\<open>validate_schema_syntax\<close> terminates on every byte string
  and accepts it if and only if it has at most 1024 bytes, no control, invisible or malformed
  characters, and spells, up to surrounding spaces, a comma-separated list of at most 64 well-formed
  fields whose names differ even when the case of letters is ignored.
\<close>

theorem schema_syntax_grammar:
  "validate_schema_syntax s = Inr () \<longleftrightarrow>
   length s \<le> 1024 \<and> \<not> contains_control_or_invalid_whitespace s \<and> (\<exists>fs. spells s fs \<and> schema_fields_ok fs)"
  by (rule schema_accepted_iff)

end
