(* ===== verification/Registry_State.thy ===== *)
theory Registry_State
  imports Schema_Syntax Typed_Data
begin

text \<open>
  The storage of the schema registry (\<^verbatim>\<open>contracts/schema-registry/src/lib.rs\<close> and \<^verbatim>\<open>storage.rs\<close>) and the
  free functions that its entry points share: lineage and history walks, owner sets, delegate lists,
  approvals and the category index. A storage key is a field of the state; a keyed family of entries is
  a map. Time-to-live extensions are not part of the state.
\<close>

section \<open>State\<close>

record owner_set =
  os_owners :: "address list"
  os_threshold :: nat
  os_version :: nat

record pending_ownership =
  po_owner_set_version :: nat
  po_new_owner :: address
  po_approvals :: "address list"
  po_created_at :: u64

record transfer_status =
  ts_new_owner :: address
  ts_approvals :: nat
  ts_threshold :: nat
  ts_executed :: bool

datatype (plugins only: code size) reg_event =
    SchemaRegistered uid address
  | SchemaDeprecatedEv uid address
  | SchemaDelegateAdded uid address address
  | SchemaDelegateRemoved uid address address
  | SchemaAttesterAdded uid address address
  | SchemaAttesterRemoved uid address address
  | SchemaOwnershipTransferred uid address address
  | SchemaOwnershipProposed uid address address
  | SchemaOwnerSetUpdated uid address owner_set
  | SchemaOwnerProposed uid address pending_ownership
  | SchemaOwnerApproved uid address nat
  | SchemaOwnerTransferCancelled uid address
  | SchemaQuarantinedEv uid bool bytes
  | SchemaFrostGroupUpdated uid address bool bytes32 nat nat
  | SchemaMerkleRootUpdated uid address bool bytes32 nat
  | SchemaMetadataUpdated uid bytes address
  | SchemaFeeUpdated "(address \<times> int) option" address int address
  | RegTreasuryUpdated "address option" address address
  | RegUpgrade nat nat bytes32
  | RegContractUpgraded bytes32 bytes32 address

record reg_state =
  rg_admin :: "address option"
  rg_version :: "nat option"
  rg_wasm_hash :: "bytes32 option"
  rg_fee :: "(address \<times> int) option"
  rg_treasury :: "address option"
  rg_schemas :: "uid \<rightharpoonup> schema_record"
  rg_creators :: "uid \<rightharpoonup> address"
  rg_deprecated :: "uid \<Rightarrow> bool"
  rg_max_ttls :: "uid \<rightharpoonup> u64"
  rg_policies :: "uid \<rightharpoonup> revocation_policy"
  rg_metadata :: "uid \<rightharpoonup> bytes"
  rg_delegates :: "uid \<times> address \<Rightarrow> bool"
  rg_delegate_expiry :: "uid \<times> address \<rightharpoonup> u64"
  rg_delegate_list :: "uid \<rightharpoonup> address list"
  rg_acl :: "uid \<times> address \<Rightarrow> bool"
  rg_acl_count :: "uid \<rightharpoonup> nat"
  rg_owner_sets :: "uid \<rightharpoonup> owner_set"
  rg_pending_owner :: "uid \<rightharpoonup> address"
  rg_pending_ownership :: "uid \<rightharpoonup> pending_ownership"
  rg_royalties :: "uid \<rightharpoonup> nat"
  rg_quarantine :: "uid \<Rightarrow> bool"
  rg_quarantine_uri :: "uid \<rightharpoonup> bytes"
  rg_frost :: "uid \<rightharpoonup> frost_group"
  rg_merkle_roots :: "uid \<rightharpoonup> bytes32"
  rg_count :: "nat option"
  rg_index :: "nat \<rightharpoonup> uid"
  rg_categories :: "uid \<rightharpoonup> bytes"
  rg_category_count :: "bytes \<rightharpoonup> nat"
  rg_category_index :: "bytes \<times> nat \<rightharpoonup> uid"
  rg_predecessors :: "uid \<rightharpoonup> uid"
  rg_events :: "reg_event list"

definition reg_emit :: "reg_event \<Rightarrow> reg_state \<Rightarrow> reg_state" where
  "reg_emit ev s = s\<lparr>rg_events := rg_events s @ [ev]\<rparr>"

definition fresh_registry :: reg_state where
  "fresh_registry = \<lparr>rg_admin = None, rg_version = None, rg_wasm_hash = None, rg_fee = None,
     rg_treasury = None, rg_schemas = (\<lambda>_. None), rg_creators = (\<lambda>_. None), rg_deprecated = (\<lambda>_. False),
     rg_max_ttls = (\<lambda>_. None), rg_policies = (\<lambda>_. None), rg_metadata = (\<lambda>_. None),
     rg_delegates = (\<lambda>_. False), rg_delegate_expiry = (\<lambda>_. None), rg_delegate_list = (\<lambda>_. None),
     rg_acl = (\<lambda>_. False), rg_acl_count = (\<lambda>_. None), rg_owner_sets = (\<lambda>_. None),
     rg_pending_owner = (\<lambda>_. None), rg_pending_ownership = (\<lambda>_. None), rg_royalties = (\<lambda>_. None),
     rg_quarantine = (\<lambda>_. False), rg_quarantine_uri = (\<lambda>_. None), rg_frost = (\<lambda>_. None),
     rg_merkle_roots = (\<lambda>_. None), rg_count = None, rg_index = (\<lambda>_. None), rg_categories = (\<lambda>_. None),
     rg_category_count = (\<lambda>_. None), rg_category_index = (\<lambda>_. None), rg_predecessors = (\<lambda>_. None),
     rg_events = []\<rparr>"

section \<open>Constants\<close>

definition REG_MAX_KNOWN_VERSION :: nat where "REG_MAX_KNOWN_VERSION = 2"
definition MAX_SCHEMA_HISTORY_DEPTH :: nat where "MAX_SCHEMA_HISTORY_DEPTH = 64"
definition MAX_SCHEMA_LINEAGE_DEPTH :: nat where "MAX_SCHEMA_LINEAGE_DEPTH = 32"
definition MAX_SCAN_BUDGET :: nat where "MAX_SCAN_BUDGET = 100"
definition MAX_CREATOR_ROYALTY_BPS :: nat where "MAX_CREATOR_ROYALTY_BPS = 5000"
definition MAX_EXPLANATION_URI_LEN :: nat where "MAX_EXPLANATION_URI_LEN = 256"
definition MAX_CATEGORY_BYTES :: nat where "MAX_CATEGORY_BYTES = 32"
definition MAX_OWNER_SET :: nat where "MAX_OWNER_SET = 10"
definition MAX_METADATA_URI_LENGTH :: nat where "MAX_METADATA_URI_LENGTH = 256"
definition MAX_SCHEMA_BATCH_SIZE :: nat where "MAX_SCHEMA_BATCH_SIZE = 50"

section \<open>Shared checks\<close>

definition validate_metadata_uri :: "bytes \<Rightarrow> unit sas_result" where
  "validate_metadata_uri uri = (if length uri > MAX_METADATA_URI_LENGTH then Inl (Panic InvalidValue) else Inr ())"

definition is_append_only_schema :: "bytes \<Rightarrow> bytes \<Rightarrow> bool" where
  "is_append_only_schema predecessor successor =
     (let old_len = length predecessor; new_len = length successor in
      if new_len \<le> old_len \<or> old_len > 1024 \<or> new_len > 1024 then False
      else take old_len successor = predecessor \<and> successor ! old_len = 44)"

text \<open>
  The walk over predecessor edges, newest first. It stops with an error once the history holds 64
  UIDs, so 65 rounds of fuel are enough.
\<close>

fun history_walk :: "reg_state \<Rightarrow> nat \<Rightarrow> uid list \<Rightarrow> uid \<Rightarrow> uid list sas_result" where
  "history_walk s 0 history current = Inl HostTrap"
| "history_walk s (Suc fuel) history current =
     (if length history \<ge> MAX_SCHEMA_HISTORY_DEPTH then Inl (Panic InvalidSchemaDefinition)
      else if rg_schemas s current = None then Inl (Panic SchemaNotFound)
      else
        (case rg_predecessors s current of
           None \<Rightarrow> Inr (history @ [current])
         | Some parent \<Rightarrow> history_walk s fuel (history @ [current]) parent))"

definition schema_history :: "reg_state \<Rightarrow> uid \<Rightarrow> uid list sas_result" where
  "schema_history s u = history_walk s (Suc MAX_SCHEMA_HISTORY_DEPTH) [] u"

definition registry_admin :: "reg_state \<Rightarrow> address sas_result" where
  "registry_admin s = or_panic NotInitialized (rg_admin s)"

definition validate_category :: "bytes \<Rightarrow> unit sas_result" where
  "validate_category category =
     (if length category > MAX_CATEGORY_BYTES then Inl (Panic InvalidValue)
      else if list_ex (\<lambda>b. \<not> is_ascii_alphanumeric b \<and> b \<noteq> 45) category then Inl (Panic InvalidValue)
      else Inr ())"

definition index_category :: "uid \<Rightarrow> bytes \<Rightarrow> reg_state \<Rightarrow> reg_state sas_result" where
  "index_category u category s =
     bind_r (case rg_category_count s category of
               Some count \<Rightarrow> Inr count
             | None \<Rightarrow> if rg_category_index s (category, 0) \<noteq> None then Inl (Panic CountMetadataExpired)
                        else Inr 0) (\<lambda>count.
     bind_r (or_panic LimitExceeded (checked_add_u32 count 1)) (\<lambda>next_count.
     Inr (s\<lparr>rg_categories := (rg_categories s)(u \<mapsto> category),
            rg_category_index := (rg_category_index s)((category, count) \<mapsto> u),
            rg_category_count := (rg_category_count s)(category \<mapsto> next_count)\<rparr>)))"

text \<open>
  The walk over parent links. The loop runs while \<^verbatim>\<open>hops <= 32\<close>, so 33 rounds of fuel are enough.
\<close>

definition parent_of :: "reg_state \<Rightarrow> uid \<Rightarrow> uid option" where
  "parent_of s u = (case rg_schemas s u of None \<Rightarrow> None | Some r \<Rightarrow> sr_parent_schema_uid r)"

fun lineage_walk :: "reg_state \<Rightarrow> nat \<Rightarrow> uid \<Rightarrow> nat \<Rightarrow> (uid \<times> nat) sas_result" where
  "lineage_walk s 0 current hops = Inl (Panic LimitExceeded)"
| "lineage_walk s (Suc fuel) current hops =
     (case parent_of s current of
        Some parent \<Rightarrow> lineage_walk s fuel parent (saturating_add_u32 hops 1)
      | None \<Rightarrow> Inr (current, hops))"

definition lineage_root :: "reg_state \<Rightarrow> uid \<Rightarrow> (uid \<times> nat) sas_result" where
  "lineage_root s u = lineage_walk s (Suc MAX_SCHEMA_LINEAGE_DEPTH) u 0"

definition acl_count :: "reg_state \<Rightarrow> uid \<Rightarrow> nat" where
  "acl_count s u = (case rg_acl_count s u of Some n \<Rightarrow> n | None \<Rightarrow> 0)"

definition require_creator_auth :: "ledger_env \<Rightarrow> reg_state \<Rightarrow> uid \<Rightarrow> address sas_result" where
  "require_creator_auth env s u =
     (if rg_schemas s u = None then Inl (Panic SchemaNotFound)
      else
        bind_r (or_panic SchemaNotFound (rg_creators s u)) (\<lambda>owner.
        bind_r (require_auth env owner) (\<lambda>_. Inr owner)))"

section \<open>Owner sets\<close>

definition members_contain :: "address list \<Rightarrow> address \<Rightarrow> bool" where
  "members_contain members needle = list_ex (\<lambda>m. m = needle) members"

definition add_to_delegate_list :: "uid \<Rightarrow> address \<Rightarrow> reg_state \<Rightarrow> reg_state" where
  "add_to_delegate_list u delegate s =
     (let xs = (case rg_delegate_list s u of Some xs \<Rightarrow> xs | None \<Rightarrow> []) in
      if members_contain xs delegate then s
      else s\<lparr>rg_delegate_list := (rg_delegate_list s)(u \<mapsto> xs @ [delegate])\<rparr>)"

definition remove_from_delegate_list :: "uid \<Rightarrow> address \<Rightarrow> reg_state \<Rightarrow> reg_state" where
  "remove_from_delegate_list u delegate s =
     (case rg_delegate_list s u of
        None \<Rightarrow> s
      | Some xs \<Rightarrow>
          let ys = filter (\<lambda>m. m \<noteq> delegate) xs in
          s\<lparr>rg_delegate_list := (rg_delegate_list s)(u := (if ys = [] then None else Some ys))\<rparr>)"

definition effective_owner_set :: "reg_state \<Rightarrow> uid \<Rightarrow> owner_set option \<times> nat" where
  "effective_owner_set s u =
     (case rg_owner_sets s u of Some os \<Rightarrow> (Some os, os_threshold os) | None \<Rightarrow> (None, 1))"

abbreviation effective_threshold :: "reg_state \<Rightarrow> uid \<Rightarrow> nat" where
  "effective_threshold s u \<equiv> snd (effective_owner_set s u)"

definition effective_version :: "reg_state \<Rightarrow> uid \<Rightarrow> nat" where
  "effective_version s u = (case fst (effective_owner_set s u) of Some os \<Rightarrow> os_version os | None \<Rightarrow> 0)"

definition is_owner_address :: "reg_state \<Rightarrow> uid \<Rightarrow> address \<Rightarrow> bool" where
  "is_owner_address s u who =
     (if (case rg_owner_sets s u of Some os \<Rightarrow> members_contain (os_owners os) who | None \<Rightarrow> False) then True
      else if rg_creators s u = Some who then True
      else rg_admin s = Some who)"

definition validate_parent_schema :: "reg_state \<Rightarrow> address \<Rightarrow> uid \<Rightarrow> unit sas_result" where
  "validate_parent_schema s owner parent =
     (if rg_schemas s parent = None then Inl (Panic InvalidSchema)
      else if \<not> is_owner_address s parent owner then Inl (Panic Unauthorized)
      else
        bind_r (lineage_root s parent) (\<lambda>(_, parent_depth).
        if parent_depth \<ge> MAX_SCHEMA_LINEAGE_DEPTH then Inl (Panic LimitExceeded) else Inr ()))"

fun no_duplicate_owner :: "address list \<Rightarrow> address list \<Rightarrow> bool" where
  "no_duplicate_owner seen [] = True"
| "no_duplicate_owner seen (owner # owners) =
     (\<not> members_contain seen owner \<and> no_duplicate_owner (seen @ [owner]) owners)"

definition validate_owner_set :: "address list \<Rightarrow> nat \<Rightarrow> unit sas_result" where
  "validate_owner_set owners threshold =
     (if length owners = 0 \<or> length owners > MAX_OWNER_SET then Inl (Panic LimitExceeded)
      else if threshold = 0 \<or> threshold > length owners then Inl (Panic InvalidValue)
      else if \<not> no_duplicate_owner [] owners then Inl (Panic InvalidValue)
      else Inr ())"

definition finalize_ownership_transfer :: "uid \<Rightarrow> address \<Rightarrow> address \<Rightarrow> reg_state \<Rightarrow> reg_state" where
  "finalize_ownership_transfer u old_owner new_owner s =
     reg_emit (SchemaOwnershipTransferred u old_owner new_owner)
       (s\<lparr>rg_creators := (rg_creators s)(u \<mapsto> new_owner),
          rg_pending_ownership := (rg_pending_ownership s)(u := None)\<rparr>)"

definition reject_single_sig_transfer_for_multisig :: "reg_state \<Rightarrow> uid \<Rightarrow> unit sas_result" where
  "reject_single_sig_transfer_for_multisig s u =
     (if effective_threshold s u > 1 then Inl (Panic Unauthorized) else Inr ())"

definition require_transferable_schema :: "reg_state \<Rightarrow> uid \<Rightarrow> unit sas_result" where
  "require_transferable_schema s u =
     (if rg_schemas s u = None then Inl (Panic SchemaNotFound)
      else if rg_deprecated s u then Inl (Panic InvalidSchema)
      else Inr ())"

definition record_approval :: "uid \<Rightarrow> address \<Rightarrow> reg_state \<Rightarrow> (pending_ownership \<times> reg_state) sas_result" where
  "record_approval u approver s =
     bind_r (or_panic SchemaNotFound (rg_pending_ownership s u)) (\<lambda>pending.
     if po_owner_set_version pending \<noteq> effective_version s u then Inl (Panic Unauthorized)
     else if \<not> is_owner_address s u approver then Inl (Panic Unauthorized)
     else if members_contain (po_approvals pending) approver then Inl (Panic InvalidValue)
     else
       let pending = pending\<lparr>po_approvals := po_approvals pending @ [approver]\<rparr> in
       Inr (pending, reg_emit (SchemaOwnerApproved u approver (length (po_approvals pending)))
              (s\<lparr>rg_pending_ownership := (rg_pending_ownership s)(u \<mapsto> pending)\<rparr>)))"

end
