(* ===== verification/Registry.thy ===== *)
theory Registry
  imports Registry_State
begin

text \<open>
  The entry points of the schema registry (\<^verbatim>\<open>contracts/schema-registry/src/lib.rs\<close>), in the order of the
  source. A state-changing entry point returns the new state, with its value where it has one; the
  failing branches carry the error the contract panics with.
\<close>

section \<open>Administration\<close>

definition reg_init :: "ledger_env \<Rightarrow> address \<Rightarrow> reg_state \<Rightarrow> reg_state sas_result" where
  "reg_init env admin s =
     (if rg_admin s \<noteq> None then Inl (Panic AlreadyInitialized)
      else
        bind_r (require_auth env admin) (\<lambda>_.
        Inr (s\<lparr>rg_admin := Some admin,
               rg_version := (case rg_version s of None \<Rightarrow> Some 1 | v \<Rightarrow> v)\<rparr>)))"

definition reg_get_version :: "reg_state \<Rightarrow> nat" where
  "reg_get_version s = (case rg_version s of Some v \<Rightarrow> v | None \<Rightarrow> 1)"

definition reg_validate_upgrade :: "reg_state \<Rightarrow> bytes32 \<Rightarrow> nat \<Rightarrow> address sas_result" where
  "reg_validate_upgrade s new_wasm_hash new_version =
     bind_r (registry_admin s) (\<lambda>admin.
     let old_version = (case rg_version s of Some v \<Rightarrow> v | None \<Rightarrow> 1) in
     if new_version > REG_MAX_KNOWN_VERSION then Inl (Panic IncompatibleDependency)
     else if new_version \<noteq> saturating_add_u32 old_version 1 then Inl (Panic InvalidValue)
     else if new_wasm_hash = 0 then Inl (Panic InvalidValue)
     else Inr admin)"

definition reg_commit_upgrade :: "address \<Rightarrow> bytes32 \<Rightarrow> nat \<Rightarrow> reg_state \<Rightarrow> reg_state" where
  "reg_commit_upgrade admin new_wasm_hash new_version s =
     (let old_version = (case rg_version s of Some v \<Rightarrow> v | None \<Rightarrow> 1);
          old_wasm_hash = (case rg_wasm_hash s of Some h \<Rightarrow> h | None \<Rightarrow> 0) in
      reg_emit (RegContractUpgraded old_wasm_hash new_wasm_hash admin)
        (reg_emit (RegUpgrade old_version new_version new_wasm_hash)
           (s\<lparr>rg_version := Some new_version, rg_wasm_hash := Some new_wasm_hash\<rparr>)))"

definition reg_upgrade :: "ledger_env \<Rightarrow> bytes32 \<Rightarrow> nat \<Rightarrow> reg_state \<Rightarrow> reg_state sas_result" where
  "reg_upgrade env new_wasm_hash new_version s =
     bind_r (reg_validate_upgrade s new_wasm_hash new_version) (\<lambda>layout_admin.
     bind_r (registry_admin s) (\<lambda>admin.
     if admin \<noteq> layout_admin then Inl (Panic IncompatibleDependency)
     else
       bind_r (require_auth env admin) (\<lambda>_.
       Inr (reg_commit_upgrade admin new_wasm_hash new_version s))))"

definition reg_set_fee :: "ledger_env \<Rightarrow> address \<Rightarrow> int \<Rightarrow> reg_state \<Rightarrow> reg_state sas_result" where
  "reg_set_fee env token amount s =
     bind_r (registry_admin s) (\<lambda>admin.
     bind_r (require_auth env admin) (\<lambda>_.
     if amount \<le> 0 then Inl (Panic InvalidValue)
     else
       Inr (reg_emit (SchemaFeeUpdated (rg_fee s) token amount admin)
              (s\<lparr>rg_fee := Some (token, amount)\<rparr>))))"

definition reg_clear_fee :: "ledger_env \<Rightarrow> reg_state \<Rightarrow> reg_state sas_result" where
  "reg_clear_fee env s =
     bind_r (registry_admin s) (\<lambda>admin.
     bind_r (require_auth env admin) (\<lambda>_. Inr (s\<lparr>rg_fee := None\<rparr>)))"

definition reg_set_treasury :: "ledger_env \<Rightarrow> address \<Rightarrow> reg_state \<Rightarrow> reg_state sas_result" where
  "reg_set_treasury env new_treasury s =
     bind_r (registry_admin s) (\<lambda>admin.
     bind_r (require_auth env admin) (\<lambda>_.
     Inr (reg_emit (RegTreasuryUpdated (rg_treasury s) new_treasury admin)
            (s\<lparr>rg_treasury := Some new_treasury\<rparr>))))"

text \<open>The body of \<^verbatim>\<open>withdraw_fees\<close> is a stub in the source: it only checks the administrator.\<close>

definition withdraw_fees :: "ledger_env \<Rightarrow> int \<Rightarrow> reg_state \<Rightarrow> reg_state sas_result" where
  "withdraw_fees env amount s =
     bind_r (registry_admin s) (\<lambda>admin. bind_r (require_auth env admin) (\<lambda>_. Inr s))"

definition deprecate :: "ledger_env \<Rightarrow> uid \<Rightarrow> address \<Rightarrow> reg_state \<Rightarrow> reg_state sas_result" where
  "deprecate env u authorizer s =
     bind_r (registry_admin s) (\<lambda>admin.
     if rg_schemas s u = None then Inl (Panic SchemaNotFound)
     else
       bind_r (require_auth env authorizer) (\<lambda>_.
       if authorizer \<noteq> admin \<and> rg_creators s u \<noteq> Some authorizer then Inl (Panic Unauthorized)
       else if rg_deprecated s u then Inr s
       else
         Inr (reg_emit (SchemaDeprecatedEv u authorizer)
                (s\<lparr>rg_deprecated := (rg_deprecated s)(u := True)\<rparr>))))"

section \<open>Delegates\<close>

definition add_delegate :: "ledger_env \<Rightarrow> uid \<Rightarrow> address \<Rightarrow> reg_state \<Rightarrow> reg_state sas_result" where
  "add_delegate env u delegate s =
     (if rg_schemas s u = None then Inl (Panic SchemaNotFound)
      else
        bind_r (or_panic SchemaNotFound (rg_creators s u)) (\<lambda>owner.
        bind_r (require_auth env owner) (\<lambda>_.
        let s1 = s\<lparr>rg_delegates := (rg_delegates s)((u, delegate) := True),
                   rg_delegate_expiry := (rg_delegate_expiry s)((u, delegate) := None)\<rparr> in
        Inr (reg_emit (SchemaDelegateAdded u delegate owner) (add_to_delegate_list u delegate s1)))))"

definition add_delegate_with_expiry ::
  "ledger_env \<Rightarrow> uid \<Rightarrow> address \<Rightarrow> u64 \<Rightarrow> reg_state \<Rightarrow> reg_state sas_result" where
  "add_delegate_with_expiry env u delegate expiry_timestamp s =
     (if rg_schemas s u = None then Inl (Panic SchemaNotFound)
      else
        bind_r (or_panic SchemaNotFound (rg_creators s u)) (\<lambda>owner.
        bind_r (require_auth env owner) (\<lambda>_.
        let s1 = s\<lparr>rg_delegates := (rg_delegates s)((u, delegate) := True),
                   rg_delegate_expiry := (rg_delegate_expiry s)((u, delegate) \<mapsto> expiry_timestamp)\<rparr> in
        Inr (reg_emit (SchemaDelegateAdded u delegate owner) (add_to_delegate_list u delegate s1)))))"

text \<open>The removal of a delegate's entries, shared by the owner's and the delegate's own entry point.\<close>

definition drop_delegate :: "uid \<Rightarrow> address \<Rightarrow> address \<Rightarrow> reg_state \<Rightarrow> reg_state" where
  "drop_delegate u delegate authorizer s =
     (let s1 = s\<lparr>rg_delegates := (rg_delegates s)((u, delegate) := False),
                 rg_delegate_expiry := (rg_delegate_expiry s)((u, delegate) := None)\<rparr> in
      reg_emit (SchemaDelegateRemoved u delegate authorizer) (remove_from_delegate_list u delegate s1))"

definition remove_delegate :: "ledger_env \<Rightarrow> uid \<Rightarrow> address \<Rightarrow> reg_state \<Rightarrow> reg_state sas_result" where
  "remove_delegate env u delegate s =
     (if rg_schemas s u = None then Inl (Panic SchemaNotFound)
      else
        bind_r (or_panic SchemaNotFound (rg_creators s u)) (\<lambda>owner.
        bind_r (require_auth env owner) (\<lambda>_. Inr (drop_delegate u delegate owner s))))"

definition self_revoke_delegate :: "ledger_env \<Rightarrow> uid \<Rightarrow> address \<Rightarrow> reg_state \<Rightarrow> reg_state sas_result" where
  "self_revoke_delegate env u delegate s =
     (if rg_schemas s u = None then Inl (Panic SchemaNotFound)
      else bind_r (require_auth env delegate) (\<lambda>_. Inr (drop_delegate u delegate delegate s)))"

section \<open>The attester access control list\<close>

definition add_authorized_attester :: "ledger_env \<Rightarrow> uid \<Rightarrow> address \<Rightarrow> reg_state \<Rightarrow> reg_state sas_result" where
  "add_authorized_attester env u attester s =
     bind_r (require_creator_auth env s u) (\<lambda>owner.
     if rg_acl s (u, attester) then Inr s
     else
       Inr (reg_emit (SchemaAttesterAdded u attester owner)
              (s\<lparr>rg_acl_count := (rg_acl_count s)(u \<mapsto> saturating_add_u32 (acl_count s u) 1),
                 rg_acl := (rg_acl s)((u, attester) := True)\<rparr>)))"

definition remove_authorized_attester :: "ledger_env \<Rightarrow> uid \<Rightarrow> address \<Rightarrow> reg_state \<Rightarrow> reg_state sas_result" where
  "remove_authorized_attester env u attester s =
     bind_r (require_creator_auth env s u) (\<lambda>owner.
     if rg_acl s (u, attester) then
       (let count = acl_count s u - 1 in
        Inr (reg_emit (SchemaAttesterRemoved u attester owner)
               (s\<lparr>rg_acl := (rg_acl s)((u, attester) := False),
                  rg_acl_count := (rg_acl_count s)(u := (if count = 0 then None else Some count))\<rparr>)))
     else Inr s)"

definition is_attester_authorized :: "reg_state \<Rightarrow> uid \<Rightarrow> address \<Rightarrow> bool" where
  "is_attester_authorized s u attester = (if rg_deprecated s u then False else rg_acl s (u, attester))"

definition is_schema_restricted :: "reg_state \<Rightarrow> uid \<Rightarrow> bool" where
  "is_schema_restricted s u = (acl_count s u > 0)"

section \<open>Lineage\<close>

record schema_lineage =
  sl_schema_uid :: uid
  sl_parent :: "uid option"
  sl_root :: uid
  sl_depth :: nat
  sl_ancestors :: "uid list"

text \<open>The loop fails once 32 ancestors are collected, so 33 rounds of fuel are enough.\<close>

fun ancestor_walk :: "reg_state \<Rightarrow> nat \<Rightarrow> uid list \<Rightarrow> uid \<Rightarrow> uid option \<Rightarrow> (uid \<times> uid list) sas_result" where
  "ancestor_walk s fuel ancestors root None = Inr (root, ancestors)"
| "ancestor_walk s 0 ancestors root (Some ancestor) = Inl HostTrap"
| "ancestor_walk s (Suc fuel) ancestors root (Some ancestor) =
     (if length ancestors \<ge> MAX_SCHEMA_LINEAGE_DEPTH then Inl (Panic LimitExceeded)
      else ancestor_walk s fuel (ancestors @ [ancestor]) ancestor (parent_of s ancestor))"

definition get_schema_lineage :: "reg_state \<Rightarrow> uid \<Rightarrow> schema_lineage sas_result" where
  "get_schema_lineage s u =
     bind_r (or_panic SchemaNotFound (rg_schemas s u)) (\<lambda>r.
     bind_r (ancestor_walk s (Suc MAX_SCHEMA_LINEAGE_DEPTH) [] u (sr_parent_schema_uid r)) (\<lambda>(root, ancestors).
     Inr \<lparr>sl_schema_uid = u, sl_parent = sr_parent_schema_uid r, sl_root = root,
          sl_depth = length ancestors, sl_ancestors = ancestors\<rparr>))"

section \<open>Views\<close>

definition get_schema :: "reg_state \<Rightarrow> uid \<Rightarrow> schema_record option" where
  "get_schema s u = (if rg_deprecated s u then None else rg_schemas s u)"

definition get_max_ttl :: "reg_state \<Rightarrow> uid \<Rightarrow> u64" where
  "get_max_ttl s u = (case rg_max_ttls s u of Some n \<Rightarrow> n | None \<Rightarrow> 0)"

definition get_schema_by_content ::
  "host \<Rightarrow> reg_state \<Rightarrow> bytes \<Rightarrow> address \<Rightarrow> bool \<Rightarrow> schema_record option sas_result" where
  "get_schema_by_content h s schema resolver revocable =
     bind_r (validate_schema_syntax schema) (\<lambda>_. Inr (get_schema s (schema_uid h schema resolver revocable)))"

definition validate_schema :: "reg_state \<Rightarrow> uid \<Rightarrow> bool" where
  "validate_schema s u = (if rg_deprecated s u then False else rg_schemas s u \<noteq> None)"

definition is_delegate :: "ledger_env \<Rightarrow> reg_state \<Rightarrow> uid \<Rightarrow> address \<Rightarrow> bool" where
  "is_delegate env s u delegate =
     (if \<not> rg_delegates s (u, delegate) then False
      else (case rg_delegate_expiry s (u, delegate) of
              Some expiry \<Rightarrow> \<not> (expiry \<noteq> 0 \<and> timestamp env \<ge> expiry)
            | None \<Rightarrow> True))"

definition get_creator :: "reg_state \<Rightarrow> uid \<Rightarrow> address option" where
  "get_creator s u = rg_creators s u"

definition get_creator_royalty :: "reg_state \<Rightarrow> uid \<Rightarrow> nat" where
  "get_creator_royalty s u = (case rg_royalties s u of Some n \<Rightarrow> n | None \<Rightarrow> 0)"

definition is_authorized :: "ledger_env \<Rightarrow> reg_state \<Rightarrow> uid \<Rightarrow> address \<Rightarrow> bool" where
  "is_authorized env s u attester =
     (if rg_deprecated s u then False
      else (case rg_creators s u of
              None \<Rightarrow> False
            | Some creator \<Rightarrow> if creator = attester then True else is_delegate env s u attester))"

definition is_schema_quarantined :: "reg_state \<Rightarrow> uid \<Rightarrow> bool" where
  "is_schema_quarantined s u = rg_quarantine s u"

definition get_schema_status :: "reg_state \<Rightarrow> uid \<Rightarrow> schema_status sas_result" where
  "get_schema_status s u =
     (if rg_schemas s u = None then Inl (Panic SchemaNotFound)
      else if is_schema_quarantined s u then Inr Quarantined
      else if rg_deprecated s u then Inr Deprecated else Inr Active)"

definition get_schema_policy :: "reg_state \<Rightarrow> uid \<Rightarrow> revocation_policy" where
  "get_schema_policy s u =
     (case rg_policies s u of
        Some policy \<Rightarrow> policy
      | None \<Rightarrow> (case rg_schemas s u of Some r \<Rightarrow> policy_from_bool (sr_revocable r) | None \<Rightarrow> Permissive))"

definition get_schema_frost_group :: "reg_state \<Rightarrow> uid \<Rightarrow> frost_group option" where
  "get_schema_frost_group s u = rg_frost s u"

definition get_schema_merkle_root :: "reg_state \<Rightarrow> uid \<Rightarrow> bytes32 option" where
  "get_schema_merkle_root s u = rg_merkle_roots s u"

definition get_schema_metadata :: "reg_state \<Rightarrow> uid \<Rightarrow> bytes option" where
  "get_schema_metadata s u = (if rg_deprecated s u then None else rg_metadata s u)"

definition get_schema_with_metadata :: "reg_state \<Rightarrow> uid \<Rightarrow> (schema_record \<times> bytes option) option" where
  "get_schema_with_metadata s u =
     (case get_schema s u of None \<Rightarrow> None | Some r \<Rightarrow> Some (r, get_schema_metadata s u))"

definition get_schema_category :: "reg_state \<Rightarrow> uid \<Rightarrow> bytes option" where
  "get_schema_category s u = (if rg_schemas s u = None then None else rg_categories s u)"

definition get_schema_history :: "reg_state \<Rightarrow> uid \<Rightarrow> uid list sas_result" where
  "get_schema_history s u = schema_history s u"

definition get_schema_predecessor :: "reg_state \<Rightarrow> uid \<Rightarrow> uid option sas_result" where
  "get_schema_predecessor s u =
     (if rg_schemas s u = None then Inl (Panic SchemaNotFound) else Inr (rg_predecessors s u))"

definition is_schema_owner :: "reg_state \<Rightarrow> uid \<Rightarrow> address \<Rightarrow> bool" where
  "is_schema_owner s u who = (if rg_schemas s u = None then False else is_owner_address s u who)"

text \<open>The delegates of a schema, split by whether they have expired.\<close>

fun partition_delegates ::
  "ledger_env \<Rightarrow> reg_state \<Rightarrow> uid \<Rightarrow> address list \<Rightarrow> address list \<Rightarrow> address list \<Rightarrow> address list \<times> address list" where
  "partition_delegates env s u active expired [] = (active, expired)"
| "partition_delegates env s u active expired (d # ds) =
     (if rg_delegates s (u, d) then
        (case rg_delegate_expiry s (u, d) of
           Some expiry \<Rightarrow>
             if expiry \<noteq> 0 \<and> timestamp env \<ge> expiry
             then partition_delegates env s u active (expired @ [d]) ds
             else partition_delegates env s u (active @ [d]) expired ds
         | None \<Rightarrow> partition_delegates env s u (active @ [d]) expired ds)
      else partition_delegates env s u active expired ds)"

definition get_delegates :: "ledger_env \<Rightarrow> reg_state \<Rightarrow> uid \<Rightarrow> address list \<times> address list" where
  "get_delegates env s u =
     (case rg_delegate_list s u of None \<Rightarrow> ([], []) | Some ds \<Rightarrow> partition_delegates env s u [] [] ds)"

text \<open>
  The scan shared by the listings: it reads positions of an index from \<open>index\<close> on, until the end, the
  page limit or the scan budget is reached, and skips deprecated and missing entries.
\<close>

function scan_index ::
  "reg_state \<Rightarrow> (nat \<rightharpoonup> uid) \<Rightarrow> nat \<Rightarrow> nat \<Rightarrow> nat \<Rightarrow> nat \<Rightarrow> schema_record list \<Rightarrow> schema_record list \<times> nat" where
  "scan_index s look count limit index scanned items =
     (if index < count \<and> length items < limit \<and> scanned < MAX_SCAN_BUDGET then
        scan_index s look count limit (index + 1) (scanned + 1)
          (case look index of
             Some u \<Rightarrow>
               if rg_deprecated s u then items
               else (case rg_schemas s u of Some r \<Rightarrow> items @ [r] | None \<Rightarrow> items)
           | None \<Rightarrow> items)
      else (items, index))"
  by pat_completeness auto
termination by (relation "measure (\<lambda>(s, look, count, limit, index, scanned, items). count - index)") auto

declare scan_index.simps [simp del]

definition schema_count :: "reg_state \<Rightarrow> nat" where
  "schema_count s = (case rg_count s of Some n \<Rightarrow> n | None \<Rightarrow> 0)"

definition get_schemas :: "reg_state \<Rightarrow> nat \<Rightarrow> nat \<Rightarrow> schema_record list" where
  "get_schemas s start limit =
     (if limit = 0 then []
      else if start \<ge> schema_count s then []
      else fst (scan_index s (rg_index s) (schema_count s) limit start 0 []))"

definition get_schemas_paginated :: "reg_state \<Rightarrow> nat \<Rightarrow> nat \<Rightarrow> schema_record list \<times> nat" where
  "get_schemas_paginated s start limit =
     (if limit = 0 \<or> start \<ge> schema_count s
      then ([], if start \<ge> schema_count s then schema_count s else start)
      else scan_index s (rg_index s) (schema_count s) limit start 0 [])"

definition get_schemas_by_category ::
  "reg_state \<Rightarrow> bytes \<Rightarrow> nat \<Rightarrow> nat \<Rightarrow> (schema_record list \<times> nat) sas_result" where
  "get_schemas_by_category s category cursor limit =
     bind_r (validate_category category) (\<lambda>_.
     let count = (case rg_category_count s category of Some n \<Rightarrow> n | None \<Rightarrow> 0) in
     if limit = 0 \<or> cursor \<ge> count then Inr ([], min cursor count)
     else Inr (scan_index s (\<lambda>i. rg_category_index s (category, i)) count limit cursor 0 []))"

end
