(* ===== verification/Registry_Write.thy ===== *)
theory Registry_Write
  imports Registry
begin

text \<open>
  Ownership transfer, registration and schema configuration of the schema registry
  (\<^verbatim>\<open>contracts/schema-registry/src/lib.rs\<close>).
\<close>

section \<open>Ownership\<close>

definition transfer_schema_ownership :: "ledger_env \<Rightarrow> uid \<Rightarrow> address \<Rightarrow> reg_state \<Rightarrow> reg_state sas_result" where
  "transfer_schema_ownership env u new_owner s =
     (if rg_schemas s u = None then Inl (Panic SchemaNotFound)
      else if rg_deprecated s u then Inl (Panic InvalidSchema)
      else
        bind_r (reject_single_sig_transfer_for_multisig s u) (\<lambda>_.
        bind_r (or_panic SchemaNotFound (rg_creators s u)) (\<lambda>old_owner.
        bind_r (require_auth env old_owner) (\<lambda>_.
        Inr (reg_emit (SchemaOwnershipTransferred u old_owner new_owner)
               (s\<lparr>rg_creators := (rg_creators s)(u \<mapsto> new_owner)\<rparr>))))))"

definition transfer_ownership :: "ledger_env \<Rightarrow> address \<Rightarrow> uid \<Rightarrow> address \<Rightarrow> reg_state \<Rightarrow> reg_state sas_result" where
  "transfer_ownership env sender u new_owner s =
     bind_r (require_auth env sender) (\<lambda>_.
     bind_r (or_panic SchemaNotFound (get_schema s u)) (\<lambda>_.
     bind_r (reject_single_sig_transfer_for_multisig s u) (\<lambda>_.
     if rg_creators s u \<noteq> Some sender \<and> rg_admin s \<noteq> Some sender then Inl (Panic Unauthorized)
     else
       Inr (reg_emit (SchemaOwnershipTransferred u sender new_owner)
              (s\<lparr>rg_creators := (rg_creators s)(u \<mapsto> new_owner)\<rparr>)))))"

definition propose_schema_owner :: "ledger_env \<Rightarrow> uid \<Rightarrow> address \<Rightarrow> reg_state \<Rightarrow> reg_state sas_result" where
  "propose_schema_owner env u new_owner s =
     bind_r (require_transferable_schema s u) (\<lambda>_.
     bind_r (or_panic SchemaNotFound (rg_creators s u)) (\<lambda>current_owner.
     bind_r (require_auth env current_owner) (\<lambda>_.
     if current_owner = new_owner then Inl (Panic InvalidValue)
     else
       Inr (reg_emit (SchemaOwnershipProposed u current_owner new_owner)
              (s\<lparr>rg_pending_owner := (rg_pending_owner s)(u \<mapsto> new_owner)\<rparr>)))))"

definition claim_schema_ownership :: "ledger_env \<Rightarrow> uid \<Rightarrow> reg_state \<Rightarrow> reg_state sas_result" where
  "claim_schema_ownership env u s =
     bind_r (require_transferable_schema s u) (\<lambda>_.
     bind_r (or_panic Unauthorized (rg_pending_owner s u)) (\<lambda>proposed_owner.
     bind_r (require_auth env proposed_owner) (\<lambda>_.
     bind_r (or_panic SchemaNotFound (rg_creators s u)) (\<lambda>old_owner.
     Inr (reg_emit (SchemaOwnershipTransferred u old_owner proposed_owner)
            (s\<lparr>rg_creators := (rg_creators s)(u \<mapsto> proposed_owner),
               rg_pending_owner := (rg_pending_owner s)(u := None)\<rparr>))))))"

definition cancel_schema_ownership_transfer :: "ledger_env \<Rightarrow> uid \<Rightarrow> reg_state \<Rightarrow> reg_state sas_result" where
  "cancel_schema_ownership_transfer env u s =
     bind_r (require_transferable_schema s u) (\<lambda>_.
     bind_r (or_panic SchemaNotFound (rg_creators s u)) (\<lambda>current_owner.
     bind_r (require_auth env current_owner) (\<lambda>_.
     if rg_pending_owner s u = None then Inl (Panic SchemaNotFound)
     else
       Inr (reg_emit (SchemaOwnerTransferCancelled u current_owner)
              (s\<lparr>rg_pending_owner := (rg_pending_owner s)(u := None)\<rparr>)))))"

definition configure_owner_set ::
  "ledger_env \<Rightarrow> uid \<Rightarrow> address \<Rightarrow> address list \<Rightarrow> nat \<Rightarrow> reg_state \<Rightarrow> (owner_set \<times> reg_state) sas_result" where
  "configure_owner_set env u authorizer owners threshold s =
     bind_r (require_transferable_schema s u) (\<lambda>_.
     bind_r (require_auth env authorizer) (\<lambda>_.
     if \<not> is_owner_address s u authorizer then Inl (Panic Unauthorized)
     else
       bind_r (validate_owner_set owners threshold) (\<lambda>_.
       let version = (case rg_owner_sets s u of
                        Some existing \<Rightarrow> saturating_add_u32 (os_version existing) 1 | None \<Rightarrow> 1);
           os = \<lparr>os_owners = owners, os_threshold = threshold, os_version = version\<rparr> in
       Inr (os, reg_emit (SchemaOwnerSetUpdated u authorizer os)
              (s\<lparr>rg_owner_sets := (rg_owner_sets s)(u \<mapsto> os),
                 rg_pending_ownership := (rg_pending_ownership s)(u := None)\<rparr>)))))"

definition propose_ownership_transfer ::
  "ledger_env \<Rightarrow> uid \<Rightarrow> address \<Rightarrow> address \<Rightarrow> reg_state \<Rightarrow> (transfer_status \<times> reg_state) sas_result" where
  "propose_ownership_transfer env u proposer new_owner s =
     bind_r (require_transferable_schema s u) (\<lambda>_.
     bind_r (require_auth env proposer) (\<lambda>_.
     if \<not> is_owner_address s u proposer then Inl (Panic Unauthorized)
     else
       bind_r (or_panic SchemaNotFound (rg_creators s u)) (\<lambda>current_owner.
       if current_owner = new_owner then Inl (Panic InvalidValue)
       else
         let threshold = effective_threshold s u;
             pending = \<lparr>po_owner_set_version = effective_version s u, po_new_owner = new_owner,
                        po_approvals = [proposer], po_created_at = timestamp env\<rparr> in
         if threshold \<le> 1 then
           Inr (\<lparr>ts_new_owner = new_owner, ts_approvals = 1, ts_threshold = threshold, ts_executed = True\<rparr>,
                finalize_ownership_transfer u current_owner new_owner s)
         else
           Inr (\<lparr>ts_new_owner = new_owner, ts_approvals = 1, ts_threshold = threshold, ts_executed = False\<rparr>,
                reg_emit (SchemaOwnerProposed u proposer pending)
                  (s\<lparr>rg_pending_ownership := (rg_pending_ownership s)(u \<mapsto> pending)\<rparr>)))))"

definition approve_ownership_transfer ::
  "ledger_env \<Rightarrow> uid \<Rightarrow> address \<Rightarrow> reg_state \<Rightarrow> (transfer_status \<times> reg_state) sas_result" where
  "approve_ownership_transfer env u approver s =
     bind_r (require_transferable_schema s u) (\<lambda>_.
     bind_r (require_auth env approver) (\<lambda>_.
     bind_r (record_approval u approver s) (\<lambda>(pending, s).
     let threshold = effective_threshold s u;
         collected = length (po_approvals pending) in
     if collected < threshold then
       Inr (\<lparr>ts_new_owner = po_new_owner pending, ts_approvals = collected, ts_threshold = threshold,
             ts_executed = False\<rparr>, s)
     else
       bind_r (or_panic SchemaNotFound (rg_creators s u)) (\<lambda>old_owner.
       Inr (\<lparr>ts_new_owner = po_new_owner pending, ts_approvals = collected, ts_threshold = threshold,
             ts_executed = True\<rparr>,
            finalize_ownership_transfer u old_owner (po_new_owner pending) s)))))"

definition cancel_ownership_transfer :: "ledger_env \<Rightarrow> uid \<Rightarrow> address \<Rightarrow> reg_state \<Rightarrow> reg_state sas_result" where
  "cancel_ownership_transfer env u canceller s =
     bind_r (require_transferable_schema s u) (\<lambda>_.
     bind_r (require_auth env canceller) (\<lambda>_.
     if \<not> is_owner_address s u canceller then Inl (Panic Unauthorized)
     else if rg_pending_ownership s u = None then Inl (Panic SchemaNotFound)
     else
       Inr (reg_emit (SchemaOwnerTransferCancelled u canceller)
              (s\<lparr>rg_pending_ownership := (rg_pending_ownership s)(u := None)\<rparr>))))"

definition deprecate_schema :: "ledger_env \<Rightarrow> address \<Rightarrow> uid \<Rightarrow> reg_state \<Rightarrow> reg_state sas_result" where
  "deprecate_schema env sender u s =
     bind_r (require_auth env sender) (\<lambda>_.
     bind_r (or_panic SchemaNotFound (get_schema s u)) (\<lambda>r.
     if \<not> is_owner_address s u sender then Inl (Panic Unauthorized)
     else
       Inr (reg_emit (SchemaDeprecatedEv u sender)
              (s\<lparr>rg_schemas := (rg_schemas s)(u \<mapsto> r\<lparr>sr_deprecated := True\<rparr>)\<rparr>))))"

section \<open>Registration\<close>

text \<open>The position of a new schema in the global index.\<close>

definition next_index :: "reg_state \<Rightarrow> nat sas_result" where
  "next_index s =
     (case rg_count s of
        Some c \<Rightarrow> Inr c
      | None \<Rightarrow> if rg_index s 0 \<noteq> None then Inl (Panic CountMetadataExpired) else Inr 0)"

definition append_index :: "uid \<Rightarrow> reg_state \<Rightarrow> reg_state sas_result" where
  "append_index u s =
     bind_r (next_index s) (\<lambda>count.
     bind_r (add_u32 count 1) (\<lambda>new_count.
     Inr (s\<lparr>rg_index := (rg_index s)(count \<mapsto> u), rg_count := Some new_count\<rparr>)))"

text \<open>The entries that belong to a new schema record.\<close>

definition store_schema :: "schema_record \<Rightarrow> address \<Rightarrow> u64 \<Rightarrow> reg_state \<Rightarrow> reg_state" where
  "store_schema r owner max_ttl s =
     (let u = sr_uid r in
      s\<lparr>rg_schemas := (rg_schemas s)(u \<mapsto> r),
        rg_max_ttls := (if max_ttl > 0 then (rg_max_ttls s)(u \<mapsto> max_ttl) else rg_max_ttls s),
        rg_creators := (rg_creators s)(u \<mapsto> owner),
        rg_policies := (if rg_policies s u = None
                        then (rg_policies s)(u \<mapsto> policy_from_bool (sr_revocable r)) else rg_policies s)\<rparr>)"

definition store_metadata :: "uid \<Rightarrow> bytes option \<Rightarrow> reg_state \<Rightarrow> reg_state sas_result" where
  "store_metadata u metadata_uri s =
     (case metadata_uri of
        None \<Rightarrow> Inr s
      | Some uri \<Rightarrow>
          bind_r (validate_metadata_uri uri) (\<lambda>_. Inr (s\<lparr>rg_metadata := (rg_metadata s)(u \<mapsto> uri)\<rparr>)))"

definition register_internal ::
  "host \<Rightarrow> address \<Rightarrow> bytes \<Rightarrow> address \<Rightarrow> bool \<Rightarrow> u64 \<Rightarrow> uid option \<Rightarrow> bytes option \<Rightarrow> reg_state \<Rightarrow>
   (uid \<times> reg_state) sas_result" where
  "register_internal h owner schema resolver revocable max_ttl parent metadata_uri s =
     bind_r (validate_schema_lexical schema) (\<lambda>_.
     bind_r (validate_schema_syntax schema) (\<lambda>_.
     bind_r (case parent of Some p \<Rightarrow> validate_parent_schema s owner p | None \<Rightarrow> Inr ()) (\<lambda>_.
     let u = schema_uid h schema resolver revocable in
     if rg_schemas s u \<noteq> None then Inl (Panic SchemaAlreadyExists)
     else
       let r = \<lparr>sr_uid = u, sr_resolver = resolver, sr_revocable = revocable, sr_schema = schema,
                sr_deprecated = False, sr_parent_schema_uid = parent\<rparr> in
       bind_r (store_metadata u metadata_uri (store_schema r owner max_ttl s)) (\<lambda>s.
       bind_r (append_index u s) (\<lambda>s. Inr (u, reg_emit (SchemaRegistered u owner) s))))))"

definition register ::
  "host \<Rightarrow> ledger_env \<Rightarrow> address \<Rightarrow> bytes \<Rightarrow> address \<Rightarrow> bool \<Rightarrow> reg_state \<Rightarrow> (uid \<times> reg_state) sas_result" where
  "register h env owner schema resolver revocable s =
     bind_r (require_auth env owner) (\<lambda>_. register_internal h owner schema resolver revocable 0 None None s)"

definition register_with_parent ::
  "host \<Rightarrow> ledger_env \<Rightarrow> address \<Rightarrow> bytes \<Rightarrow> address \<Rightarrow> bool \<Rightarrow> uid option \<Rightarrow> reg_state \<Rightarrow>
   (uid \<times> reg_state) sas_result" where
  "register_with_parent h env owner schema resolver revocable parent s =
     bind_r (require_auth env owner) (\<lambda>_. register_internal h owner schema resolver revocable 0 parent None s)"

definition register_with_ttl ::
  "host \<Rightarrow> ledger_env \<Rightarrow> address \<Rightarrow> bytes \<Rightarrow> address \<Rightarrow> bool \<Rightarrow> u64 \<Rightarrow> reg_state \<Rightarrow> (uid \<times> reg_state) sas_result" where
  "register_with_ttl h env owner schema resolver revocable max_ttl s =
     bind_r (require_auth env owner) (\<lambda>_. register_internal h owner schema resolver revocable max_ttl None None s)"

definition register_with_policy ::
  "host \<Rightarrow> ledger_env \<Rightarrow> address \<Rightarrow> bytes \<Rightarrow> address \<Rightarrow> revocation_policy \<Rightarrow> reg_state \<Rightarrow>
   (uid \<times> reg_state) sas_result" where
  "register_with_policy h env owner schema resolver policy s =
     bind_r (require_auth env owner) (\<lambda>_.
     bind_r (register_internal h owner schema resolver (policy \<noteq> IrrevocableOnly) 0 None None s) (\<lambda>(u, s).
     Inr (u, s\<lparr>rg_policies := (rg_policies s)(u \<mapsto> policy)\<rparr>)))"

definition register_with_royalty ::
  "host \<Rightarrow> ledger_env \<Rightarrow> address \<Rightarrow> bytes \<Rightarrow> address \<Rightarrow> bool \<Rightarrow> nat \<Rightarrow> reg_state \<Rightarrow> (uid \<times> reg_state) sas_result" where
  "register_with_royalty h env owner schema resolver revocable royalty_bps s =
     (if royalty_bps > MAX_CREATOR_ROYALTY_BPS then Inl (Panic InvalidValue)
      else
        bind_r (register h env owner schema resolver revocable s) (\<lambda>(u, s).
        Inr (u, s\<lparr>rg_royalties := (rg_royalties s)(u \<mapsto> royalty_bps)\<rparr>)))"

definition register_with_predecessor ::
  "host \<Rightarrow> ledger_env \<Rightarrow> address \<Rightarrow> bytes \<Rightarrow> address \<Rightarrow> bool \<Rightarrow> uid \<Rightarrow> reg_state \<Rightarrow> (uid \<times> reg_state) sas_result" where
  "register_with_predecessor h env owner schema resolver revocable predecessor_uid s =
     bind_r (validate_schema_syntax schema) (\<lambda>_.
     bind_r (or_panic SchemaNotFound (rg_schemas s predecessor_uid)) (\<lambda>predecessor.
     bind_r (or_panic SchemaNotFound (rg_creators s predecessor_uid)) (\<lambda>predecessor_owner.
     bind_r (validate_schema_syntax (sr_schema predecessor)) (\<lambda>_.
     if \<not> is_append_only_schema (sr_schema predecessor) schema then Inl (Panic InvalidSchemaDefinition)
     else
       bind_r (require_auth env predecessor_owner) (\<lambda>_.
       bind_r (require_auth env owner) (\<lambda>_.
       bind_r (schema_history s predecessor_uid) (\<lambda>history.
       if length history \<ge> MAX_SCHEMA_HISTORY_DEPTH then Inl (Panic InvalidSchemaDefinition)
       else
         bind_r (register_internal h owner schema resolver revocable 0 None None s) (\<lambda>(u, s).
         Inr (u, s\<lparr>rg_predecessors := (rg_predecessors s)(u \<mapsto> predecessor_uid)\<rparr>)))))))))"

text \<open>The token contract is a parameter: a transfer returns the new state of the token, or fails.\<close>

type_synonym 'w token_transfer = "address \<Rightarrow> address \<Rightarrow> address \<Rightarrow> int \<Rightarrow> 'w \<Rightarrow> 'w option"

definition pay_registration_fee ::
  "ledger_env \<Rightarrow> 'w token_transfer \<Rightarrow> address \<Rightarrow> address \<Rightarrow> int \<Rightarrow> reg_state \<Rightarrow> 'w \<Rightarrow> 'w sas_result" where
  "pay_registration_fee env pay owner token amount s w =
     (if amount < 0 then Inl (Panic InvalidValue)
      else if (case rg_fee s of
                 Some (fee_token, fee_amount) \<Rightarrow> token \<noteq> fee_token \<or> amount \<noteq> fee_amount
               | None \<Rightarrow> amount \<noteq> 0) then Inl (Panic FeeMismatch)
      else
        bind_r (require_auth env owner) (\<lambda>_.
        if amount > 0 then
          bind_r (or_panic TreasuryNotSet (rg_treasury s)) (\<lambda>dest. or_trap (pay token owner dest amount w))
        else Inr w))"

definition register_with_value_and_ttl ::
  "host \<Rightarrow> ledger_env \<Rightarrow> 'w token_transfer \<Rightarrow> address \<Rightarrow> bytes \<Rightarrow> address \<Rightarrow> bool \<Rightarrow> address \<Rightarrow> int \<Rightarrow> u64 \<Rightarrow>
   reg_state \<Rightarrow> 'w \<Rightarrow> (uid \<times> reg_state \<times> 'w) sas_result" where
  "register_with_value_and_ttl h env pay owner schema resolver revocable token amount max_ttl s w =
     bind_r (pay_registration_fee env pay owner token amount s w) (\<lambda>w.
     bind_r (register_internal h owner schema resolver revocable max_ttl None None s) (\<lambda>(u, s).
     Inr (u, s, w)))"

definition register_with_value ::
  "host \<Rightarrow> ledger_env \<Rightarrow> 'w token_transfer \<Rightarrow> address \<Rightarrow> bytes \<Rightarrow> address \<Rightarrow> bool \<Rightarrow> address \<Rightarrow> int \<Rightarrow>
   reg_state \<Rightarrow> 'w \<Rightarrow> (uid \<times> reg_state \<times> 'w) sas_result" where
  "register_with_value h env pay owner schema resolver revocable token amount s w =
     register_with_value_and_ttl h env pay owner schema resolver revocable token amount 0 s w"

definition register_schema ::
  "host \<Rightarrow> ledger_env \<Rightarrow> address \<Rightarrow> bytes \<Rightarrow> address \<Rightarrow> bool \<Rightarrow> bytes option \<Rightarrow> reg_state \<Rightarrow>
   (uid \<times> reg_state) sas_result" where
  "register_schema h env owner schema resolver revocable metadata_uri s =
     bind_r (require_auth env owner) (\<lambda>_.
     register_internal h owner schema resolver revocable 0 None metadata_uri s)"

definition register_schema_with_value ::
  "host \<Rightarrow> ledger_env \<Rightarrow> 'w token_transfer \<Rightarrow> address \<Rightarrow> bytes \<Rightarrow> address \<Rightarrow> bool \<Rightarrow> address \<Rightarrow> int \<Rightarrow>
   bytes option \<Rightarrow> reg_state \<Rightarrow> 'w \<Rightarrow> (uid \<times> reg_state \<times> 'w) sas_result" where
  "register_schema_with_value h env pay owner schema resolver revocable token amount metadata_uri s w =
     bind_r (pay_registration_fee env pay owner token amount s w) (\<lambda>w.
     bind_r (register_internal h owner schema resolver revocable 0 None metadata_uri s) (\<lambda>(u, s).
     Inr (u, s, w)))"

definition register_with_metadata ::
  "host \<Rightarrow> ledger_env \<Rightarrow> address \<Rightarrow> bytes \<Rightarrow> address \<Rightarrow> bool \<Rightarrow> bytes \<Rightarrow> reg_state \<Rightarrow>
   (uid \<times> reg_state) sas_result" where
  "register_with_metadata h env owner schema resolver revocable metadata_uri s =
     bind_r (require_auth env owner) (\<lambda>_.
     register_internal h owner schema resolver revocable 0 None (Some metadata_uri) s)"

record schema_batch_item =
  sb_owner :: address
  sb_schema :: bytes
  sb_resolver :: address
  sb_revocable :: bool

fun batch_loop ::
  "host \<Rightarrow> ledger_env \<Rightarrow> schema_batch_item list \<Rightarrow> uid list \<Rightarrow> address list \<Rightarrow> reg_state \<Rightarrow>
   (uid list \<times> reg_state) sas_result" where
  "batch_loop h env [] uids authorized_owners s = Inr (uids, s)"
| "batch_loop h env (item # items) uids authorized_owners s =
     bind_r (if sb_owner item \<in> set authorized_owners then Inr authorized_owners
             else bind_r (require_auth env (sb_owner item)) (\<lambda>_. Inr (sb_owner item # authorized_owners)))
       (\<lambda>authorized_owners.
     bind_r (register_internal h (sb_owner item) (sb_schema item) (sb_resolver item) (sb_revocable item)
               0 None None s) (\<lambda>(u, s).
     batch_loop h env items (uids @ [u]) authorized_owners s))"

definition register_schemas_batch ::
  "host \<Rightarrow> ledger_env \<Rightarrow> schema_batch_item list \<Rightarrow> reg_state \<Rightarrow> (uid list \<times> reg_state) sas_result" where
  "register_schemas_batch h env items s =
     (if length items > MAX_SCHEMA_BATCH_SIZE then Inl (Panic BatchTooLarge)
      else if length items = 0 then Inl (Panic InvalidValue)
      else batch_loop h env items [] [] s)"

definition register_with_category ::
  "host \<Rightarrow> ledger_env \<Rightarrow> address \<Rightarrow> bytes \<Rightarrow> address \<Rightarrow> bool \<Rightarrow> bytes option \<Rightarrow> reg_state \<Rightarrow>
   (uid \<times> reg_state) sas_result" where
  "register_with_category h env owner schema resolver revocable category s =
     bind_r (require_auth env owner) (\<lambda>_.
     bind_r (case category of Some name \<Rightarrow> validate_category name | None \<Rightarrow> Inr ()) (\<lambda>_.
     bind_r (register_internal h owner schema resolver revocable 0 None None s) (\<lambda>(u, s).
     bind_r (case category of
               Some name \<Rightarrow> if name = [] then Inr s else index_category u name s
             | None \<Rightarrow> Inr s) (\<lambda>s.
     Inr (u, s)))))"

section \<open>Schema configuration\<close>

definition set_schema_quarantine ::
  "ledger_env \<Rightarrow> uid \<Rightarrow> bool \<Rightarrow> bytes \<Rightarrow> reg_state \<Rightarrow> reg_state sas_result" where
  "set_schema_quarantine env u quarantined explanation_uri s =
     bind_r (registry_admin s) (\<lambda>admin.
     bind_r (require_auth env admin) (\<lambda>_.
     if rg_schemas s u = None then Inl (Panic SchemaNotFound)
     else if length explanation_uri = 0 \<or> length explanation_uri > MAX_EXPLANATION_URI_LEN
     then Inl (Panic InvalidValue)
     else
       Inr (reg_emit (SchemaQuarantinedEv u quarantined explanation_uri)
              (s\<lparr>rg_quarantine := (rg_quarantine s)(u := quarantined),
                 rg_quarantine_uri := (rg_quarantine_uri s)(u \<mapsto> explanation_uri)\<rparr>))))"

text \<open>The check that opens the setters of optional schema attributes.\<close>

definition require_active_owner :: "ledger_env \<Rightarrow> address \<Rightarrow> uid \<Rightarrow> reg_state \<Rightarrow> unit sas_result" where
  "require_active_owner env authorizer u s =
     bind_r (require_auth env authorizer) (\<lambda>_.
     if get_schema s u = None then Inl (Panic SchemaNotFound)
     else if \<not> is_owner_address s u authorizer then Inl (Panic Unauthorized)
     else Inr ())"

definition set_schema_frost_group ::
  "ledger_env \<Rightarrow> address \<Rightarrow> uid \<Rightarrow> frost_group \<Rightarrow> reg_state \<Rightarrow> reg_state sas_result" where
  "set_schema_frost_group env authorizer u g s =
     bind_r (require_active_owner env authorizer u s) (\<lambda>_.
     bind_r (validate_frost_group g) (\<lambda>_.
     Inr (reg_emit (SchemaFrostGroupUpdated u authorizer True (fg_group_public_key g) (fg_threshold g)
              (fg_max_signers g))
            (s\<lparr>rg_frost := (rg_frost s)(u \<mapsto> g)\<rparr>))))"

definition clear_schema_frost_group :: "ledger_env \<Rightarrow> address \<Rightarrow> uid \<Rightarrow> reg_state \<Rightarrow> reg_state sas_result" where
  "clear_schema_frost_group env authorizer u s =
     bind_r (require_active_owner env authorizer u s) (\<lambda>_.
     Inr (reg_emit (SchemaFrostGroupUpdated u authorizer False 0 0 0)
            (s\<lparr>rg_frost := (rg_frost s)(u := None)\<rparr>)))"

definition set_schema_merkle_root ::
  "ledger_env \<Rightarrow> address \<Rightarrow> uid \<Rightarrow> bytes32 \<Rightarrow> reg_state \<Rightarrow> reg_state sas_result" where
  "set_schema_merkle_root env authorizer u root s =
     bind_r (require_active_owner env authorizer u s) (\<lambda>_.
     Inr (reg_emit (SchemaMerkleRootUpdated u authorizer True root 1)
            (s\<lparr>rg_merkle_roots := (rg_merkle_roots s)(u \<mapsto> root)\<rparr>)))"

definition clear_schema_merkle_root :: "ledger_env \<Rightarrow> address \<Rightarrow> uid \<Rightarrow> reg_state \<Rightarrow> reg_state sas_result" where
  "clear_schema_merkle_root env authorizer u s =
     bind_r (require_active_owner env authorizer u s) (\<lambda>_.
     Inr (reg_emit (SchemaMerkleRootUpdated u authorizer False 0 0)
            (s\<lparr>rg_merkle_roots := (rg_merkle_roots s)(u := None)\<rparr>)))"

definition update_schema_metadata ::
  "ledger_env \<Rightarrow> uid \<Rightarrow> address \<Rightarrow> bytes \<Rightarrow> reg_state \<Rightarrow> reg_state sas_result" where
  "update_schema_metadata env u authorizer metadata_uri s =
     bind_r (require_transferable_schema s u) (\<lambda>_.
     bind_r (require_auth env authorizer) (\<lambda>_.
     if \<not> is_owner_address s u authorizer then Inl (Panic Unauthorized)
     else
       bind_r (validate_metadata_uri metadata_uri) (\<lambda>_.
       Inr (reg_emit (SchemaMetadataUpdated u metadata_uri authorizer)
              (s\<lparr>rg_metadata := (rg_metadata s)(u \<mapsto> metadata_uri)\<rparr>)))))"

definition set_creator_royalty ::
  "ledger_env \<Rightarrow> address \<Rightarrow> uid \<Rightarrow> nat \<Rightarrow> reg_state \<Rightarrow> reg_state sas_result" where
  "set_creator_royalty env caller u royalty_bps s =
     (if royalty_bps > MAX_CREATOR_ROYALTY_BPS then Inl (Panic InvalidValue)
      else
        bind_r (require_auth env caller) (\<lambda>_.
        bind_r (or_panic SchemaNotFound (get_creator s u)) (\<lambda>creator.
        bind_r (registry_admin s) (\<lambda>admin.
        if caller \<noteq> creator \<and> caller \<noteq> admin then Inl (Panic Unauthorized)
        else Inr (s\<lparr>rg_royalties := (rg_royalties s)(u \<mapsto> royalty_bps)\<rparr>)))))"

end
