(* ===== verification/Registry_Inv.thy ===== *)
theory Registry_Inv
  imports Registry_Write
begin

text \<open>
  The calls of the schema registry as a step relation, the invariant that they keep, and the effect
  lemmas of registration and ownership transfer.
\<close>

section \<open>Steps\<close>

inductive reg_admin_step :: "ledger_env \<Rightarrow> reg_state \<Rightarrow> reg_state \<Rightarrow> bool" for env where
  "reg_init env a s = Inr s' \<Longrightarrow> reg_admin_step env s s'"
| "reg_upgrade env h v s = Inr s' \<Longrightarrow> reg_admin_step env s s'"
| "reg_set_fee env t n s = Inr s' \<Longrightarrow> reg_admin_step env s s'"
| "reg_clear_fee env s = Inr s' \<Longrightarrow> reg_admin_step env s s'"
| "reg_set_treasury env t s = Inr s' \<Longrightarrow> reg_admin_step env s s'"
| "withdraw_fees env n s = Inr s' \<Longrightarrow> reg_admin_step env s s'"
| "set_schema_quarantine env u b uri s = Inr s' \<Longrightarrow> reg_admin_step env s s'"

inductive reg_delegate_step :: "ledger_env \<Rightarrow> reg_state \<Rightarrow> reg_state \<Rightarrow> bool" for env where
  "add_delegate env u d s = Inr s' \<Longrightarrow> reg_delegate_step env s s'"
| "add_delegate_with_expiry env u d e s = Inr s' \<Longrightarrow> reg_delegate_step env s s'"
| "remove_delegate env u d s = Inr s' \<Longrightarrow> reg_delegate_step env s s'"
| "self_revoke_delegate env u d s = Inr s' \<Longrightarrow> reg_delegate_step env s s'"

inductive reg_attribute_step :: "ledger_env \<Rightarrow> reg_state \<Rightarrow> reg_state \<Rightarrow> bool" for env where
  "add_authorized_attester env u a s = Inr s' \<Longrightarrow> reg_attribute_step env s s'"
| "remove_authorized_attester env u a s = Inr s' \<Longrightarrow> reg_attribute_step env s s'"
| "set_schema_frost_group env a u g s = Inr s' \<Longrightarrow> reg_attribute_step env s s'"
| "clear_schema_frost_group env a u s = Inr s' \<Longrightarrow> reg_attribute_step env s s'"
| "set_schema_merkle_root env a u r s = Inr s' \<Longrightarrow> reg_attribute_step env s s'"
| "clear_schema_merkle_root env a u s = Inr s' \<Longrightarrow> reg_attribute_step env s s'"
| "update_schema_metadata env u a uri s = Inr s' \<Longrightarrow> reg_attribute_step env s s'"
| "set_creator_royalty env a u n s = Inr s' \<Longrightarrow> reg_attribute_step env s s'"

inductive reg_owner_step :: "ledger_env \<Rightarrow> reg_state \<Rightarrow> reg_state \<Rightarrow> bool" for env where
  "transfer_schema_ownership env u a s = Inr s' \<Longrightarrow> reg_owner_step env s s'"
| "transfer_ownership env a u b s = Inr s' \<Longrightarrow> reg_owner_step env s s'"
| "propose_schema_owner env u a s = Inr s' \<Longrightarrow> reg_owner_step env s s'"
| "claim_schema_ownership env u s = Inr s' \<Longrightarrow> reg_owner_step env s s'"
| "cancel_schema_ownership_transfer env u s = Inr s' \<Longrightarrow> reg_owner_step env s s'"
| "configure_owner_set env u a owners n s = Inr (os, s') \<Longrightarrow> reg_owner_step env s s'"
| "propose_ownership_transfer env u a b s = Inr (st, s') \<Longrightarrow> reg_owner_step env s s'"
| "approve_ownership_transfer env u a s = Inr (st, s') \<Longrightarrow> reg_owner_step env s s'"
| "cancel_ownership_transfer env u a s = Inr s' \<Longrightarrow> reg_owner_step env s s'"

inductive reg_retire_step :: "ledger_env \<Rightarrow> reg_state \<Rightarrow> reg_state \<Rightarrow> bool" for env where
  "deprecate env u a s = Inr s' \<Longrightarrow> reg_retire_step env s s'"
| "deprecate_schema env a u s = Inr s' \<Longrightarrow> reg_retire_step env s s'"

inductive reg_register_step ::
  "host \<Rightarrow> 'w token_transfer \<Rightarrow> ledger_env \<Rightarrow> reg_state \<Rightarrow> reg_state \<Rightarrow> bool" for h pay env where
  "register h env a sc r b s = Inr (u, s') \<Longrightarrow> reg_register_step h pay env s s'"
| "register_with_parent h env a sc r b p s = Inr (u, s') \<Longrightarrow> reg_register_step h pay env s s'"
| "register_with_ttl h env a sc r b t s = Inr (u, s') \<Longrightarrow> reg_register_step h pay env s s'"
| "register_with_policy h env a sc r pol s = Inr (u, s') \<Longrightarrow> reg_register_step h pay env s s'"
| "register_with_royalty h env a sc r b n s = Inr (u, s') \<Longrightarrow> reg_register_step h pay env s s'"
| "register_with_predecessor h env a sc r b p s = Inr (u, s') \<Longrightarrow> reg_register_step h pay env s s'"
| "register_with_value h env pay a sc r b t n s w = Inr (u, s', w') \<Longrightarrow> reg_register_step h pay env s s'"
| "register_with_value_and_ttl h env pay a sc r b t n ttl s w = Inr (u, s', w') \<Longrightarrow> reg_register_step h pay env s s'"
| "register_schema h env a sc r b uri s = Inr (u, s') \<Longrightarrow> reg_register_step h pay env s s'"
| "register_schema_with_value h env pay a sc r b t n uri s w = Inr (u, s', w') \<Longrightarrow> reg_register_step h pay env s s'"
| "register_with_metadata h env a sc r b m s = Inr (u, s') \<Longrightarrow> reg_register_step h pay env s s'"
| "register_schemas_batch h env items s = Inr (us, s') \<Longrightarrow> reg_register_step h pay env s s'"
| "register_with_category h env a sc r b c s = Inr (u, s') \<Longrightarrow> reg_register_step h pay env s s'"

definition reg_step :: "host \<Rightarrow> 'w token_transfer \<Rightarrow> ledger_env \<Rightarrow> reg_state \<Rightarrow> reg_state \<Rightarrow> bool" where
  "reg_step h pay env s s' \<longleftrightarrow> reg_admin_step env s s' \<or> reg_delegate_step env s s' \<or>
     reg_attribute_step env s s' \<or> reg_owner_step env s s' \<or> reg_retire_step env s s' \<or>
     reg_register_step h pay env s s'"

text \<open>The states a registry can reach after its deployment, with any calls at any ledgers.\<close>

inductive reg_reachable :: "host \<Rightarrow> 'w token_transfer \<Rightarrow> reg_state \<Rightarrow> bool" for h pay where
  reg_deployed: "reg_reachable h pay fresh_registry"
| reg_called: "reg_reachable h pay s \<Longrightarrow> reg_step h pay env s s' \<Longrightarrow> reg_reachable h pay s'"

section \<open>The invariant\<close>

text \<open>\<open>chain s u k root\<close>: following \<open>k\<close> parent links from \<open>u\<close> leads to \<open>root\<close>, which has no parent.\<close>

fun chain :: "reg_state \<Rightarrow> uid \<Rightarrow> nat \<Rightarrow> uid \<Rightarrow> bool" where
  "chain s u 0 root \<longleftrightarrow> parent_of s u = None \<and> root = u"
| "chain s u (Suc k) root \<longleftrightarrow> (\<exists>p. parent_of s u = Some p \<and> chain s p k root)"

text \<open>\<open>trail s u hs\<close>: the predecessor edges from \<open>u\<close> lead through exactly the registered schemas \<open>hs\<close>.\<close>

fun trail :: "reg_state \<Rightarrow> uid \<Rightarrow> uid list \<Rightarrow> bool" where
  "trail s u [] \<longleftrightarrow> False"
| "trail s u (v # hs) \<longleftrightarrow> v = u \<and> rg_schemas s u \<noteq> None \<and>
     (case rg_predecessors s u of None \<Rightarrow> hs = [] | Some p \<Rightarrow> trail s p hs)"

definition index_ok :: "reg_state \<Rightarrow> bool" where
  "index_ok s \<longleftrightarrow> (\<forall>i. rg_index s i \<noteq> None \<longleftrightarrow> i < schema_count s) \<and>
     (\<forall>i j u. rg_index s i = Some u \<longrightarrow> rg_index s j = Some u \<longrightarrow> i = j) \<and>
     (\<forall>u. rg_schemas s u \<noteq> None \<longleftrightarrow> (\<exists>i. rg_index s i = Some u)) \<and> schema_count s \<le> u32_max"

definition records_ok :: "host \<Rightarrow> reg_state \<Rightarrow> bool" where
  "records_ok h s \<longleftrightarrow> (\<forall>u r. rg_schemas s u = Some r \<longrightarrow> sr_uid r = u \<and>
       u = schema_uid h (sr_schema r) (sr_resolver r) (sr_revocable r) \<and>
       validate_schema_syntax (sr_schema r) = Inr () \<and> validate_schema_lexical (sr_schema r) = Inr ()) \<and>
     (\<forall>u. rg_creators s u \<noteq> None \<longleftrightarrow> rg_schemas s u \<noteq> None)"

definition lineage_ok :: "reg_state \<Rightarrow> bool" where
  "lineage_ok s \<longleftrightarrow> (\<forall>u. rg_schemas s u \<noteq> None \<longrightarrow>
       (\<exists>k root. k \<le> MAX_SCHEMA_LINEAGE_DEPTH \<and> chain s u k root \<and> rg_schemas s root \<noteq> None) \<and>
       (\<exists>hs. length hs \<le> MAX_SCHEMA_HISTORY_DEPTH \<and> trail s u hs)) \<and>
     (\<forall>u p. parent_of s u = Some p \<longrightarrow> rg_schemas s p \<noteq> None) \<and>
     (\<forall>u p. rg_predecessors s u = Some p \<longrightarrow> rg_schemas s u \<noteq> None \<and> rg_schemas s p \<noteq> None)"

definition owner_sets_ok :: "reg_state \<Rightarrow> bool" where
  "owner_sets_ok s \<longleftrightarrow> (\<forall>u os. rg_owner_sets s u = Some os \<longrightarrow>
     1 \<le> os_threshold os \<and> os_threshold os \<le> length (os_owners os) \<and>
     length (os_owners os) \<le> MAX_OWNER_SET \<and> distinct (os_owners os))"

definition delegates_ok :: "reg_state \<Rightarrow> bool" where
  "delegates_ok s \<longleftrightarrow> (\<forall>u. case rg_delegate_list s u of
       None \<Rightarrow> (\<forall>d. \<not> rg_delegates s (u, d))
     | Some ds \<Rightarrow> ds \<noteq> [] \<and> distinct ds \<and> set ds = {d. rg_delegates s (u, d)})"

definition attributes_ok :: "reg_state \<Rightarrow> bool" where
  "attributes_ok s \<longleftrightarrow> (\<forall>u n. rg_royalties s u = Some n \<longrightarrow> n \<le> MAX_CREATOR_ROYALTY_BPS) \<and>
     (\<forall>u g. rg_frost s u = Some g \<longrightarrow> validate_frost_group g = Inr ()) \<and>
     (\<forall>u p. rg_pending_ownership s u = Some p \<longrightarrow> po_approvals p \<noteq> [] \<and> distinct (po_approvals p))"

definition reg_inv :: "host \<Rightarrow> reg_state \<Rightarrow> bool" where
  "reg_inv h s \<longleftrightarrow> index_ok s \<and> records_ok h s \<and> lineage_ok s \<and> owner_sets_ok s \<and> delegates_ok s \<and>
     attributes_ok s"

section \<open>Walks\<close>

lemma chain_unique: "chain s u k r \<Longrightarrow> chain s u k' r' \<Longrightarrow> k = k' \<and> r = r'"
proof (induction k arbitrary: u k')
  case 0
  then show ?case by (cases k') auto
next
  case (Suc k)
  then show ?case by (cases k') auto
qed

lemma lineage_walk_iff:
  "hops + fuel \<le> u32_max \<Longrightarrow>
   lineage_walk s fuel u hops = Inr (root, d) \<longleftrightarrow> (\<exists>k<fuel. chain s u k root \<and> d = hops + k)"
proof (induction fuel arbitrary: u hops)
  case (Suc fuel)
  show ?case
  proof (cases "parent_of s u")
    case None
    then have "chain s u k root \<longleftrightarrow> k = 0 \<and> root = u" for k by (cases k) auto
    with None show ?thesis by auto
  next
    case (Some p)
    then have ch: "chain s u k root \<longleftrightarrow> (\<exists>j. k = Suc j \<and> chain s p j root)" for k by (cases k) auto
    have "lineage_walk s (Suc fuel) u hops = lineage_walk s fuel p (Suc hops)"
      using Some Suc.prems by (simp add: saturating_add_u32_def)
    also have "\<dots> = Inr (root, d) \<longleftrightarrow> (\<exists>k<fuel. chain s p k root \<and> d = Suc hops + k)"
      using Suc.IH [of "Suc hops" p] Suc.prems by simp
    finally show ?thesis unfolding ch by auto
  qed
qed simp

lemma lineage_root_iff:
  "lineage_root s u = Inr (root, d) \<longleftrightarrow> chain s u d root \<and> d \<le> MAX_SCHEMA_LINEAGE_DEPTH"
  unfolding lineage_root_def
  by (subst lineage_walk_iff) (auto simp: MAX_SCHEMA_LINEAGE_DEPTH_def u32_max_def)

lemma trail_unique: "trail s u hs \<Longrightarrow> trail s u hs' \<Longrightarrow> hs = hs'"
proof (induction hs arbitrary: u hs')
  case (Cons v hs)
  then show ?case by (cases hs') (auto split: option.splits)
qed simp

lemma history_walk_iff:
  "MAX_SCHEMA_HISTORY_DEPTH < length acc + fuel \<Longrightarrow>
   history_walk s fuel acc u = Inr hs \<longleftrightarrow>
   (\<exists>t. trail s u t \<and> hs = acc @ t \<and> length hs \<le> MAX_SCHEMA_HISTORY_DEPTH)"
proof (induction fuel arbitrary: acc u)
  case 0
  have "t \<noteq> []" if "trail s u t" for t using that by (cases t) auto
  with 0 show ?case by fastforce
next
  case (Suc fuel)
  have ne: "t \<noteq> []" if "trail s u t" for u t using that by (cases t) auto
  show ?case
  proof (cases "length acc \<ge> MAX_SCHEMA_HISTORY_DEPTH \<or> rg_schemas s u = None")
    case True
    have "\<not> trail s u t \<or> \<not> length (acc @ t) \<le> MAX_SCHEMA_HISTORY_DEPTH" for t
      using True ne [of u t] by (cases t) auto
    with True show ?thesis by auto
  next
    case False
    show ?thesis
    proof (cases "rg_predecessors s u")
      case None
      with False have t: "trail s u t \<longleftrightarrow> t = [u]" for t by (cases t) auto
      from None False show ?thesis unfolding t by auto
    next
      case (Some p)
      with False have t: "trail s u t \<longleftrightarrow> (\<exists>t'. t = u # t' \<and> trail s p t')" for t by (cases t) auto
      have "history_walk s (Suc fuel) acc u = history_walk s fuel (acc @ [u]) p" using Some False by auto
      also have "\<dots> = Inr hs \<longleftrightarrow> (\<exists>t. trail s p t \<and> hs = (acc @ [u]) @ t \<and> length hs \<le> MAX_SCHEMA_HISTORY_DEPTH)"
        by (rule Suc.IH) (use Suc.prems in simp)
      finally show ?thesis unfolding t by auto
    qed
  qed
qed

lemma schema_history_iff:
  "schema_history s u = Inr hs \<longleftrightarrow> trail s u hs \<and> length hs \<le> MAX_SCHEMA_HISTORY_DEPTH"
  unfolding schema_history_def by (subst history_walk_iff) auto

section \<open>What each kind of step may change\<close>

text \<open>The fields that only registration, retirement and ownership calls touch.\<close>

definition core_same :: "reg_state \<Rightarrow> reg_state \<Rightarrow> bool" where
  "core_same s s' \<longleftrightarrow> rg_schemas s' = rg_schemas s \<and> rg_creators s' = rg_creators s \<and>
     rg_deprecated s' = rg_deprecated s \<and> rg_index s' = rg_index s \<and> rg_count s' = rg_count s \<and>
     rg_predecessors s' = rg_predecessors s"

lemma reg_emit_simps [simp]:
  "rg_admin (reg_emit e s) = rg_admin s" "rg_version (reg_emit e s) = rg_version s"
  "rg_fee (reg_emit e s) = rg_fee s" "rg_treasury (reg_emit e s) = rg_treasury s"
  "rg_schemas (reg_emit e s) = rg_schemas s" "rg_creators (reg_emit e s) = rg_creators s"
  "rg_deprecated (reg_emit e s) = rg_deprecated s" "rg_max_ttls (reg_emit e s) = rg_max_ttls s"
  "rg_policies (reg_emit e s) = rg_policies s" "rg_metadata (reg_emit e s) = rg_metadata s"
  "rg_delegates (reg_emit e s) = rg_delegates s" "rg_delegate_expiry (reg_emit e s) = rg_delegate_expiry s"
  "rg_delegate_list (reg_emit e s) = rg_delegate_list s" "rg_acl (reg_emit e s) = rg_acl s"
  "rg_acl_count (reg_emit e s) = rg_acl_count s" "rg_owner_sets (reg_emit e s) = rg_owner_sets s"
  "rg_pending_owner (reg_emit e s) = rg_pending_owner s"
  "rg_pending_ownership (reg_emit e s) = rg_pending_ownership s"
  "rg_royalties (reg_emit e s) = rg_royalties s" "rg_quarantine (reg_emit e s) = rg_quarantine s"
  "rg_frost (reg_emit e s) = rg_frost s" "rg_merkle_roots (reg_emit e s) = rg_merkle_roots s"
  "rg_count (reg_emit e s) = rg_count s" "rg_index (reg_emit e s) = rg_index s"
  "rg_categories (reg_emit e s) = rg_categories s" "rg_category_count (reg_emit e s) = rg_category_count s"
  "rg_category_index (reg_emit e s) = rg_category_index s" "rg_predecessors (reg_emit e s) = rg_predecessors s"
  by (simp_all add: reg_emit_def)

lemma delegate_list_simps [simp]:
  "rg_schemas (add_to_delegate_list u d s) = rg_schemas s" "rg_creators (add_to_delegate_list u d s) = rg_creators s"
  "rg_deprecated (add_to_delegate_list u d s) = rg_deprecated s" "rg_index (add_to_delegate_list u d s) = rg_index s"
  "rg_count (add_to_delegate_list u d s) = rg_count s"
  "rg_predecessors (add_to_delegate_list u d s) = rg_predecessors s"
  "rg_owner_sets (add_to_delegate_list u d s) = rg_owner_sets s"
  "rg_royalties (add_to_delegate_list u d s) = rg_royalties s" "rg_frost (add_to_delegate_list u d s) = rg_frost s"
  "rg_pending_ownership (add_to_delegate_list u d s) = rg_pending_ownership s"
  "rg_delegates (add_to_delegate_list u d s) = rg_delegates s"
  "rg_schemas (remove_from_delegate_list u d s) = rg_schemas s"
  "rg_creators (remove_from_delegate_list u d s) = rg_creators s"
  "rg_deprecated (remove_from_delegate_list u d s) = rg_deprecated s"
  "rg_index (remove_from_delegate_list u d s) = rg_index s" "rg_count (remove_from_delegate_list u d s) = rg_count s"
  "rg_predecessors (remove_from_delegate_list u d s) = rg_predecessors s"
  "rg_owner_sets (remove_from_delegate_list u d s) = rg_owner_sets s"
  "rg_royalties (remove_from_delegate_list u d s) = rg_royalties s"
  "rg_frost (remove_from_delegate_list u d s) = rg_frost s"
  "rg_pending_ownership (remove_from_delegate_list u d s) = rg_pending_ownership s"
  "rg_delegates (remove_from_delegate_list u d s) = rg_delegates s"
  by (auto simp: add_to_delegate_list_def remove_from_delegate_list_def Let_def split: option.splits)

lemmas reg_admin_defs = reg_init_def reg_upgrade_def reg_set_fee_def reg_clear_fee_def reg_set_treasury_def
  withdraw_fees_def set_schema_quarantine_def reg_commit_upgrade_def registry_admin_def

lemma reg_admin_step_frame:
  "reg_admin_step env s s' \<Longrightarrow> core_same s s' \<and> rg_owner_sets s' = rg_owner_sets s \<and>
   rg_delegates s' = rg_delegates s \<and> rg_delegate_list s' = rg_delegate_list s \<and>
   rg_royalties s' = rg_royalties s \<and> rg_frost s' = rg_frost s \<and>
   rg_pending_ownership s' = rg_pending_ownership s"
  by (erule reg_admin_step.cases) (auto simp: reg_admin_defs Let_def core_same_def result_iff)

lemma reg_delegate_step_frame:
  "reg_delegate_step env s s' \<Longrightarrow> core_same s s' \<and> rg_owner_sets s' = rg_owner_sets s \<and>
   rg_royalties s' = rg_royalties s \<and> rg_frost s' = rg_frost s \<and>
   rg_pending_ownership s' = rg_pending_ownership s"
  by (erule reg_delegate_step.cases)
    (auto simp: add_delegate_def add_delegate_with_expiry_def remove_delegate_def self_revoke_delegate_def
      drop_delegate_def Let_def core_same_def result_iff)

lemmas reg_attribute_defs = add_authorized_attester_def remove_authorized_attester_def
  set_schema_frost_group_def clear_schema_frost_group_def set_schema_merkle_root_def
  clear_schema_merkle_root_def update_schema_metadata_def set_creator_royalty_def

lemma reg_attribute_step_frame:
  "reg_attribute_step env s s' \<Longrightarrow> core_same s s' \<and> rg_owner_sets s' = rg_owner_sets s \<and>
   rg_delegates s' = rg_delegates s \<and> rg_delegate_list s' = rg_delegate_list s \<and>
   rg_pending_ownership s' = rg_pending_ownership s"
  by (erule reg_attribute_step.cases)
    (auto simp: reg_attribute_defs Let_def core_same_def result_iff split: if_splits)

lemma reg_attribute_step_attributes:
  "reg_attribute_step env s s' \<Longrightarrow> attributes_ok s \<Longrightarrow> attributes_ok s'"
  by (erule reg_attribute_step.cases)
    (auto simp: reg_attribute_defs attributes_ok_def Let_def result_iff not_less split: if_splits)

lemma members_contain_iff [simp]: "members_contain xs x \<longleftrightarrow> x \<in> set xs"
  by (auto simp: members_contain_def list_ex_iff)

lemma delegates_ok_add:
  assumes "delegates_ok s" and "rg_delegates s1 = (rg_delegates s)((u, d) := True)"
    and "rg_delegate_list s1 = rg_delegate_list s"
  shows "delegates_ok (add_to_delegate_list u d s1)"
  unfolding delegates_ok_def
proof
  fix v
  have v: "case rg_delegate_list s v of None \<Rightarrow> (\<forall>d. \<not> rg_delegates s (v, d))
     | Some ds \<Rightarrow> ds \<noteq> [] \<and> distinct ds \<and> set ds = {d. rg_delegates s (v, d)}"
    using assms(1) by (simp add: delegates_ok_def)
  show "case rg_delegate_list (add_to_delegate_list u d s1) v of
      None \<Rightarrow> (\<forall>x. \<not> rg_delegates (add_to_delegate_list u d s1) (v, x))
    | Some ds \<Rightarrow> ds \<noteq> [] \<and> distinct ds \<and> set ds = {x. rg_delegates (add_to_delegate_list u d s1) (v, x)}"
  proof (cases "v = u")
    case True
    with v assms(2,3) show ?thesis
      by (cases "rg_delegate_list s u") (auto simp: add_to_delegate_list_def Let_def)
  next
    case False
    with v assms(2,3) show ?thesis
      by (cases "rg_delegate_list s v") (auto simp: add_to_delegate_list_def Let_def)
  qed
qed

lemma delegates_ok_drop:
  assumes "delegates_ok s" and "rg_delegates s1 = (rg_delegates s)((u, d) := False)"
    and "rg_delegate_list s1 = rg_delegate_list s"
  shows "delegates_ok (remove_from_delegate_list u d s1)"
  unfolding delegates_ok_def
proof
  fix v
  have v: "case rg_delegate_list s v of None \<Rightarrow> (\<forall>d. \<not> rg_delegates s (v, d))
     | Some ds \<Rightarrow> ds \<noteq> [] \<and> distinct ds \<and> set ds = {d. rg_delegates s (v, d)}"
    using assms(1) by (simp add: delegates_ok_def)
  show "case rg_delegate_list (remove_from_delegate_list u d s1) v of
      None \<Rightarrow> (\<forall>x. \<not> rg_delegates (remove_from_delegate_list u d s1) (v, x))
    | Some ds \<Rightarrow> ds \<noteq> [] \<and> distinct ds \<and> set ds = {x. rg_delegates (remove_from_delegate_list u d s1) (v, x)}"
  proof (cases "rg_delegate_list s u")
    case None
    with v assms(2,3) show ?thesis
      by (cases "v = u") (auto simp: remove_from_delegate_list_def split: option.splits)
  next
    case (Some ds)
    show ?thesis
    proof (cases "v = u")
      case True
      with v Some have ds: "distinct ds" "set ds = {x. rg_delegates s (u, x)}" by auto
      have "filter (\<lambda>m. m \<noteq> d) ds = [] \<longleftrightarrow> (\<forall>x. rg_delegates s (u, x) \<longrightarrow> x = d)"
        using ds(2) by (auto simp: filter_empty_conv)
      with ds Some True assms(2,3) show ?thesis
        by (auto simp: remove_from_delegate_list_def Let_def)
    next
      case False
      with v Some assms(2,3) show ?thesis
        by (cases "rg_delegate_list s v") (auto simp: remove_from_delegate_list_def Let_def)
    qed
  qed
qed

lemma delegates_ok_same:
  "rg_delegates s' = rg_delegates s \<Longrightarrow> rg_delegate_list s' = rg_delegate_list s \<Longrightarrow>
   delegates_ok s' \<longleftrightarrow> delegates_ok s"
  by (simp add: delegates_ok_def cong: option.case_cong)

lemma reg_emit_delegates_ok [simp]: "delegates_ok (reg_emit e s) = delegates_ok s"
  by (rule delegates_ok_same) simp_all

lemma reg_delegate_step_delegates:
  "reg_delegate_step env s s' \<Longrightarrow> delegates_ok s \<Longrightarrow> delegates_ok s'"
  by (erule reg_delegate_step.cases)
    (auto simp: add_delegate_def add_delegate_with_expiry_def remove_delegate_def self_revoke_delegate_def
      drop_delegate_def Let_def result_iff intro!: delegates_ok_add [of s] delegates_ok_drop [of s])

section \<open>Registration\<close>

lemma next_index_Inr_iff: "next_index s = Inr c \<Longrightarrow> c = schema_count s"
  by (auto simp: next_index_def schema_count_def split: option.splits if_splits)

definition new_schema ::
  "host \<Rightarrow> address \<Rightarrow> bytes \<Rightarrow> address \<Rightarrow> bool \<Rightarrow> uid option \<Rightarrow> reg_state \<Rightarrow> uid \<Rightarrow> reg_state \<Rightarrow> bool" where
  "new_schema h owner schema resolver revocable parent s u s' \<longleftrightarrow>
     u = schema_uid h schema resolver revocable \<and> rg_schemas s u = None \<and>
     validate_schema_lexical schema = Inr () \<and> validate_schema_syntax schema = Inr () \<and>
     (\<forall>p. parent = Some p \<longrightarrow> validate_parent_schema s owner p = Inr ()) \<and>
     rg_schemas s' = (rg_schemas s)(u \<mapsto> \<lparr>sr_uid = u, sr_resolver = resolver, sr_revocable = revocable,
        sr_schema = schema, sr_deprecated = False, sr_parent_schema_uid = parent\<rparr>) \<and>
     rg_creators s' = (rg_creators s)(u \<mapsto> owner) \<and>
     rg_index s' = (rg_index s)(schema_count s \<mapsto> u) \<and> schema_count s < u32_max \<and>
     rg_count s' = Some (Suc (schema_count s)) \<and> rg_deprecated s' = rg_deprecated s \<and>
     rg_owner_sets s' = rg_owner_sets s \<and> rg_delegates s' = rg_delegates s \<and>
     rg_delegate_list s' = rg_delegate_list s \<and> rg_frost s' = rg_frost s \<and>
     rg_pending_ownership s' = rg_pending_ownership s"

lemma register_internal_effect:
  assumes "register_internal h owner schema resolver revocable max_ttl parent uri s = Inr (u, s')"
  shows "new_schema h owner schema resolver revocable parent s u s' \<and>
    rg_predecessors s' = rg_predecessors s \<and> rg_royalties s' = rg_royalties s"
proof -
  let ?u = "schema_uid h schema resolver revocable"
  let ?r = "\<lparr>sr_uid = ?u, sr_resolver = resolver, sr_revocable = revocable, sr_schema = schema,
    sr_deprecated = False, sr_parent_schema_uid = parent\<rparr>"
  from assms obtain s2 s3 where pre: "validate_schema_lexical schema = Inr ()"
    "validate_schema_syntax schema = Inr ()"
    "(case parent of Some p \<Rightarrow> validate_parent_schema s owner p | None \<Rightarrow> Inr ()) = Inr ()"
    "rg_schemas s ?u = None" "u = ?u"
    and s2: "store_metadata ?u uri (store_schema ?r owner max_ttl s) = Inr s2"
    and s3: "append_index ?u s2 = Inr s3"
    and s': "s' = reg_emit (SchemaRegistered ?u owner) s3"
    unfolding register_internal_def Let_def by (auto simp: bind_r_Inr_iff if_Inl_Inr_iff)
  have frame: "rg_schemas s2 = (rg_schemas s)(?u \<mapsto> ?r)" "rg_creators s2 = (rg_creators s)(?u \<mapsto> owner)"
    "rg_index s2 = rg_index s" "rg_count s2 = rg_count s" "rg_deprecated s2 = rg_deprecated s"
    "rg_owner_sets s2 = rg_owner_sets s" "rg_delegates s2 = rg_delegates s"
    "rg_delegate_list s2 = rg_delegate_list s" "rg_frost s2 = rg_frost s"
    "rg_pending_ownership s2 = rg_pending_ownership s" "rg_predecessors s2 = rg_predecessors s"
    "rg_royalties s2 = rg_royalties s"
    using s2 by (auto simp: store_metadata_def store_schema_def Let_def bind_r_Inr_iff split: option.splits)
  have "s3 = s2\<lparr>rg_index := (rg_index s)(schema_count s \<mapsto> ?u), rg_count := Some (Suc (schema_count s))\<rparr>"
    "schema_count s < u32_max"
    using s3 next_index_Inr_iff [of s2] frame(3,4)
    by (auto simp: append_index_def schema_count_def add_u32_def bind_r_Inr_iff split: if_splits)
  with pre frame show ?thesis
    unfolding new_schema_def s' by (auto split: option.splits)
qed

section \<open>Preservation of the invariant\<close>

lemma parent_of_same: "rg_schemas s' = rg_schemas s \<Longrightarrow> parent_of s' = parent_of s"
  by (simp add: parent_of_def fun_eq_iff)

lemma chain_same: "parent_of s' = parent_of s \<Longrightarrow> chain s' u k root \<longleftrightarrow> chain s u k root"
  by (induction k arbitrary: u) auto

lemma trail_same:
  "(\<And>u. rg_schemas s' u = None \<longleftrightarrow> rg_schemas s u = None) \<Longrightarrow> rg_predecessors s' = rg_predecessors s \<Longrightarrow>
   trail s' u hs \<longleftrightarrow> trail s u hs"
  by (induction hs arbitrary: u) (auto split: option.splits)

lemma lineage_ok_same:
  assumes "\<And>u. rg_schemas s' u = None \<longleftrightarrow> rg_schemas s u = None" "parent_of s' = parent_of s"
    "rg_predecessors s' = rg_predecessors s"
  shows "lineage_ok s' \<longleftrightarrow> lineage_ok s"
  unfolding lineage_ok_def chain_same [OF assms(2)] trail_same [OF assms(1,3)] assms(1) assms(2) assms(3) ..

lemma core_same_inv:
  assumes "core_same s s'"
  shows "index_ok s' = index_ok s" "records_ok h s' = records_ok h s" "lineage_ok s' = lineage_ok s"
  using assms lineage_ok_same [of s' s] parent_of_same [of s' s]
  by (simp_all add: core_same_def index_ok_def records_ok_def schema_count_def)

lemma new_schema_parent:
  "new_schema h a sc r b parent s u s' \<Longrightarrow> parent_of s' v = (if v = u then parent else parent_of s v)"
  by (simp add: new_schema_def parent_of_def)

lemma chain_registered:
  assumes "new_schema h a sc r b parent s u s'" and "lineage_ok s" and "rg_schemas s v \<noteq> None"
  shows "chain s' v k root \<longleftrightarrow> chain s v k root"
  using assms(3)
proof (induction k arbitrary: v)
  case (0 v)
  then have "v \<noteq> u" using assms(1) by (auto simp: new_schema_def)
  then show ?case using new_schema_parent [OF assms(1)] by auto
next
  case (Suc k v)
  then have v: "v \<noteq> u" using assms(1) by (auto simp: new_schema_def)
  have "parent_of s' v = parent_of s v" using v new_schema_parent [OF assms(1)] by simp
  moreover have "rg_schemas s p \<noteq> None" if "parent_of s v = Some p" for p
    using assms(2) that unfolding lineage_ok_def by blast
  ultimately show ?case using Suc.IH by auto
qed

lemma trail_registered:
  assumes "\<And>v. v \<noteq> u \<Longrightarrow> rg_schemas s' v = rg_schemas s v \<and> rg_predecessors s' v = rg_predecessors s v"
    and "rg_schemas s u = None" and "lineage_ok s" and "rg_schemas s v \<noteq> None"
  shows "trail s' v hs \<longleftrightarrow> trail s v hs"
  using assms(4)
proof (induction hs arbitrary: v)
  case (Cons w hs v)
  then have v: "v \<noteq> u" using assms(2) by auto
  have "rg_schemas s p \<noteq> None" if "rg_predecessors s v = Some p" for p
    using assms(3) that unfolding lineage_ok_def by blast
  with assms(1) [OF v] Cons show ?case by (auto split: option.splits)
qed simp

lemma new_schema_chain:
  assumes new: "new_schema h a sc r b parent s u s'" and ok: "lineage_ok s"
  shows "\<exists>k root. k \<le> MAX_SCHEMA_LINEAGE_DEPTH \<and> chain s' u k root \<and> rg_schemas s' root \<noteq> None"
proof (cases parent)
  case None
  then have "chain s' u 0 u" using new_schema_parent [OF new] by simp
  moreover have "rg_schemas s' u \<noteq> None" using new by (simp add: new_schema_def)
  ultimately show ?thesis by blast
next
  case (Some p)
  then have "validate_parent_schema s a p = Inr ()" using new by (simp add: new_schema_def)
  then obtain root d where p: "rg_schemas s p \<noteq> None" "lineage_root s p = Inr (root, d)"
    "d < MAX_SCHEMA_LINEAGE_DEPTH"
    by (auto simp: validate_parent_schema_def bind_r_Inr_iff not_le split: if_splits)
  then have ch: "chain s p d root" by (simp add: lineage_root_iff)
  with chain_registered [OF new ok p(1)] have "chain s' u (Suc d) root"
    using Some new_schema_parent [OF new, of u] by auto
  moreover have "rg_schemas s root \<noteq> None"
    using ok p(1) ch chain_unique unfolding lineage_ok_def by blast
  then have "rg_schemas s' root \<noteq> None" using new by (auto simp: new_schema_def)
  ultimately show ?thesis using p(3) by (metis Suc_leI)
qed

lemma index_ok_new:
  assumes new: "new_schema h a sc r b parent s u s'" and ok: "index_ok s"
  shows "index_ok s'"
proof -
  have s': "rg_index s' = (rg_index s)(schema_count s \<mapsto> u)" "schema_count s' = Suc (schema_count s)"
    "\<And>v. rg_schemas s' v \<noteq> None \<longleftrightarrow> v = u \<or> rg_schemas s v \<noteq> None" "schema_count s < u32_max"
    "rg_schemas s u = None"
    using new by (auto simp: new_schema_def schema_count_def)
  have no: "rg_index s i \<noteq> Some u" for i
  proof
    assume "rg_index s i = Some u"
    then have "rg_schemas s u \<noteq> None" using ok unfolding index_ok_def by blast
    with s'(5) show False by simp
  qed
  have fresh: "rg_index s (schema_count s) = None" using ok unfolding index_ok_def by blast
  show ?thesis
    unfolding index_ok_def
  proof (intro conjI allI impI)
    fix i
    show "rg_index s' i \<noteq> None \<longleftrightarrow> i < schema_count s'"
      using ok less_Suc_eq unfolding s'(1,2) index_ok_def by auto
  next
    fix i j v
    assume "rg_index s' i = Some v" "rg_index s' j = Some v"
    then show "i = j"
      using ok no unfolding s'(1) index_ok_def by (auto split: if_splits)
  next
    fix v
    have "(\<exists>i. rg_index s' i = Some v) \<longleftrightarrow> v = u \<or> (\<exists>i. rg_index s i = Some v)"
    proof (cases "v = u")
      case False
      then have "(rg_index s' i = Some v) = (rg_index s i = Some v)" for i
        using fresh unfolding s'(1) by auto
      with False show ?thesis by simp
    qed (auto simp: s'(1))
    then show "rg_schemas s' v \<noteq> None \<longleftrightarrow> (\<exists>i. rg_index s' i = Some v)"
      using ok unfolding s'(3) index_ok_def by blast
  qed (use s'(2,4) in simp)
qed

lemma lineage_ok_new:
  assumes new: "new_schema h a sc r b parent s u s'" and ok: "lineage_ok s"
    and preds: "rg_predecessors s' = rg_predecessors s \<or>
      (\<exists>p hs. rg_predecessors s' = (rg_predecessors s)(u \<mapsto> p) \<and> trail s p hs \<and>
        length hs < MAX_SCHEMA_HISTORY_DEPTH)"
  shows "lineage_ok s'"
proof -
  have new': "rg_schemas s u = None" "\<And>v. rg_schemas s' v \<noteq> None \<longleftrightarrow> v = u \<or> rg_schemas s v \<noteq> None"
    "\<And>v. v \<noteq> u \<Longrightarrow> rg_schemas s' v = rg_schemas s v \<and> rg_predecessors s' v = rg_predecessors s v"
    using new preds by (auto simp: new_schema_def)
  have pu: "rg_predecessors s u = None" using ok new'(1) unfolding lineage_ok_def by fastforce
  have reg: "rg_schemas s p \<noteq> None" if "trail s p hs" for p hs using that by (cases hs) auto
  have par: "parent = Some p \<Longrightarrow> rg_schemas s p \<noteq> None" for p
    using new by (auto simp: new_schema_def validate_parent_schema_def split: if_splits)
  have tr: "trail s' v hs \<longleftrightarrow> trail s v hs" if "rg_schemas s v \<noteq> None" for v hs
    by (rule trail_registered [OF _ new'(1) ok that]) (rule new'(3))
  have tu: "\<exists>hs. length hs \<le> MAX_SCHEMA_HISTORY_DEPTH \<and> trail s' u hs"
  proof (cases "rg_predecessors s' = rg_predecessors s")
    case True
    then have "trail s' u [u]" using pu new'(2) by simp
    then show ?thesis by (intro exI [of _ "[u]"]) (simp add: MAX_SCHEMA_HISTORY_DEPTH_def)
  next
    case False
    with preds obtain p hs where p: "rg_predecessors s' = (rg_predecessors s)(u \<mapsto> p)" "trail s p hs"
      "length hs < MAX_SCHEMA_HISTORY_DEPTH" by blast
    then have "trail s' u (u # hs)" using tr [OF reg [OF p(2)]] new'(2) by simp
    with p(3) show ?thesis by (intro exI [of _ "u # hs"]) simp
  qed
  show ?thesis
    unfolding lineage_ok_def
  proof (intro conjI allI impI)
    fix v
    assume "rg_schemas s' v \<noteq> None"
    then consider "v = u" | "v \<noteq> u" "rg_schemas s v \<noteq> None" using new'(2) by blast
    note cases_v = this
    show "\<exists>k root. k \<le> MAX_SCHEMA_LINEAGE_DEPTH \<and> chain s' v k root \<and> rg_schemas s' root \<noteq> None"
      using cases_v
    proof cases
      case 1
      then show ?thesis using new_schema_chain [OF new ok] by simp
    next
      case 2
      with ok obtain k root where "k \<le> MAX_SCHEMA_LINEAGE_DEPTH" "chain s v k root" "rg_schemas s root \<noteq> None"
        unfolding lineage_ok_def by blast
      with chain_registered [OF new ok 2(2)] new'(2) show ?thesis by blast
    qed
    show "\<exists>hs. length hs \<le> MAX_SCHEMA_HISTORY_DEPTH \<and> trail s' v hs"
      using cases_v
    proof cases
      case 1
      then show ?thesis using tu by simp
    next
      case 2
      with ok tr [OF 2(2)] show ?thesis unfolding lineage_ok_def by blast
    qed
  next
    fix v p
    assume "parent_of s' v = Some p"
    then have "rg_schemas s p \<noteq> None"
      using par ok new_schema_parent [OF new, of v] unfolding lineage_ok_def by (auto split: if_splits)
    then show "rg_schemas s' p \<noteq> None" using new'(2) by blast
  next
    fix v p
    assume pv: "rg_predecessors s' v = Some p"
    have "(v = u \<or> rg_schemas s v \<noteq> None) \<and> rg_schemas s p \<noteq> None"
    proof (cases "v = u")
      case True
      with pv preds pu obtain hs where "trail s p hs" by auto
      with reg True show ?thesis by blast
    next
      case False
      with pv new'(3) ok show ?thesis unfolding lineage_ok_def by metis
    qed
    then show "rg_schemas s' v \<noteq> None" "rg_schemas s' p \<noteq> None" using new'(2) by blast+
  qed
qed

lemma records_ok_new:
  "new_schema h a sc r b parent s u s' \<Longrightarrow> records_ok h s \<Longrightarrow> records_ok h s'"
  by (auto simp: new_schema_def records_ok_def)

text \<open>What a registering call does: it adds one schema, possibly with a predecessor and a royalty.\<close>

definition registers ::
  "host \<Rightarrow> reg_state \<Rightarrow> reg_state \<Rightarrow> bool" where
  "registers h s s' \<longleftrightarrow> (\<exists>a sc r b parent u. new_schema h a sc r b parent s u s' \<and>
     (rg_predecessors s' = rg_predecessors s \<or>
       (\<exists>p hs. rg_predecessors s' = (rg_predecessors s)(u \<mapsto> p) \<and> trail s p hs \<and>
         length hs < MAX_SCHEMA_HISTORY_DEPTH)) \<and>
     (rg_royalties s' = rg_royalties s \<or>
       (\<exists>n. rg_royalties s' = (rg_royalties s)(u \<mapsto> n) \<and> n \<le> MAX_CREATOR_ROYALTY_BPS)))"

lemma registers_inv:
  assumes "registers h s s'" and "reg_inv h s"
  shows "reg_inv h s'"
proof -
  from assms(1) obtain a sc r b parent u where new: "new_schema h a sc r b parent s u s'"
    and preds: "rg_predecessors s' = rg_predecessors s \<or>
       (\<exists>p hs. rg_predecessors s' = (rg_predecessors s)(u \<mapsto> p) \<and> trail s p hs \<and>
         length hs < MAX_SCHEMA_HISTORY_DEPTH)"
    and roy: "rg_royalties s' = rg_royalties s \<or>
       (\<exists>n. rg_royalties s' = (rg_royalties s)(u \<mapsto> n) \<and> n \<le> MAX_CREATOR_ROYALTY_BPS)"
    unfolding registers_def by blast
  have frame: "rg_owner_sets s' = rg_owner_sets s" "rg_delegates s' = rg_delegates s"
    "rg_delegate_list s' = rg_delegate_list s" "rg_frost s' = rg_frost s"
    "rg_pending_ownership s' = rg_pending_ownership s"
    using new by (auto simp: new_schema_def)
  have "attributes_ok s'" using assms(2) roy frame by (auto simp: reg_inv_def attributes_ok_def split: if_splits)
  moreover have "owner_sets_ok s'" using assms(2) frame by (simp add: reg_inv_def owner_sets_ok_def)
  moreover have "delegates_ok s'" using assms(2) delegates_ok_same [OF frame(2,3)] by (simp add: reg_inv_def)
  ultimately show ?thesis
    using assms(2) index_ok_new [OF new] records_ok_new [OF new] lineage_ok_new [OF new _ preds]
    by (simp add: reg_inv_def)
qed

lemma register_internal_registers:
  "register_internal h a sc r b ttl parent uri s = Inr (u, s') \<Longrightarrow> registers h s s'"
  using register_internal_effect [of h a sc r b ttl parent uri s u s'] unfolding registers_def by blast

lemma registers_frame:
  assumes "registers h s s'" and "rg_schemas s2 = rg_schemas s'" "rg_creators s2 = rg_creators s'"
    "rg_index s2 = rg_index s'" "rg_count s2 = rg_count s'" "rg_deprecated s2 = rg_deprecated s'"
    "rg_owner_sets s2 = rg_owner_sets s'" "rg_delegates s2 = rg_delegates s'"
    "rg_delegate_list s2 = rg_delegate_list s'" "rg_frost s2 = rg_frost s'"
    "rg_pending_ownership s2 = rg_pending_ownership s'" "rg_predecessors s2 = rg_predecessors s'"
    "rg_royalties s2 = rg_royalties s'"
  shows "registers h s s2"
  using assms unfolding registers_def new_schema_def by simp

lemma register_with_policy_registers:
  assumes "register_with_policy h env a sc r pol s = Inr (u, s')"
  shows "registers h s s'"
proof -
  from assms obtain s1 where int: "register_internal h a sc r (pol \<noteq> IrrevocableOnly) 0 None None s = Inr (u, s1)"
    and s': "s' = s1\<lparr>rg_policies := (rg_policies s1)(u \<mapsto> pol)\<rparr>"
    by (auto simp: register_with_policy_def bind_r_Inr_iff)
  from register_internal_registers [OF int] show ?thesis by (rule registers_frame) (simp_all add: s')
qed

lemma register_with_royalty_registers:
  assumes "register_with_royalty h env a sc r b n s = Inr (u, s')"
  shows "registers h s s'"
proof -
  from assms obtain s1 where int: "register_internal h a sc r b 0 None None s = Inr (u, s1)"
    and n: "n \<le> MAX_CREATOR_ROYALTY_BPS" and s': "s' = s1\<lparr>rg_royalties := (rg_royalties s1)(u \<mapsto> n)\<rparr>"
    by (auto simp: register_with_royalty_def register_def bind_r_Inr_iff if_Inl_Inr_iff not_less)
  from register_internal_effect [OF int] n show ?thesis
    unfolding registers_def by (intro exI [of _ a] exI [of _ sc] exI [of _ r] exI [of _ b] exI [of _ None]
        exI [of _ u]) (simp add: s' new_schema_def, blast)
qed

lemma register_with_predecessor_effect:
  assumes "register_with_predecessor h env a sc r b p s = Inr (u, s')"
  shows "\<exists>pr owner hs s1. rg_schemas s p = Some pr \<and> rg_creators s p = Some owner \<and>
    authorized env owner \<and> authorized env a \<and> validate_schema_syntax sc = Inr () \<and>
    validate_schema_syntax (sr_schema pr) = Inr () \<and> is_append_only_schema (sr_schema pr) sc \<and>
    trail s p hs \<and> length hs < MAX_SCHEMA_HISTORY_DEPTH \<and>
    register_internal h a sc r b 0 None None s = Inr (u, s1) \<and>
    s' = s1\<lparr>rg_predecessors := (rg_predecessors s1)(u \<mapsto> p)\<rparr>"
proof -
  from assms obtain pr owner hs s1 where "rg_schemas s p = Some pr" "rg_creators s p = Some owner"
    "authorized env owner" "authorized env a" "validate_schema_syntax sc = Inr ()"
    "validate_schema_syntax (sr_schema pr) = Inr ()" "is_append_only_schema (sr_schema pr) sc"
    "schema_history s p = Inr hs" "length hs < MAX_SCHEMA_HISTORY_DEPTH"
    "register_internal h a sc r b 0 None None s = Inr (u, s1)"
    "s' = s1\<lparr>rg_predecessors := (rg_predecessors s1)(u \<mapsto> p)\<rparr>"
    unfolding register_with_predecessor_def
    by (auto simp: bind_r_Inr_iff if_Inl_Inr_iff or_panic_Inr_iff require_auth_Inr_iff not_le)
  then show ?thesis unfolding schema_history_iff by blast
qed

lemma register_with_predecessor_registers:
  assumes "register_with_predecessor h env a sc r b p s = Inr (u, s')"
  shows "registers h s s'"
proof -
  from register_with_predecessor_effect [OF assms] obtain hs s1 where t: "trail s p hs"
    "length hs < MAX_SCHEMA_HISTORY_DEPTH" and int: "register_internal h a sc r b 0 None None s = Inr (u, s1)"
    and s': "s' = s1\<lparr>rg_predecessors := (rg_predecessors s1)(u \<mapsto> p)\<rparr>"
    by blast
  from register_internal_effect [OF int] t show ?thesis
    unfolding registers_def by (intro exI [of _ a] exI [of _ sc] exI [of _ r] exI [of _ b] exI [of _ None]
        exI [of _ u]) (simp add: s' new_schema_def, blast)
qed

lemma index_category_frame:
  "index_category u c s = Inr s' \<Longrightarrow> \<exists>x y z. s' = s\<lparr>rg_categories := x, rg_category_index := y, rg_category_count := z\<rparr>"
  by (auto simp: index_category_def bind_r_Inr_iff)

lemma register_with_category_registers:
  assumes "register_with_category h env a sc r b c s = Inr (u, s')"
  shows "registers h s s'"
proof -
  from assms obtain s1 where int: "register_internal h a sc r b 0 None None s = Inr (u, s1)"
    and cat: "(case c of Some name \<Rightarrow> if name = [] then Inr s1 else index_category u name s1
             | None \<Rightarrow> Inr s1) = Inr s'"
    by (auto simp: register_with_category_def bind_r_Inr_iff)
  have "s' = s1 \<or> (\<exists>x y z. s' = s1\<lparr>rg_categories := x, rg_category_index := y, rg_category_count := z\<rparr>)"
    using cat index_category_frame by (cases c) (auto split: if_splits)
  with register_internal_registers [OF int] show ?thesis
    by (auto elim!: registers_frame)
qed

lemma batch_loop_registers:
  "batch_loop h env items us au s = Inr (vs, s') \<Longrightarrow> (registers h)\<^sup>*\<^sup>* s s'"
proof (induction items arbitrary: us au s)
  case (Cons item items)
  from Cons.prems obtain au' u s1 where
    int: "register_internal h (sb_owner item) (sb_schema item) (sb_resolver item) (sb_revocable item)
      0 None None s = Inr (u, s1)"
    and rest: "batch_loop h env items (us @ [u]) au' s1 = Inr (vs, s')"
    by (auto simp: bind_r_Inr_iff)
  from register_internal_registers [OF int] Cons.IH [OF rest] show ?case by (rule converse_rtranclp_into_rtranclp)
qed simp

lemma reg_register_step_registers:
  assumes "reg_register_step h pay env s s'"
  shows "(registers h)\<^sup>*\<^sup>* s s'"
  using assms
proof cases
  case (4 a sc r pol u)
  then show ?thesis using register_with_policy_registers by blast
next
  case (5 a sc r b n u)
  then show ?thesis using register_with_royalty_registers by blast
next
  case (6 a sc r b p u)
  then show ?thesis using register_with_predecessor_registers by blast
next
  case (12 items us)
  then show ?thesis
    using batch_loop_registers by (fastforce simp: register_schemas_batch_def split: if_splits)
next
  case (13 a sc r b c u)
  then show ?thesis using register_with_category_registers by blast
qed (auto simp: register_def register_with_parent_def register_with_ttl_def register_with_value_def
    register_with_value_and_ttl_def register_schema_def register_schema_with_value_def
    register_with_metadata_def bind_r_Inr_iff dest!: register_internal_registers)

lemma registers_steps_inv: "(registers h)\<^sup>*\<^sup>* s s' \<Longrightarrow> reg_inv h s \<Longrightarrow> reg_inv h s'"
  by (induction rule: rtranclp_induct) (auto intro: registers_inv)

lemma require_transferable_Inr_iff [result_iff]:
  "require_transferable_schema s u = Inr z \<longleftrightarrow> rg_schemas s u \<noteq> None \<and> \<not> rg_deprecated s u"
  by (auto simp: require_transferable_schema_def)

lemma no_duplicate_owner_iff: "no_duplicate_owner seen xs \<longleftrightarrow> distinct xs \<and> set seen \<inter> set xs = {}"
  by (induction xs arbitrary: seen) auto

lemma validate_owner_set_Inr_iff [result_iff]:
  "validate_owner_set owners n = Inr z \<longleftrightarrow> owners \<noteq> [] \<and> length owners \<le> MAX_OWNER_SET \<and> 1 \<le> n \<and>
   n \<le> length owners \<and> distinct owners"
  by (auto simp: validate_owner_set_def no_duplicate_owner_iff)

lemma record_approval_Inr_iff [result_iff]:
  "record_approval u who s = Inr (p', s') \<longleftrightarrow> (\<exists>p. rg_pending_ownership s u = Some p \<and>
     po_owner_set_version p = effective_version s u \<and> is_owner_address s u who \<and> who \<notin> set (po_approvals p) \<and>
     p' = p\<lparr>po_approvals := po_approvals p @ [who]\<rparr> \<and>
     s' = reg_emit (SchemaOwnerApproved u who (length (po_approvals p')))
       (s\<lparr>rg_pending_ownership := (rg_pending_ownership s)(u \<mapsto> p')\<rparr>))"
  by (cases "rg_pending_ownership s u") (auto simp: record_approval_def Let_def if_Inl_Inr_iff)

lemma get_schema_Some_iff: "get_schema s u = Some r \<longleftrightarrow> \<not> rg_deprecated s u \<and> rg_schemas s u = Some r"
  by (simp add: get_schema_def)

lemmas reg_owner_defs = transfer_schema_ownership_def transfer_ownership_def propose_schema_owner_def
  claim_schema_ownership_def cancel_schema_ownership_transfer_def configure_owner_set_def
  propose_ownership_transfer_def approve_ownership_transfer_def cancel_ownership_transfer_def
  reject_single_sig_transfer_for_multisig_def finalize_ownership_transfer_def

lemma reg_owner_step_frame:
  "reg_owner_step env s s' \<Longrightarrow> rg_schemas s' = rg_schemas s \<and> rg_index s' = rg_index s \<and>
   rg_count s' = rg_count s \<and> rg_deprecated s' = rg_deprecated s \<and> rg_predecessors s' = rg_predecessors s \<and>
   rg_delegates s' = rg_delegates s \<and> rg_delegate_list s' = rg_delegate_list s \<and>
   rg_royalties s' = rg_royalties s \<and> rg_frost s' = rg_frost s"
  by (erule reg_owner_step.cases)
    (auto simp: reg_owner_defs Let_def result_iff split: if_splits)

lemma reg_owner_step_creators:
  "reg_owner_step env s s' \<Longrightarrow> rg_creators s' v \<noteq> rg_creators s v \<Longrightarrow>
   rg_schemas s v \<noteq> None \<and> rg_creators s' v \<noteq> None"
  by (erule reg_owner_step.cases)
    (auto simp: reg_owner_defs Let_def result_iff get_schema_Some_iff split: if_splits)

lemma reg_owner_step_owner_sets: "reg_owner_step env s s' \<Longrightarrow> owner_sets_ok s \<Longrightarrow> owner_sets_ok s'"
  by (erule reg_owner_step.cases)
    (auto simp: reg_owner_defs owner_sets_ok_def Let_def result_iff split: if_splits)

lemma reg_owner_step_pending:
  "reg_owner_step env s s' \<Longrightarrow> (\<And>u p. rg_pending_ownership s u = Some p \<Longrightarrow> po_approvals p \<noteq> [] \<and> distinct (po_approvals p)) \<Longrightarrow>
   rg_pending_ownership s' u = Some p \<Longrightarrow> po_approvals p \<noteq> [] \<and> distinct (po_approvals p)"
  by (erule reg_owner_step.cases)
    (auto simp: reg_owner_defs Let_def result_iff split: if_splits)

lemma reg_owner_step_inv:
  assumes "reg_owner_step env s s'" and "reg_inv h s"
  shows "reg_inv h s'"
proof -
  note f = reg_owner_step_frame [OF assms(1)]
  have cr: "(\<exists>a. rg_creators s' v = Some a) \<longleftrightarrow> (\<exists>r. rg_schemas s v = Some r)" for v
    using reg_owner_step_creators [OF assms(1), of v] assms(2)
    by (cases "rg_creators s' v = rg_creators s v") (auto simp: reg_inv_def records_ok_def)
  have pend: "po_approvals p \<noteq> [] \<and> distinct (po_approvals p)" if "rg_pending_ownership s' u = Some p" for u p
    using reg_owner_step_pending [OF assms(1) _ that] assms(2) unfolding reg_inv_def attributes_ok_def by blast
  have "index_ok s'" "lineage_ok s'"
    using f assms(2) lineage_ok_same [of s' s] parent_of_same [of s' s]
    by (simp_all add: reg_inv_def index_ok_def schema_count_def)
  moreover have "records_ok h s'"
    using f assms(2) cr by (simp add: reg_inv_def records_ok_def)
  moreover have "delegates_ok s'" using f assms(2) delegates_ok_same [of s' s] by (simp add: reg_inv_def)
  moreover have "attributes_ok s'"
    using f assms(2) pend by (simp add: reg_inv_def attributes_ok_def)
  ultimately show ?thesis
    using assms(2) reg_owner_step_owner_sets [OF assms(1)] by (simp add: reg_inv_def)
qed

lemma deprecate_effect:
  assumes "deprecate env u who s = Inr s'"
  shows "rg_schemas s u \<noteq> None \<and> (\<exists>ev. s' = s\<lparr>rg_deprecated := (rg_deprecated s)(u := True), rg_events := ev\<rparr>)"
proof (cases "rg_deprecated s u")
  case True
  then have same: "(rg_deprecated s)(u := True) = rg_deprecated s" by (auto simp: fun_eq_iff)
  have "s = s\<lparr>rg_deprecated := rg_deprecated s, rg_events := rg_events s\<rparr>" by simp
  moreover have "s' = s" "rg_schemas s u \<noteq> None"
    using assms True by (auto simp: deprecate_def registry_admin_def result_iff)
  ultimately show ?thesis unfolding same by metis
next
  case False
  with assms show ?thesis by (auto simp: deprecate_def registry_admin_def result_iff reg_emit_def)
qed

lemma deprecate_schema_effect:
  assumes "deprecate_schema env who u s = Inr s'"
  shows "\<exists>r ev. rg_schemas s u = Some r \<and> \<not> rg_deprecated s u \<and>
    s' = s\<lparr>rg_schemas := (rg_schemas s)(u \<mapsto> r\<lparr>sr_deprecated := True\<rparr>), rg_events := ev\<rparr>"
  using assms by (auto simp: deprecate_schema_def result_iff get_schema_Some_iff reg_emit_def)

lemma reg_retire_step_effect:
  assumes "reg_retire_step env s s'"
  shows "\<exists>u sc d ev. s' = s\<lparr>rg_schemas := sc, rg_deprecated := d, rg_events := ev\<rparr> \<and> rg_schemas s u \<noteq> None \<and>
    (sc = rg_schemas s \<and> d = (rg_deprecated s)(u := True) \<or>
     sc = (rg_schemas s)(u \<mapsto> (the (rg_schemas s u))\<lparr>sr_deprecated := True\<rparr>) \<and> d = rg_deprecated s)"
  using assms
proof cases
  case (1 u a)
  from deprecate_effect [OF this] obtain ev where "rg_schemas s u \<noteq> None"
    "s' = s\<lparr>rg_schemas := rg_schemas s, rg_deprecated := (rg_deprecated s)(u := True), rg_events := ev\<rparr>"
    by auto
  then show ?thesis by blast
next
  case (2 a u)
  from deprecate_schema_effect [OF this] obtain r ev where r: "rg_schemas s u = Some r"
    "s' = s\<lparr>rg_schemas := (rg_schemas s)(u \<mapsto> r\<lparr>sr_deprecated := True\<rparr>), rg_deprecated := rg_deprecated s,
       rg_events := ev\<rparr>"
    by auto
  then have "sc = (rg_schemas s)(u \<mapsto> (the (rg_schemas s u))\<lparr>sr_deprecated := True\<rparr>)"
    if "sc = (rg_schemas s)(u \<mapsto> r\<lparr>sr_deprecated := True\<rparr>)" for sc using that by simp
  with r show ?thesis by blast
qed

lemma reg_retire_step_inv:
  assumes "reg_retire_step env s s'" and "reg_inv h s"
  shows "reg_inv h s'"
proof -
  from reg_retire_step_effect [OF assms(1)] obtain u sc d ev where
    s': "s' = s\<lparr>rg_schemas := sc, rg_deprecated := d, rg_events := ev\<rparr>" and u: "rg_schemas s u \<noteq> None"
    and "sc = rg_schemas s \<or> sc = (rg_schemas s)(u \<mapsto> (the (rg_schemas s u))\<lparr>sr_deprecated := True\<rparr>)"
    by blast
  then have sc: "sc v = rg_schemas s v \<or> (\<exists>r. rg_schemas s v = Some r \<and> sc v = Some (r\<lparr>sr_deprecated := True\<rparr>))" for v
    by (cases "v = u") auto
  have dom: "rg_schemas s' v = None \<longleftrightarrow> rg_schemas s v = None" for v
    using sc [of v] by (auto simp: s')
  have par: "parent_of s' v = parent_of s v" for v using sc [of v] by (auto simp: s' parent_of_def)
  have "index_ok s'" using assms(2) dom by (simp add: reg_inv_def index_ok_def schema_count_def s')
  moreover have "records_ok h s'"
    unfolding records_ok_def
  proof (intro conjI allI impI)
    fix v
    show "rg_creators s' v \<noteq> None \<longleftrightarrow> rg_schemas s' v \<noteq> None"
      using assms(2) dom [of v] by (simp add: reg_inv_def records_ok_def s')
  next
    fix v r
    assume "rg_schemas s' v = Some r"
    with sc [of v] obtain r0 where r0: "rg_schemas s v = Some r0" "r = r0 \<or> r = r0\<lparr>sr_deprecated := True\<rparr>"
      by (cases "rg_schemas s v") (auto simp: s')
    with assms(2) show "sr_uid r = v" "v = schema_uid h (sr_schema r) (sr_resolver r) (sr_revocable r)"
      "validate_schema_syntax (sr_schema r) = Inr ()" "validate_schema_lexical (sr_schema r) = Inr ()"
      by (auto simp: reg_inv_def records_ok_def)
  qed
  moreover have "lineage_ok s'"
    using assms(2) lineage_ok_same [of s' s] dom par by (simp add: reg_inv_def s' fun_eq_iff)
  moreover have "delegates_ok s'" using assms(2) delegates_ok_same [of s' s] by (simp add: reg_inv_def s')
  ultimately show ?thesis
    using assms(2) by (simp add: reg_inv_def owner_sets_ok_def attributes_ok_def s')
qed

lemma reg_step_inv:
  assumes "reg_step h pay env s s'" and inv: "reg_inv h s"
  shows "reg_inv h s'"
proof -
  from assms(1) consider "reg_admin_step env s s'" | "reg_delegate_step env s s'" |
    "reg_attribute_step env s s'" | "reg_owner_step env s s'" | "reg_retire_step env s s'" |
    "reg_register_step h pay env s s'"
    unfolding reg_step_def by blast
  then show ?thesis
  proof cases
    case 1
    note f = reg_admin_step_frame [OF 1]
    with inv core_same_inv [of s s'] delegates_ok_same [of s' s] show ?thesis
      by (simp add: reg_inv_def owner_sets_ok_def attributes_ok_def)
  next
    case 2
    note f = reg_delegate_step_frame [OF 2]
    with inv core_same_inv [of s s'] reg_delegate_step_delegates [OF 2] show ?thesis
      by (simp add: reg_inv_def owner_sets_ok_def attributes_ok_def)
  next
    case 3
    note f = reg_attribute_step_frame [OF 3]
    with inv core_same_inv [of s s'] delegates_ok_same [of s' s] reg_attribute_step_attributes [OF 3] show ?thesis
      by (simp add: reg_inv_def owner_sets_ok_def)
  next
    case 4
    then show ?thesis using reg_owner_step_inv inv by blast
  next
    case 5
    then show ?thesis using reg_retire_step_inv inv by blast
  next
    case 6
    then show ?thesis using reg_register_step_registers registers_steps_inv inv by blast
  qed
qed

lemma reg_inv_fresh: "reg_inv h fresh_registry"
  by (auto simp: reg_inv_def fresh_registry_def index_ok_def records_ok_def lineage_ok_def owner_sets_ok_def
      delegates_ok_def attributes_ok_def schema_count_def parent_of_def)

lemma reg_reachable_inv: "reg_reachable h pay s \<Longrightarrow> reg_inv h s"
  by (induction rule: reg_reachable.induct) (auto intro: reg_inv_fresh reg_step_inv)

end
