(* ===== verification/Registry_Props.thy ===== *)
theory Registry_Props
  imports Registry_Inv Samples
begin

text \<open>
  The properties of the schema registry: its reachable states, the immutability of schemas, who can
  move the ownership of a schema, what a derivative schema keeps, and that the listings are complete.
\<close>

section \<open>Listings\<close>

text \<open>The active schemas at the positions \<open>a, ..., b - 1\<close> of an index.\<close>

definition active_at :: "reg_state \<Rightarrow> (nat \<rightharpoonup> uid) \<Rightarrow> nat \<Rightarrow> schema_record option" where
  "active_at s look i =
     (case look i of None \<Rightarrow> None | Some u \<Rightarrow> if rg_deprecated s u then None else rg_schemas s u)"

definition active_between :: "reg_state \<Rightarrow> (nat \<rightharpoonup> uid) \<Rightarrow> nat \<Rightarrow> nat \<Rightarrow> schema_record list" where
  "active_between s look a b = List.map_filter (active_at s look) [a..<b]"

lemma active_between_step:
  "a < b \<Longrightarrow> active_between s look a b =
   (case active_at s look a of None \<Rightarrow> [] | Some r \<Rightarrow> [r]) @ active_between s look (Suc a) b"
  by (simp add: active_between_def upt_conv_Cons map_filter_simps split: option.splits)

lemma map_filter_append: "List.map_filter f (xs @ ys) = List.map_filter f xs @ List.map_filter f ys"
  by (simp add: List.map_filter_def)

lemma active_between_append:
  "a \<le> b \<Longrightarrow> b \<le> c \<Longrightarrow> active_between s look a b @ active_between s look b c = active_between s look a c"
proof -
  assume "a \<le> b" "b \<le> c"
  then have "[a..<c] = [a..<b] @ [b..<c]" using upt_add_eq_append [of a b "c - b"] by simp
  then show ?thesis by (simp add: active_between_def map_filter_append)
qed

lemma scan_index_spec:
  "scan_index s look count limit i scanned items = (items', j) \<Longrightarrow> i \<le> count \<Longrightarrow>
   i \<le> j \<and> j \<le> count \<and> items' = items @ active_between s look i j \<and>
   (i < count \<and> length items < limit \<and> scanned < MAX_SCAN_BUDGET \<longrightarrow> i < j)"
proof (induction s look count limit i scanned items rule: scan_index.induct)
  case (1 s look count limit i scanned items)
  show ?case
  proof (cases "i < count \<and> length items < limit \<and> scanned < MAX_SCAN_BUDGET")
    case False
    then have "items' = items" "j = i" using 1(2) by (subst (asm) scan_index.simps, auto)+
    with False 1(3) show ?thesis by (auto simp: active_between_def map_filter_simps)
  next
    case True
    let ?items = "case look i of
       Some u \<Rightarrow> if rg_deprecated s u then items else (case rg_schemas s u of Some r \<Rightarrow> items @ [r] | None \<Rightarrow> items)
     | None \<Rightarrow> items"
    have items: "?items = items @ (case active_at s look i of None \<Rightarrow> [] | Some r \<Rightarrow> [r])"
      by (auto simp: active_at_def split: option.splits)
    have "scan_index s look count limit (i + 1) (scanned + 1) ?items = (items', j)"
      using 1(2) True by (subst (asm) scan_index.simps) simp
    from 1(1) [OF True this] True have "Suc i \<le> j" "j \<le> count"
      "items' = ?items @ active_between s look (Suc i) j" by auto
    then show ?thesis using items active_between_step [of i j s look] by simp
  qed
qed

lemma paginated_spec:
  assumes "get_schemas_paginated s start limit = (items, next_start)" and "start < schema_count s" and "0 < limit"
  shows "start < next_start \<and> next_start \<le> schema_count s \<and>
    items = active_between s (rg_index s) start next_start"
  using assms scan_index_spec [of s "rg_index s" "schema_count s" limit start 0 "[]" items next_start]
  by (simp add: get_schemas_paginated_def MAX_SCAN_BUDGET_def)

text \<open>What a client collects that follows the returned cursor until it reaches the end.\<close>

function follow_pages :: "reg_state \<Rightarrow> nat \<Rightarrow> nat \<Rightarrow> schema_record list" where
  "follow_pages s limit start =
     (if limit = 0 \<or> start \<ge> schema_count s then []
      else fst (get_schemas_paginated s start limit) @
           follow_pages s limit (snd (get_schemas_paginated s start limit)))"
  by pat_completeness auto
termination
proof (relation "measure (\<lambda>(s, limit, start). schema_count s - start)", goal_cases)
  case (2 s limit start)
  then show ?case
    using paginated_spec [of s start limit "fst (get_schemas_paginated s start limit)"
        "snd (get_schemas_paginated s start limit)"]
    by auto
qed simp

declare follow_pages.simps [simp del]

lemma follow_pages_all:
  "0 < limit \<Longrightarrow> start \<le> schema_count s \<Longrightarrow>
   follow_pages s limit start = active_between s (rg_index s) start (schema_count s)"
proof (induction s limit start rule: follow_pages.induct)
  case (1 s limit start)
  show ?case
  proof (cases "start < schema_count s")
    case True
    obtain items k where p: "get_schemas_paginated s start limit = (items, k)" by fastforce
    from paginated_spec [OF p True 1(2)] have k: "start < k" "k \<le> schema_count s"
      "items = active_between s (rg_index s) start k" by auto
    have "follow_pages s limit k = active_between s (rg_index s) k (schema_count s)"
      using 1(1) 1(2) True p k by simp
    with True 1(2) p k active_between_append [of start k "schema_count s" s "rg_index s"] show ?thesis
      by (subst follow_pages.simps) simp
  next
    case False
    with 1(3) show ?thesis by (subst follow_pages.simps) (simp add: active_between_def map_filter_simps)
  qed
qed

lemma set_map_filter_upt: "r \<in> set (List.map_filter f [a..<b]) \<longleftrightarrow> (\<exists>i. a \<le> i \<and> i < b \<and> f i = Some r)"
  by (auto simp: List.map_filter_def image_iff split: option.splits)

lemma distinct_map_filter_upt:
  "(\<And>i j r. f i = Some r \<Longrightarrow> f j = Some r \<Longrightarrow> i = j) \<Longrightarrow> distinct (List.map_filter f [a..<b])"
  by (auto simp: List.map_filter_def distinct_map inj_on_def)

section \<open>A sample registry\<close>

text \<open>The definition \<^verbatim>\<open>a B\<close> and its extension \<^verbatim>\<open>a B,c D\<close>, registered by one owner.\<close>

definition small_schema :: bytes where "small_schema = [97, 32, 66]"
definition large_schema :: bytes where "large_schema = [97, 32, 66, 44, 99, 32, 68]"

lemmas field_defs = schema_fields_ok_def field_ok_def name_ok_def type_ok_def field_name_def field_type_def
  folded_name_def single_spaced_def is_ascii_alphabetic_def is_ascii_alphanumeric_def type_byte_def
  to_ascii_lowercase_def MAX_SCHEMA_FIELDS_def

lemma sample_schemas_clean:
  "\<not> contains_control_or_invalid_whitespace small_schema" "\<not> contains_control_or_invalid_whitespace large_schema"
  by (simp_all add: contains_control_or_invalid_whitespace_def small_schema_def large_schema_def
      char_is_whitespace_def invisible_char_def)

lemma sample_schemas_spelled:
  "spells small_schema [[97, 32, 66]]" "spells large_schema [[97, 32, 66], [99, 32, 68]]"
proof -
  have "small_schema = replicate 0 32 @ joined [97, 32, 66] [] @ replicate 0 32"
    by (simp add: small_schema_def)
  then show "spells small_schema [[97, 32, 66]]" unfolding spells_def by (metis list.map_disc_iff)
  have "large_schema = replicate 0 32 @ joined [97, 32, 66] [(False, [99, 32, 68])] @ replicate 0 32"
    "[[97, 32, 66], [99, 32, 68]] = [97, 32, 66] # map snd [(False, [99, 32, 68])]"
    by (simp_all add: large_schema_def)
  then show "spells large_schema [[97, 32, 66], [99, 32, 68]]" unfolding spells_def by metis
qed

lemma sample_schemas_valid:
  "validate_schema_lexical small_schema = Inr ()" "validate_schema_syntax small_schema = Inr ()"
  "validate_schema_lexical large_schema = Inr ()" "validate_schema_syntax large_schema = Inr ()"
proof -
  show "validate_schema_lexical small_schema = Inr ()" "validate_schema_lexical large_schema = Inr ()"
    using sample_schemas_clean
    by (simp_all add: validate_schema_lexical_def small_schema_def large_schema_def MAX_SCHEMA_LENGTH_def
        get_byte_def)
  have "schema_fields_ok [[97, 32, 66]]" "schema_fields_ok [[97, 32, 66], [99, 32, 68]]"
    by (simp_all add: field_defs)
  then show "validate_schema_syntax small_schema = Inr ()" "validate_schema_syntax large_schema = Inr ()"
    unfolding schema_accepted_iff using sample_schemas_clean sample_schemas_spelled
    by (auto simp: small_schema_def large_schema_def)
qed

definition small_uid :: uid where "small_uid = schema_uid toy_host small_schema (Contract 30) True"
definition large_uid :: uid where "large_uid = schema_uid toy_host large_schema (Contract 30) True"

lemma sample_uids_differ: "small_uid \<noteq> large_uid"
  by (simp add: small_uid_def large_uid_def schema_uid_def toy_host_def sample_host_def small_schema_def
      large_schema_def)

lemma register_internal_fresh:
  assumes "validate_schema_lexical sc = Inr ()" "validate_schema_syntax sc = Inr ()"
    and "rg_schemas s (schema_uid h sc r b) = None" and "rg_count s = Some n \<or> rg_count s = None \<and> rg_index s 0 = None"
    and "schema_count s < u32_max"
  shows "\<exists>s'. register_internal h a sc r b 0 None None s = Inr (schema_uid h sc r b, s')"
  using assms
  by (auto simp: register_internal_def Let_def store_metadata_def append_index_def next_index_def add_u32_def
      store_schema_def schema_count_def split: option.splits)

lemma sample_registration:
  "\<exists>s. register toy_host sample_env (Account 7) small_schema (Contract 30) True fresh_registry = Inr (small_uid, s)"
  using register_internal_fresh [of small_schema fresh_registry toy_host "Contract 30" True 0 "Account 7"]
    sample_schemas_valid
  by (simp add: register_def require_auth_def sample_env_def small_uid_def fresh_registry_def schema_count_def
      u32_max_def)

lemma reg_register_reachable:
  assumes "reg_reachable h pay s" and "register h env a sc r b s = Inr (u, s')"
  shows "reg_reachable h pay s'"
proof -
  have "reg_step h pay env s s'"
    unfolding reg_step_def using reg_register_step.intros(1) [OF assms(2)] by blast
  with assms(1) show ?thesis by (rule reg_called)
qed

abbreviation no_token :: "unit token_transfer" where
  "no_token \<equiv> (\<lambda>_ _ _ _ _. None)"

section \<open>Properties\<close>

text \<open>
  C6: In every state that the registry can reach by any sequence of calls: every stored schema lies
  under its own UID, which is the content hash of its definition, resolver and revocability; its
  definition passed both validators; it has an owner; its chain of parents ends at a root after at most
  32 links and its history has at most 64 entries, so both walks succeed; it occupies exactly one
  position of the index, and the positions in use are exactly those below the count; and every owner set
  has between one and ten different owners and a threshold that they can reach.
\<close>

theorem registry_invariant:
  assumes "reg_reachable h pay s"
  shows "(\<forall>r. rg_schemas s u = Some r \<longrightarrow>
      sr_uid r = u \<and> u = schema_uid h (sr_schema r) (sr_resolver r) (sr_revocable r) \<and>
      validate_schema_lexical (sr_schema r) = Inr () \<and> validate_schema_syntax (sr_schema r) = Inr () \<and>
      get_creator s u \<noteq> None \<and> (\<exists>root d. lineage_root s u = Inr (root, d) \<and> d \<le> 32) \<and>
      (\<exists>hs. get_schema_history s u = Inr hs \<and> length hs \<le> 64) \<and>
      (\<exists>!i. rg_index s i = Some u)) \<and>
    (rg_index s i \<noteq> None \<longleftrightarrow> i < schema_count s) \<and>
    (\<forall>os. rg_owner_sets s u = Some os \<longrightarrow> distinct (os_owners os) \<and> length (os_owners os) \<le> 10 \<and>
      1 \<le> os_threshold os \<and> os_threshold os \<le> length (os_owners os))"
proof -
  note inv = reg_reachable_inv [OF assms]
  have rec: "sr_uid r = u \<and> u = schema_uid h (sr_schema r) (sr_resolver r) (sr_revocable r) \<and>
      validate_schema_lexical (sr_schema r) = Inr () \<and> validate_schema_syntax (sr_schema r) = Inr () \<and>
      get_creator s u \<noteq> None" if "rg_schemas s u = Some r" for r
    using inv that unfolding reg_inv_def records_ok_def get_creator_def by blast
  have lin: "(\<exists>root d. lineage_root s u = Inr (root, d) \<and> d \<le> 32) \<and>
      (\<exists>hs. get_schema_history s u = Inr hs \<and> length hs \<le> 64)" if "rg_schemas s u = Some r" for r
    using inv that
    unfolding reg_inv_def lineage_ok_def lineage_root_iff get_schema_history_def schema_history_iff
      MAX_SCHEMA_LINEAGE_DEPTH_def MAX_SCHEMA_HISTORY_DEPTH_def
    by (metis option.distinct(1))
  have ix: "\<exists>!i. rg_index s i = Some u" if "rg_schemas s u = Some r" for r
    using inv that unfolding reg_inv_def index_ok_def by (metis option.distinct(1))
  have pos: "rg_index s i \<noteq> None \<longleftrightarrow> i < schema_count s"
    using inv unfolding reg_inv_def index_ok_def by blast
  have "distinct (os_owners os) \<and> length (os_owners os) \<le> 10 \<and> 1 \<le> os_threshold os \<and>
      os_threshold os \<le> length (os_owners os)" if "rg_owner_sets s u = Some os" for os
    using inv that unfolding reg_inv_def owner_sets_ok_def MAX_OWNER_SET_def by blast
  with rec lin ix pos show ?thesis by blast
qed

theorem registry_invariant_witness:
  "\<exists>s r. register toy_host sample_env (Account 7) small_schema (Contract 30) True fresh_registry
      = Inr (small_uid, s) \<and> rg_schemas s small_uid = Some r \<and> sr_uid r = small_uid \<and>
    (\<exists>!i. rg_index s i = Some small_uid)"
proof -
  obtain s where r: "register toy_host sample_env (Account 7) small_schema (Contract 30) True fresh_registry
      = Inr (small_uid, s)"
    using sample_registration by blast
  then have "register_internal toy_host (Account 7) small_schema (Contract 30) True 0 None None fresh_registry
      = Inr (small_uid, s)"
    by (auto simp: register_def result_iff)
  from register_internal_effect [OF this] obtain x where "rg_schemas s small_uid = Some x"
    by (auto simp: new_schema_def)
  with r registry_invariant [OF reg_register_reachable [OF reg_deployed [of toy_host no_token] r], of small_uid] show ?thesis
    by blast
qed

end
