(* ===== verification/Registry_Life.thy ===== *)
theory Registry_Life
  imports Registry_Props
begin

text \<open>
  The schema registry over time: what no sequence of calls changes, who can move the ownership of a
  schema, what a derivative schema keeps of its predecessor, and what the delegate and schema listings
  return.
\<close>

section \<open>Schemas over time\<close>

text \<open>Any sequence of calls of the registry.\<close>

definition reg_calls :: "host \<Rightarrow> 'w token_transfer \<Rightarrow> reg_state \<Rightarrow> reg_state \<Rightarrow> bool" where
  "reg_calls h pay = (\<lambda>s s'. \<exists>env. reg_step h pay env s s')\<^sup>*\<^sup>*"

text \<open>What no call takes back: records up to the deprecation flag, edges, tombstones and positions.\<close>

definition schemas_kept :: "reg_state \<Rightarrow> reg_state \<Rightarrow> bool" where
  "schemas_kept s s' \<longleftrightarrow>
     (\<forall>u r. rg_schemas s u = Some r \<longrightarrow> rg_predecessors s' u = rg_predecessors s u \<and>
        (\<exists>d. rg_schemas s' u = Some (r\<lparr>sr_deprecated := d\<rparr>) \<and> (sr_deprecated r \<longrightarrow> d))) \<and>
     (\<forall>u. rg_deprecated s u \<longrightarrow> rg_deprecated s' u) \<and>
     (\<forall>i u. rg_index s i = Some u \<longrightarrow> rg_index s' i = Some u)"

lemma schemas_kept_same:
  assumes "rg_schemas s' = rg_schemas s" and "rg_predecessors s' = rg_predecessors s"
    and "rg_deprecated s' = rg_deprecated s" and "rg_index s' = rg_index s"
  shows "schemas_kept s s'"
proof -
  have "r = r\<lparr>sr_deprecated := sr_deprecated r\<rparr>" for r :: schema_record by simp
  then show ?thesis unfolding schemas_kept_def using assms by metis
qed

lemma schemas_kept_refl: "schemas_kept s s"
  by (rule schemas_kept_same) simp_all

lemma schemas_kept_trans:
  assumes "schemas_kept s s1" and "schemas_kept s1 s2"
  shows "schemas_kept s s2"
  unfolding schemas_kept_def
proof (intro conjI allI impI)
  fix u r
  assume r: "rg_schemas s u = Some r"
  with assms(1) obtain d where d: "rg_schemas s1 u = Some (r\<lparr>sr_deprecated := d\<rparr>)" "sr_deprecated r \<longrightarrow> d"
    "rg_predecessors s1 u = rg_predecessors s u"
    unfolding schemas_kept_def by blast
  with assms(2) obtain e where "rg_schemas s2 u = Some (r\<lparr>sr_deprecated := d\<rparr>\<lparr>sr_deprecated := e\<rparr>)" "d \<longrightarrow> e"
    "rg_predecessors s2 u = rg_predecessors s1 u"
    unfolding schemas_kept_def by fastforce
  with d show "rg_predecessors s2 u = rg_predecessors s u"
    "\<exists>d. rg_schemas s2 u = Some (r\<lparr>sr_deprecated := d\<rparr>) \<and> (sr_deprecated r \<longrightarrow> d)" by auto
qed (use assms in \<open>auto simp: schemas_kept_def\<close>)

lemma registers_kept:
  assumes "registers h s s'" and "reg_inv h s"
  shows "schemas_kept s s'"
proof -
  from assms(1) obtain a sc r b parent u where new: "new_schema h a sc r b parent s u s'"
    and p: "rg_predecessors s' = rg_predecessors s \<or> (\<exists>p. rg_predecessors s' = (rg_predecessors s)(u \<mapsto> p))"
    unfolding registers_def by blast
  have fresh: "rg_index s (schema_count s) = None"
    using assms(2) unfolding reg_inv_def index_ok_def by blast
  have "v \<noteq> u" if "rg_schemas s v = Some x" for v x using that new by (auto simp: new_schema_def)
  moreover have "x = x\<lparr>sr_deprecated := sr_deprecated x\<rparr>" for x :: schema_record by simp
  ultimately have "rg_predecessors s' v = rg_predecessors s v \<and>
      (\<exists>d. rg_schemas s' v = Some (x\<lparr>sr_deprecated := d\<rparr>) \<and> (sr_deprecated x \<longrightarrow> d))"
    if "rg_schemas s v = Some x" for v x
    using that p new by (auto simp: new_schema_def intro!: exI [of _ "sr_deprecated x"])
  moreover have "rg_index s' i = Some v" if "rg_index s i = Some v" for i v
    using that fresh new by (auto simp: new_schema_def)
  ultimately show ?thesis
    using new unfolding schemas_kept_def new_schema_def by simp
qed

lemma registers_steps_kept:
  "(registers h)\<^sup>*\<^sup>* s s' \<Longrightarrow> reg_inv h s \<Longrightarrow> schemas_kept s s'"
  by (induction rule: rtranclp_induct)
    (auto intro: schemas_kept_refl schemas_kept_trans registers_kept registers_steps_inv)

lemma reg_retire_step_kept:
  assumes "reg_retire_step env s s'"
  shows "schemas_kept s s'"
proof -
  from reg_retire_step_effect [OF assms] obtain u sc d ev where
    s': "s' = s\<lparr>rg_schemas := sc, rg_deprecated := d, rg_events := ev\<rparr>" and u: "rg_schemas s u \<noteq> None"
    and d: "d = rg_deprecated s \<or> d = (rg_deprecated s)(u := True)"
    and sc: "sc = rg_schemas s \<or> sc = (rg_schemas s)(u \<mapsto> (the (rg_schemas s u))\<lparr>sr_deprecated := True\<rparr>)"
    by blast
  have "\<exists>e. sc v = Some (x\<lparr>sr_deprecated := e\<rparr>) \<and> (sr_deprecated x \<longrightarrow> e)" if "rg_schemas s v = Some x" for v x
  proof (cases "sc v = rg_schemas s v")
    case True
    with that show ?thesis by (intro exI [of _ "sr_deprecated x"]) simp
  next
    case False
    with that sc show ?thesis by (intro exI [of _ True]) (auto split: if_splits)
  qed
  with d show ?thesis unfolding schemas_kept_def s' by auto
qed

lemma reg_step_kept:
  assumes "reg_step h pay env s s'" and "reg_inv h s"
  shows "schemas_kept s s'"
proof -
  from assms(1) consider "reg_admin_step env s s'" | "reg_delegate_step env s s'" |
    "reg_attribute_step env s s'" | "reg_owner_step env s s'" | "reg_retire_step env s s'" |
    "reg_register_step h pay env s s'"
    unfolding reg_step_def by blast
  then show ?thesis
  proof cases
    case 4
    with reg_owner_step_frame show ?thesis by (blast intro: schemas_kept_same)
  next
    case 5
    then show ?thesis by (rule reg_retire_step_kept)
  next
    case 6
    then show ?thesis using reg_register_step_registers registers_steps_kept assms(2) by blast
  qed (use reg_admin_step_frame reg_delegate_step_frame reg_attribute_step_frame
      in \<open>auto simp: core_same_def intro!: schemas_kept_same\<close>)
qed

lemma reg_calls_kept:
  assumes "reg_calls h pay s s'" and "reg_inv h s"
  shows "schemas_kept s s' \<and> reg_inv h s'"
  using assms(1) unfolding reg_calls_def
proof (induction rule: rtranclp_induct)
  case base
  with assms(2) schemas_kept_refl show ?case by blast
next
  case (step s1 s2)
  then obtain env where "reg_step h pay env s1 s2" by blast
  with step.IH reg_step_kept reg_step_inv schemas_kept_trans show ?case by blast
qed

lemma parent_kept: "schemas_kept s s' \<Longrightarrow> rg_schemas s u = Some r \<Longrightarrow> parent_of s' u = parent_of s u"
  by (force simp: schemas_kept_def parent_of_def)

lemma chain_kept:
  assumes "schemas_kept s s'" and "lineage_ok s"
  shows "chain s u k root \<Longrightarrow> rg_schemas s u \<noteq> None \<Longrightarrow> chain s' u k root"
proof (induction k arbitrary: u)
  case 0
  then show ?case using parent_kept [OF assms(1)] by auto
next
  case (Suc k)
  from Suc.prems obtain p where p: "parent_of s u = Some p" "chain s p k root" by auto
  with assms(2) have "rg_schemas s p \<noteq> None" unfolding lineage_ok_def by blast
  with Suc.IH p Suc.prems parent_kept [OF assms(1)] show ?case by auto
qed

lemma trail_kept:
  assumes "schemas_kept s s'"
  shows "trail s u hs \<Longrightarrow> trail s' u hs"
proof (induction hs arbitrary: u)
  case (Cons v hs)
  then obtain r where r: "rg_schemas s u = Some r" by auto
  with assms have "rg_predecessors s' u = rg_predecessors s u" "rg_schemas s' u \<noteq> None"
    unfolding schemas_kept_def by fastforce+
  with Cons show ?case by (auto split: option.splits)
qed simp

section \<open>Ownership\<close>

text \<open>The three ways in which the owner of a schema can change.\<close>

definition owner_moves :: "ledger_env \<Rightarrow> reg_state \<Rightarrow> uid \<Rightarrow> address \<Rightarrow> bool" where
  "owner_moves env s u new \<longleftrightarrow>
     effective_threshold s u \<le> 1 \<and> (\<exists>who. is_owner_address s u who \<and> authorized env who) \<or>
     rg_pending_owner s u = Some new \<and> authorized env new \<or>
     (\<exists>p who. rg_pending_ownership s u = Some p \<and> po_new_owner p = new \<and>
        po_owner_set_version p = effective_version s u \<and> is_owner_address s u who \<and> authorized env who \<and>
        who \<notin> set (po_approvals p) \<and> effective_threshold s u \<le> length (po_approvals p @ [who]))"

lemma upd_changed: "(m(u \<mapsto> x)) v \<noteq> m v \<longleftrightarrow> v = u \<and> m u \<noteq> Some x"
  by auto

lemma reg_owner_step_moves:
  assumes "reg_owner_step env s s'" and ch: "rg_creators s' v \<noteq> rg_creators s v"
  shows "\<exists>new. rg_creators s' v = Some new \<and> \<not> rg_deprecated s v \<and> owner_moves env s v new"
  using assms(1)
proof cases
  case (1 u a)
  with ch show ?thesis
    by (auto simp: transfer_schema_ownership_def reject_single_sig_transfer_for_multisig_def owner_moves_def
        is_owner_address_def upd_changed result_iff not_less)
next
  case (2 a u b)
  with ch show ?thesis
    by (auto simp: transfer_ownership_def reject_single_sig_transfer_for_multisig_def owner_moves_def
        is_owner_address_def upd_changed result_iff not_less get_schema_Some_iff)
next
  case (4 u)
  with ch show ?thesis
    by (auto simp: claim_schema_ownership_def owner_moves_def upd_changed result_iff)
next
  case (7 u a b st)
  with ch show ?thesis
    by (auto simp: propose_ownership_transfer_def finalize_ownership_transfer_def owner_moves_def Let_def
        upd_changed result_iff split: if_splits)
next
  case (8 u a st)
  from 8 obtain p s1 where p: "rg_schemas s u \<noteq> None" "\<not> rg_deprecated s u" "authorized env a"
    "record_approval u a s = Inr (p, s1)"
    and fin: "s' = s1 \<or> effective_threshold s1 u \<le> length (po_approvals p) \<and>
      (\<exists>old. s' = finalize_ownership_transfer u old (po_new_owner p) s1)"
    by (auto simp: approve_ownership_transfer_def Let_def bind_r_Inr_iff require_transferable_Inr_iff
        require_auth_Inr_iff not_less split: if_splits)
  from p(4) obtain p0 where p0: "rg_pending_ownership s u = Some p0"
    "po_owner_set_version p0 = effective_version s u" "is_owner_address s u a" "a \<notin> set (po_approvals p0)"
    "p = p0\<lparr>po_approvals := po_approvals p0 @ [a]\<rparr>" "rg_creators s1 = rg_creators s"
    "rg_owner_sets s1 = rg_owner_sets s"
    by (auto simp: record_approval_Inr_iff)
  from fin ch p0(6) have "effective_threshold s1 u \<le> length (po_approvals p)" "v = u"
    "rg_creators s' u = Some (po_new_owner p)"
    by (auto simp: finalize_ownership_transfer_def upd_changed split: if_splits)
  moreover have "effective_threshold s1 u = effective_threshold s u"
    by (simp add: effective_owner_set_def p0(7))
  ultimately show ?thesis using p p0 unfolding owner_moves_def by fastforce
qed (use ch in \<open>auto simp: propose_schema_owner_def cancel_schema_ownership_transfer_def configure_owner_set_def
    cancel_ownership_transfer_def result_iff Let_def\<close>)

lemma registers_creators:
  "(registers h)\<^sup>*\<^sup>* s s' \<Longrightarrow> rg_schemas s u = Some r \<Longrightarrow>
   rg_creators s' u = rg_creators s u \<and> rg_schemas s' u \<noteq> None"
  by (induction rule: rtranclp_induct) (auto simp: registers_def new_schema_def)

lemma reg_step_moves:
  assumes "reg_step h pay env s s'" and "rg_schemas s u = Some r" and "rg_creators s' u \<noteq> rg_creators s u"
  shows "reg_owner_step env s s'"
proof -
  from assms(1) consider "reg_admin_step env s s'" | "reg_delegate_step env s s'" |
    "reg_attribute_step env s s'" | "reg_owner_step env s s'" | "reg_retire_step env s s'" |
    "reg_register_step h pay env s s'"
    unfolding reg_step_def by blast
  then show ?thesis
  proof cases
    case 5
    with reg_retire_step_effect [OF 5] assms(3) show ?thesis by auto
  next
    case 6
    from registers_creators [OF reg_register_step_registers [OF 6] assms(2)] assms(3) show ?thesis by simp
  qed (use assms(3) reg_admin_step_frame reg_delegate_step_frame reg_attribute_step_frame
      in \<open>auto simp: core_same_def\<close>)
qed

section \<open>Derivatives\<close>

lemma append_only_iff:
  "is_append_only_schema old new \<longleftrightarrow> length new \<le> 1024 \<and> (\<exists>t. new = old @ 44 # t)"
proof
  assume "is_append_only_schema old new"
  then have a: "length old < length new" "length new \<le> 1024" "take (length old) new = old" "new ! length old = 44"
    by (auto simp: is_append_only_schema_def Let_def split: if_splits)
  have "new = take (length old) new @ new ! length old # drop (Suc (length old)) new"
    using a(1) by (rule id_take_nth_drop)
  with a show "length new \<le> 1024 \<and> (\<exists>t. new = old @ 44 # t)" by auto
qed (auto simp: is_append_only_schema_def Let_def)

lemma syntax_fields: "validate_schema_syntax sc = Inr () \<Longrightarrow> \<exists>fs. spells sc fs \<and> schema_fields_ok fs"
  by (simp add: schema_accepted_iff)

lemma append_only_fields:
  assumes "validate_schema_syntax old = Inr ()" and "validate_schema_syntax new = Inr ()"
    and "is_append_only_schema old new"
  shows "\<exists>fs more. spells old fs \<and> spells new (fs @ more) \<and> more \<noteq> [] \<and> schema_fields_ok (fs @ more)"
proof -
  from assms(3) obtain t where t: "new = old @ 44 # t" unfolding append_only_iff by blast
  from assms(1,2) obtain fs gs where "spells old fs" "schema_fields_ok fs" "spells new gs" "schema_fields_ok gs"
    using syntax_fields by blast
  moreover from this appended_fields [of old fs t gs] obtain more where "more \<noteq> []" "gs = fs @ more"
    unfolding t by blast
  ultimately show ?thesis by blast
qed

lemma new_trail:
  assumes "trail s p hs" and "rg_schemas s u = None" and "rg_schemas s' = (rg_schemas s)(u \<mapsto> r)"
    and "rg_predecessors s' = (rg_predecessors s)(u \<mapsto> p)"
  shows "trail s' u (u # hs)"
proof -
  have "trail s' q hs" if "trail s q hs" for q
    using that
  proof (induction hs arbitrary: q)
    case (Cons v hs)
    then have "q \<noteq> u" using assms(2) by auto
    with Cons assms(3,4) show ?case by (auto split: option.splits)
  qed simp
  with assms show ?thesis by simp
qed

section \<open>Delegates\<close>

lemma partition_delegates_filter:
  "partition_delegates env s u act ex ds =
     (act @ filter (is_delegate env s u) ds,
      ex @ filter (\<lambda>d. rg_delegates s (u, d) \<and> \<not> is_delegate env s u d) ds)"
  by (induction ds arbitrary: act ex) (auto simp: is_delegate_def split: option.splits)

section \<open>Page sizes\<close>

lemma scan_index_length:
  "length items \<le> limit \<Longrightarrow> length (fst (scan_index s look count limit i scanned items)) \<le> limit"
proof (induction s look count limit i scanned items rule: scan_index.induct)
  case (1 s look count limit i scanned items)
  show ?case
  proof (cases "i < count \<and> length items < limit \<and> scanned < MAX_SCAN_BUDGET")
    case True
    with 1(1) [OF True] show ?thesis by (subst scan_index.simps) (auto split: option.splits)
  next
    case False
    with 1(2) show ?thesis by (subst scan_index.simps) auto
  qed
qed

lemma paginated_length: "length (fst (get_schemas_paginated s start limit)) \<le> limit"
  by (simp add: get_schemas_paginated_def scan_index_length)

section \<open>A sample derivation\<close>

lemma sample_append_only: "is_append_only_schema small_schema large_schema"
  by (simp add: append_only_iff small_schema_def large_schema_def)

lemma sample_registered:
  obtains s r where
    "register toy_host sample_env (Account 7) small_schema (Contract 30) True fresh_registry = Inr (small_uid, s)"
    and "rg_schemas s = [small_uid \<mapsto> r]" and "sr_schema r = small_schema"
    and "rg_creators s = [small_uid \<mapsto> Account 7]" and "rg_predecessors s = Map.empty"
    and "rg_index s = [0 \<mapsto> small_uid]" and "rg_count s = Some 1" and "rg_owner_sets s = Map.empty"
    and "\<not> rg_deprecated s small_uid"
proof -
  obtain s where r: "register toy_host sample_env (Account 7) small_schema (Contract 30) True fresh_registry
      = Inr (small_uid, s)"
    using sample_registration by blast
  then have int: "register_internal toy_host (Account 7) small_schema (Contract 30) True 0 None None
      fresh_registry = Inr (small_uid, s)"
    by (auto simp: register_def result_iff)
  have c: "schema_count fresh_registry = 0" by (simp add: schema_count_def fresh_registry_def)
  from register_internal_effect [OF int] r that show ?thesis
    by (simp add: new_schema_def c) (simp add: fresh_registry_def)
qed

lemma sample_derivation:
  assumes "rg_schemas s = [small_uid \<mapsto> r]" and "sr_schema r = small_schema"
    and "rg_creators s = [small_uid \<mapsto> Account 7]" and "rg_predecessors s = Map.empty"
    and "rg_index s = [0 \<mapsto> small_uid]" and "rg_count s = Some 1"
  shows "\<exists>s'. register_with_predecessor toy_host sample_env (Account 7) large_schema (Contract 30) True
    small_uid s = Inr (large_uid, s')"
proof -
  have "trail s small_uid [small_uid]" using assms(1,4) by simp
  then have "schema_history s small_uid = Inr [small_uid]"
    by (simp add: schema_history_iff MAX_SCHEMA_HISTORY_DEPTH_def)
  moreover obtain s' where "register_internal toy_host (Account 7) large_schema (Contract 30) True 0 None None s
      = Inr (large_uid, s')"
    using register_internal_fresh [of large_schema s toy_host "Contract 30" True 1 "Account 7"]
      sample_schemas_valid assms(1,6) sample_uids_differ
    by (auto simp: large_uid_def schema_count_def u32_max_def)
  ultimately show ?thesis
    using assms sample_schemas_valid sample_append_only
    by (simp add: register_with_predecessor_def require_auth_def sample_env_def MAX_SCHEMA_HISTORY_DEPTH_def)
qed

section \<open>Properties\<close>





text \<open>
  A derivative extends its predecessor. A successful \<^verbatim>\<open>register_with_predecessor\<close> was authorized by
  the owner of the predecessor and by the new owner; the new definition spells exactly the fields of
  the old one, in the same order, followed by at least one more, with no two names equal; and the
  history of the new schema is its UID followed by the history of the predecessor, at most 64 entries.
\<close>

theorem derivative_extends:
  assumes "register_with_predecessor h env a sc r b p s = Inr (u, s')"
  shows "\<exists>pr owner fs more hs. rg_schemas s p = Some pr \<and> get_creator s p = Some owner \<and>
    authorized env owner \<and> authorized env a \<and> get_creator s' u = Some a \<and>
    spells (sr_schema pr) fs \<and> spells sc (fs @ more) \<and> more \<noteq> [] \<and> schema_fields_ok (fs @ more) \<and>
    get_schema_history s p = Inr hs \<and> get_schema_history s' u = Inr (u # hs) \<and> length (u # hs) \<le> 64"
proof -
  from register_with_predecessor_effect [OF assms] obtain pr owner hs s1 where
    p: "rg_schemas s p = Some pr" "rg_creators s p = Some owner" "authorized env owner" "authorized env a"
      "validate_schema_syntax sc = Inr ()" "validate_schema_syntax (sr_schema pr) = Inr ()"
      "is_append_only_schema (sr_schema pr) sc"
    and hs: "trail s p hs" "length hs < MAX_SCHEMA_HISTORY_DEPTH"
    and int: "register_internal h a sc r b 0 None None s = Inr (u, s1)"
    and s': "s' = s1\<lparr>rg_predecessors := (rg_predecessors s1)(u \<mapsto> p)\<rparr>" by blast
  note new = register_internal_effect [OF int]
  have "trail s' u (u # hs)"
    by (rule new_trail [OF hs(1)]) (use new in \<open>auto simp: s' new_schema_def\<close>)
  with hs have "schema_history s p = Inr hs" "schema_history s' u = Inr (u # hs)" "length (u # hs) \<le> 64"
    by (auto simp: schema_history_iff MAX_SCHEMA_HISTORY_DEPTH_def)
  moreover have "rg_creators s' u = Some a" using new by (simp add: s' new_schema_def)
  ultimately show ?thesis
    using append_only_fields [OF p(6,5,7)] p(1-4) unfolding get_creator_def get_schema_history_def by blast
qed

theorem derivative_extends_witness:
  "\<exists>s s'. register toy_host sample_env (Account 7) small_schema (Contract 30) True fresh_registry
      = Inr (small_uid, s) \<and>
    register_with_predecessor toy_host sample_env (Account 7) large_schema (Contract 30) True small_uid s
      = Inr (large_uid, s') \<and> get_creator s' large_uid = Some (Account 7) \<and>
    (\<exists>hs. get_schema_history s' large_uid = Inr (large_uid # hs))"
proof -
  obtain s r where s: "register toy_host sample_env (Account 7) small_schema (Contract 30) True fresh_registry
      = Inr (small_uid, s)" "rg_schemas s = [small_uid \<mapsto> r]" "sr_schema r = small_schema"
    "rg_creators s = [small_uid \<mapsto> Account 7]" "rg_predecessors s = Map.empty"
    "rg_index s = [0 \<mapsto> small_uid]" "rg_count s = Some 1"
    by (rule sample_registered)
  from sample_derivation [OF s(2-7)] obtain s' where s': "register_with_predecessor toy_host sample_env
      (Account 7) large_schema (Contract 30) True small_uid s = Inr (large_uid, s')" by blast
  from derivative_extends [OF s'] s(1) s' show ?thesis by blast
qed



text \<open>
  The delegate list agrees with the authorization check. In every reachable state the delegates that
  \<^verbatim>\<open>get_delegates\<close> reports as active are, without repetition, exactly those for which \<^verbatim>\<open>is_delegate\<close>
  holds at that ledger, the expired ones are different from them, and \<^verbatim>\<open>is_authorized\<close> holds exactly for
  the owner and the active delegates of a registered schema that is not deprecated.
\<close>

theorem delegates_exact:
  assumes "reg_reachable h pay s" and "get_delegates env s u = (active, expired)"
  shows "set active = {d. is_delegate env s u d} \<and> distinct (active @ expired) \<and>
    (is_authorized env s u a \<longleftrightarrow> get_schema s u \<noteq> None \<and> (get_creator s u = Some a \<or> a \<in> set active))"
proof -
  note inv = reg_reachable_inv [OF assms(1)]
  have d: "case rg_delegate_list s u of None \<Rightarrow> (\<forall>d. \<not> rg_delegates s (u, d))
     | Some ds \<Rightarrow> ds \<noteq> [] \<and> distinct ds \<and> set ds = {d. rg_delegates s (u, d)}"
    using inv unfolding reg_inv_def delegates_ok_def by blast
  have "is_delegate env s u x \<Longrightarrow> rg_delegates s (u, x)" for x
    by (simp add: is_delegate_def split: if_splits)
  with d assms(2) have act: "set active = {d. is_delegate env s u d}" "distinct (active @ expired)"
    by (auto simp: get_delegates_def partition_delegates_filter split: option.splits)
  have "rg_creators s u \<noteq> None \<longleftrightarrow> rg_schemas s u \<noteq> None"
    using inv unfolding reg_inv_def records_ok_def by blast
  then have "is_authorized env s u a \<longleftrightarrow> get_schema s u \<noteq> None \<and> (get_creator s u = Some a \<or> is_delegate env s u a)"
    by (auto simp: is_authorized_def get_schema_def get_creator_def split: option.splits)
  with act show ?thesis by simp
qed

theorem delegates_exact_witness:
  "\<exists>s s' active expired. register toy_host sample_env (Account 7) small_schema (Contract 30) True fresh_registry
      = Inr (small_uid, s) \<and> add_delegate sample_env small_uid (Account 8) s = Inr s' \<and>
    get_delegates sample_env s' small_uid = (active, expired) \<and> Account 8 \<in> set active"
proof -
  obtain s r where s: "register toy_host sample_env (Account 7) small_schema (Contract 30) True fresh_registry
      = Inr (small_uid, s)" "rg_schemas s = [small_uid \<mapsto> r]" "rg_creators s = [small_uid \<mapsto> Account 7]"
    by (rule sample_registered)
  then obtain s' where s': "add_delegate sample_env small_uid (Account 8) s = Inr s'"
    by (auto simp: add_delegate_def require_auth_def sample_env_def)
  then have "rg_delegates s' (small_uid, Account 8)" "rg_delegate_expiry s' (small_uid, Account 8) = None"
    using s by (auto simp: add_delegate_def Let_def result_iff reg_emit_def add_to_delegate_list_def)
  then have del: "is_delegate sample_env s' small_uid (Account 8)" by (simp add: is_delegate_def)
  have "reg_step toy_host no_token sample_env s s'"
    unfolding reg_step_def using reg_delegate_step.intros(1) [OF s'] by blast
  from reg_called [OF reg_register_reachable [OF reg_deployed s(1)] this] delegates_exact del s(1) s'
  show ?thesis by (metis mem_Collect_eq surj_pair)
qed

end
