(* ===== verification/Indexer.thy ===== *)
theory Indexer
  imports Common_Types
begin

text \<open>
  The indexer contract (\<^verbatim>\<open>contracts/indexer/src/lib.rs\<close>): its storage, the chunked append-only indexes
  by recipient, schema, attester and expiration status, the lifecycle callbacks and every query.
  A storage key is a field of the state and a keyed family of entries a map. The recipient and the
  attester index use the same chunk keys \<^verbatim>\<open>(Address, chunk_index)\<close>, and so does the model. Time-to-live
  extensions are not part of the state.
\<close>

section \<open>State\<close>

definition IDX_MAX_KNOWN_VERSION :: nat where "IDX_MAX_KNOWN_VERSION = 2"
definition DEFAULT_CHUNK_SIZE :: nat where "DEFAULT_CHUNK_SIZE = 100"
definition MIN_CHUNK_SIZE :: nat where "MIN_CHUNK_SIZE = 25"
definition MAX_CHUNK_SIZE :: nat where "MAX_CHUNK_SIZE = 100"
definition UID_BYTES :: nat where "UID_BYTES = 36"
definition MAX_CHUNK_BYTES :: nat where "MAX_CHUNK_BYTES = 32768"
definition MAX_QUERIES_PER_BLOCK :: nat where "MAX_QUERIES_PER_BLOCK = 1000"

datatype index_status = IxActive | IxRevoked | IxReplaced

datatype dimension = DimRecipient | DimSchema | DimAttester

datatype total_key =
    RecipientTotal address
  | SchemaTotal uid
  | AttesterTotal address
  | ExpirationTotal expiration_status

datatype chunk_key = AddressChunk address | UidChunk uid | ExpirationChunk expiration_status

text \<open>The tuple \<^verbatim>\<open>(recipient, schema_uid, attester, expiration_time)\<close> a UID was first indexed with.\<close>

record index_record =
  ir_recipient :: address
  ir_schema_uid :: uid
  ir_attester :: address
  ir_expiration_time :: u64

datatype (plugins only: code size) idx_event =
    ChunkAllocated dimension nat chunk_key nat
  | ChunkFull dimension nat nat chunk_key
  | IndexingProgress address uid nat nat nat
  | IdxContractUpgraded bytes32 bytes32 address

record idx_state =
  ix_admin :: "address option"
  ix_sas :: "address option"
  ix_version :: "nat option"
  ix_wasm_hash :: "bytes32 option"
  ix_capacity :: "nat option"
  ix_tier :: "nat option"
  ix_query_seq :: "nat option"
  ix_query_count :: "nat option"
  ix_totals :: "total_key \<rightharpoonup> nat"
  ix_chunks :: "chunk_key \<times> nat \<rightharpoonup> uid list"
  ix_status :: "uid \<rightharpoonup> index_status"
  ix_valid_from :: "uid \<rightharpoonup> u64"
  ix_records :: "uid \<rightharpoonup> index_record"
  ix_recipient_map :: "address \<times> uid \<Rightarrow> bool"
  ix_recipient_count :: "address \<rightharpoonup> nat"
  ix_schema_map :: "uid \<times> uid \<Rightarrow> bool"
  ix_schema_count :: "uid \<rightharpoonup> nat"
  ix_events :: "idx_event list"

definition idx_emit :: "idx_event \<Rightarrow> idx_state \<Rightarrow> idx_state" where
  "idx_emit ev s = s\<lparr>ix_events := ix_events s @ [ev]\<rparr>"

definition fresh_indexer :: idx_state where
  "fresh_indexer = \<lparr>ix_admin = None, ix_sas = None, ix_version = None, ix_wasm_hash = None,
     ix_capacity = None, ix_tier = None, ix_query_seq = None, ix_query_count = None,
     ix_totals = (\<lambda>_. None), ix_chunks = (\<lambda>_. None), ix_status = (\<lambda>_. None), ix_valid_from = (\<lambda>_. None),
     ix_records = (\<lambda>_. None), ix_recipient_map = (\<lambda>_. False), ix_recipient_count = (\<lambda>_. None),
     ix_schema_map = (\<lambda>_. False), ix_schema_count = (\<lambda>_. None), ix_events = []\<rparr>"

section \<open>Limits\<close>

text \<open>\<^verbatim>\<open>Ord::clamp\<close>\<close>

definition clamp :: "nat \<Rightarrow> nat \<Rightarrow> nat \<Rightarrow> nat" where
  "clamp lower upper n = (if n < lower then lower else if n > upper then upper else n)"

definition check_query_limit :: "ledger_env \<Rightarrow> idx_state \<Rightarrow> idx_state sas_result" where
  "check_query_limit env s =
     (let current_seq = sequence env;
          stored_seq = (case ix_query_seq s of Some n \<Rightarrow> n | None \<Rightarrow> 0);
          count = (if current_seq = stored_seq
                   then (case ix_query_count s of Some n \<Rightarrow> n | None \<Rightarrow> 0) else 0) in
      if count \<ge> MAX_QUERIES_PER_BLOCK then Inl (Panic LimitExceeded)
      else Inr (s\<lparr>ix_query_seq := Some current_seq,
                  ix_query_count := Some (saturating_add_u32 count 1)\<rparr>))"

definition chunk_capacity :: "idx_state \<Rightarrow> nat" where
  "chunk_capacity s =
     (let stored = (case ix_capacity s of Some n \<Rightarrow> n | None \<Rightarrow> DEFAULT_CHUNK_SIZE);
          byte_bound = MAX_CHUNK_BYTES div UID_BYTES;
          upper = min MAX_CHUNK_SIZE byte_bound;
          lower = min MIN_CHUNK_SIZE upper in
      clamp lower upper stored)"

definition adaptive_capacity_for_tier :: "nat \<Rightarrow> nat" where
  "adaptive_capacity_for_tier tier =
     (let byte_bound = MAX_CHUNK_BYTES div UID_BYTES;
          upper = min MAX_CHUNK_SIZE byte_bound;
          lower = min MIN_CHUNK_SIZE upper;
          candidate = (if tier = 0 then MIN_CHUNK_SIZE else if tier = 1 then 50
                       else if tier = 2 then 100 else MAX_CHUNK_SIZE) in
      clamp lower upper candidate)"

section \<open>Upgrades\<close>

definition required_upgrade_address :: "address option \<Rightarrow> address sas_result" where
  "required_upgrade_address entry = or_panic IncompatibleDependency entry"

definition idx_validate_upgrade :: "idx_state \<Rightarrow> bytes32 \<Rightarrow> nat \<Rightarrow> address sas_result" where
  "idx_validate_upgrade s new_wasm_hash new_version =
     bind_r (required_upgrade_address (ix_admin s)) (\<lambda>admin.
     bind_r (required_upgrade_address (ix_sas s)) (\<lambda>_.
     let old_version = (case ix_version s of Some v \<Rightarrow> v | None \<Rightarrow> 1) in
     if new_version > IDX_MAX_KNOWN_VERSION then Inl (Panic IncompatibleDependency)
     else if new_version \<noteq> saturating_add_u32 old_version 1 then Inl (Panic InvalidValue)
     else if new_wasm_hash = 0 then Inl (Panic InvalidValue)
     else Inr admin))"

definition require_indexer_admin :: "idx_state \<Rightarrow> address sas_result" where
  "require_indexer_admin s = or_panic NotInitialized (ix_admin s)"

definition idx_commit_upgrade :: "address \<Rightarrow> bytes32 \<Rightarrow> nat \<Rightarrow> idx_state \<Rightarrow> idx_state" where
  "idx_commit_upgrade admin new_wasm_hash new_version s =
     (let old_wasm_hash = (case ix_wasm_hash s of Some h \<Rightarrow> h | None \<Rightarrow> 0) in
      idx_emit (IdxContractUpgraded old_wasm_hash new_wasm_hash admin)
        (s\<lparr>ix_version := Some new_version, ix_wasm_hash := Some new_wasm_hash\<rparr>))"

section \<open>Appending to an index\<close>

definition index_total :: "idx_state \<Rightarrow> total_key \<Rightarrow> nat" where
  "index_total s k = (case ix_totals s k of Some n \<Rightarrow> n | None \<Rightarrow> 0)"

definition read_chunk :: "idx_state \<Rightarrow> chunk_key \<Rightarrow> nat \<Rightarrow> uid list option" where
  "read_chunk s k i = ix_chunks s (k, i)"

text \<open>A stored chunk, or a new empty one.\<close>

definition chunk_or_new :: "idx_state \<Rightarrow> chunk_key \<Rightarrow> nat \<Rightarrow> uid list" where
  "chunk_or_new s k i = (case ix_chunks s (k, i) of Some chunk \<Rightarrow> chunk | None \<Rightarrow> [])"

definition emit_if :: "bool \<Rightarrow> idx_event \<Rightarrow> idx_state \<Rightarrow> idx_state" where
  "emit_if b ev s = (if b then idx_emit ev s else s)"

text \<open>
  The common body of \<^verbatim>\<open>index_address_uid\<close> and \<^verbatim>\<open>index_uid_uid\<close>: append a UID to the last chunk of a key,
  or to the next one when that is full, and count it.
\<close>

definition append_uid ::
  "ledger_env \<Rightarrow> chunk_key \<Rightarrow> total_key \<Rightarrow> dimension \<Rightarrow> uid \<Rightarrow> idx_state \<Rightarrow> idx_state sas_result" where
  "append_uid env k count_key dim u s =
     (let total = index_total s count_key;
          capacity = chunk_capacity s;
          full = length (chunk_or_new s k (total div capacity)) \<ge> capacity;
          chunk_index = (if full then total div capacity + 1 else total div capacity);
          chunk = chunk_or_new s k chunk_index;
          allocated = full \<or> chunk = [];
          s1 = emit_if full (ChunkFull dim (total div capacity)
                 (length (chunk_or_new s k (total div capacity))) k) s;
          s2 = emit_if allocated (ChunkAllocated dim chunk_index k (sequence env)) s1;
          s3 = emit_if (length chunk + 1 = capacity) (ChunkFull dim chunk_index (length chunk + 1) k) s2 in
      bind_r (add_u32 total 1) (\<lambda>new_total.
      Inr (s3\<lparr>ix_chunks := (ix_chunks s)((k, chunk_index) \<mapsto> chunk @ [u]),
              ix_totals := (ix_totals s)(count_key \<mapsto> new_total)\<rparr>)))"

definition index_address_uid ::
  "ledger_env \<Rightarrow> address \<Rightarrow> uid \<Rightarrow> (address \<Rightarrow> total_key) \<Rightarrow> dimension \<Rightarrow> idx_state \<Rightarrow> idx_state sas_result" where
  "index_address_uid env key u total_key dim s = append_uid env (AddressChunk key) (total_key key) dim u s"

definition index_uid_uid ::
  "ledger_env \<Rightarrow> uid \<Rightarrow> uid \<Rightarrow> (uid \<Rightarrow> total_key) \<Rightarrow> dimension \<Rightarrow> idx_state \<Rightarrow> idx_state sas_result" where
  "index_uid_uid env key u total_key dim s = append_uid env (UidChunk key) (total_key key) dim u s"

definition index_recipient_attestation :: "address \<Rightarrow> uid \<Rightarrow> idx_state \<Rightarrow> idx_state" where
  "index_recipient_attestation recipient u s =
     (if ix_recipient_map s (recipient, u) then s
      else
        let count = (case ix_recipient_count s recipient of Some n \<Rightarrow> n | None \<Rightarrow> 0) in
        s\<lparr>ix_recipient_map := (ix_recipient_map s)((recipient, u) := True),
          ix_recipient_count := (ix_recipient_count s)(recipient \<mapsto> saturating_add_u32 count 1)\<rparr>)"

definition index_schema_attestation :: "uid \<Rightarrow> uid \<Rightarrow> idx_state \<Rightarrow> idx_state" where
  "index_schema_attestation suid u s =
     (if ix_schema_map s (suid, u) then s
      else
        let count = (case ix_schema_count s suid of Some n \<Rightarrow> n | None \<Rightarrow> 0) in
        s\<lparr>ix_schema_map := (ix_schema_map s)((suid, u) := True),
          ix_schema_count := (ix_schema_count s)(suid \<mapsto> saturating_add_u32 count 1)\<rparr>)"

definition index_expiration_status :: "expiration_status \<Rightarrow> uid \<Rightarrow> idx_state \<Rightarrow> idx_state sas_result" where
  "index_expiration_status status u s =
     (let k = ExpirationChunk status;
          total = index_total s (ExpirationTotal status);
          full = length (chunk_or_new s k (total div MAX_CHUNK_SIZE)) \<ge> MAX_CHUNK_SIZE;
          chunk_index = (if full then total div MAX_CHUNK_SIZE + 1 else total div MAX_CHUNK_SIZE) in
      bind_r (add_u32 total 1) (\<lambda>new_total.
      Inr (s\<lparr>ix_chunks := (ix_chunks s)((k, chunk_index) \<mapsto> chunk_or_new s k chunk_index @ [u]),
             ix_totals := (ix_totals s)(ExpirationTotal status \<mapsto> new_total)\<rparr>)))"

definition set_index_status :: "uid \<Rightarrow> index_status \<Rightarrow> idx_state \<Rightarrow> idx_state" where
  "set_index_status u status s = s\<lparr>ix_status := (ix_status s)(u \<mapsto> status)\<rparr>"

definition is_active :: "idx_state \<Rightarrow> uid \<Rightarrow> bool" where
  "is_active s u = (case ix_status s u of Some IxActive \<Rightarrow> True | None \<Rightarrow> True | _ \<Rightarrow> False)"

section \<open>Walking an index\<close>

text \<open>
  The loop of \<^verbatim>\<open>collect_filtered\<close> and \<^verbatim>\<open>collect_page\<close>: copy the kept UIDs at the positions \<open>index\<close> up to
  \<open>fin\<close>, chunk by chunk. A missing chunk ends it, a division by zero or an overflow of the next
  position traps.
\<close>

lemma next_chunk_after: "0 < c \<Longrightarrow> i < (i div c + 1) * c" for c i :: nat
  by (metis Suc_eq_plus1 dividend_less_times_div mult.commute mult_Suc)

function collect_loop ::
  "nat \<Rightarrow> (nat \<rightharpoonup> uid list) \<Rightarrow> (uid \<Rightarrow> bool) \<Rightarrow> nat \<Rightarrow> nat \<Rightarrow> uid list \<Rightarrow> uid list sas_result" where
  "collect_loop capacity get_chunk keep fin index out =
     (if index < fin then
        if capacity = 0 then Inl HostTrap
        else
          (case get_chunk (index div capacity) of
             None \<Rightarrow> Inr out
           | Some chunk \<Rightarrow>
               if index mod capacity \<ge> length chunk then
                 if (index div capacity + 1) * capacity > u32_max then Inl HostTrap
                 else collect_loop capacity get_chunk keep fin ((index div capacity + 1) * capacity) out
               else
                 let n = min (length chunk - index mod capacity) (fin - index) in
                 collect_loop capacity get_chunk keep fin (index + n)
                   (out @ filter keep (take n (drop (index mod capacity) chunk))))
      else Inr out)"
  by pat_completeness auto
termination
proof (relation "measure (\<lambda>(capacity, get_chunk, keep, fin, index, out). fin - index)", goal_cases)
  case (2 capacity get_chunk keep fin index out chunk)
  with next_chunk_after [of capacity index] show ?case by (auto intro: diff_less_mono2)
qed auto

declare collect_loop.simps [simp del]

definition collect_filtered :: "idx_state \<Rightarrow> nat \<Rightarrow> chunk_key \<Rightarrow> bool \<Rightarrow> uid list sas_result" where
  "collect_filtered s tot k include_revoked =
     collect_loop (chunk_capacity s) (read_chunk s k) (\<lambda>u. include_revoked \<or> is_active s u) tot 0 []"

definition collect_page :: "idx_state \<Rightarrow> nat \<Rightarrow> nat \<Rightarrow> nat \<Rightarrow> chunk_key \<Rightarrow> uid list sas_result" where
  "collect_page s tot cursor limit k =
     (if limit = 0 \<or> cursor \<ge> tot then Inr []
      else collect_loop (chunk_capacity s) (read_chunk s k) (\<lambda>u. True)
             (min tot (saturating_add_u32 cursor limit)) cursor [])"

record reverse_page =
  rp_uids :: "uid list"
  rp_next_cursor :: "nat option"

text \<open>The backward walk from \<open>index\<close>; it always uses chunks of \<^verbatim>\<open>MAX_CHUNK_SIZE\<close>.\<close>

function reverse_loop :: "(nat \<rightharpoonup> uid list) \<Rightarrow> (uid \<Rightarrow> bool) \<Rightarrow> nat \<Rightarrow> nat \<Rightarrow> uid list \<Rightarrow> reverse_page" where
  "reverse_loop get_chunk keep limit index uids =
     (if length uids < limit then
        (case get_chunk (index div MAX_CHUNK_SIZE) of
           None \<Rightarrow> \<lparr>rp_uids = uids, rp_next_cursor = None\<rparr>
         | Some chunk \<Rightarrow>
             if index mod MAX_CHUNK_SIZE < length chunk then
               let u = chunk ! (index mod MAX_CHUNK_SIZE);
                   uids' = (if keep u then uids @ [u] else uids) in
               if index = 0 then \<lparr>rp_uids = uids', rp_next_cursor = None\<rparr>
               else reverse_loop get_chunk keep limit (index - 1) uids'
             else \<lparr>rp_uids = uids, rp_next_cursor = None\<rparr>)
      else \<lparr>rp_uids = uids, rp_next_cursor = (if length uids = limit then Some index else None)\<rparr>)"
  by pat_completeness auto
termination by (relation "measure (\<lambda>(get_chunk, keep, limit, index, uids). index)") auto

declare reverse_loop.simps [simp del]

definition collect_reverse_page ::
  "idx_state \<Rightarrow> nat \<Rightarrow> nat option \<Rightarrow> nat \<Rightarrow> bool \<Rightarrow> chunk_key \<Rightarrow> reverse_page" where
  "collect_reverse_page s tot cursor limit include_revoked k =
     (if tot = 0 \<or> limit = 0 then \<lparr>rp_uids = [], rp_next_cursor = None\<rparr>
      else
        let index = (case cursor of Some i \<Rightarrow> i | None \<Rightarrow> tot - 1) in
        if index \<ge> tot then \<lparr>rp_uids = [], rp_next_cursor = None\<rparr>
        else reverse_loop (read_chunk s k) (\<lambda>u. include_revoked \<or> is_active s u) limit index [])"

text \<open>The loop of the filtered pages, one position at a time.\<close>

function page_filter_loop ::
  "nat \<Rightarrow> (nat \<rightharpoonup> uid list) \<Rightarrow> (uid \<Rightarrow> bool) \<Rightarrow> nat \<Rightarrow> nat \<Rightarrow> nat \<Rightarrow> uid list \<Rightarrow> uid list sas_result" where
  "page_filter_loop capacity get_chunk keep tot limit index out =
     (if index < tot \<and> length out < limit then
        if capacity = 0 then Inl HostTrap
        else
          (case get_chunk (index div capacity) of
             None \<Rightarrow> Inr out
           | Some chunk \<Rightarrow>
               if index mod capacity \<ge> length chunk then
                 if (index div capacity + 1) * capacity > u32_max then Inl HostTrap
                 else page_filter_loop capacity get_chunk keep tot limit
                        ((index div capacity + 1) * capacity) out
               else
                 let u = chunk ! (index mod capacity) in
                 page_filter_loop capacity get_chunk keep tot limit (index + 1)
                   (if keep u then out @ [u] else out))
      else Inr out)"
  by pat_completeness auto
termination
proof (relation "measure (\<lambda>(capacity, get_chunk, keep, tot, limit, index, out). tot - index)", goal_cases)
  case (2 capacity get_chunk keep tot limit index out chunk)
  with next_chunk_after [of capacity index] show ?case by (auto intro: diff_less_mono2)
qed auto

declare page_filter_loop.simps [simp del]

definition page_filtered ::
  "idx_state \<Rightarrow> nat \<Rightarrow> nat \<Rightarrow> nat \<Rightarrow> nat \<Rightarrow> bool \<Rightarrow> chunk_key \<Rightarrow> uid list sas_result" where
  "page_filtered s capacity tot cursor limit include_revoked k =
     (if limit = 0 then Inr []
      else if cursor \<ge> tot then Inr []
      else page_filter_loop capacity (read_chunk s k) (\<lambda>u. include_revoked \<or> is_active s u)
             tot limit cursor [])"

section \<open>Administration\<close>

text \<open>The two probes of the SAS contract are parameters: \<open>None\<close> is a call that failed.\<close>

definition idx_init ::
  "ledger_env \<Rightarrow> (address \<Rightarrow> bool option) \<Rightarrow> (address \<Rightarrow> bool option) \<Rightarrow> address \<Rightarrow> address \<Rightarrow> idx_state \<Rightarrow>
   idx_state sas_result" where
  "idx_init env probe_upper probe_lower admin sas s =
     (if ix_admin s \<noteq> None then Inl (Panic AlreadyInitialized)
      else
        bind_r (require_auth env admin) (\<lambda>_.
        if \<not> (probe_upper sas = Some True \<or> probe_lower sas = Some True) then Inl (Panic IncompatibleDependency)
        else
          Inr (s\<lparr>ix_admin := Some admin, ix_sas := Some sas,
                 ix_version := (case ix_version s of None \<Rightarrow> Some 1 | v \<Rightarrow> v)\<rparr>)))"

definition idx_get_version :: "idx_state \<Rightarrow> nat" where
  "idx_get_version s = (case ix_version s of Some v \<Rightarrow> v | None \<Rightarrow> 1)"

definition idx_upgrade :: "ledger_env \<Rightarrow> bytes32 \<Rightarrow> nat \<Rightarrow> idx_state \<Rightarrow> idx_state sas_result" where
  "idx_upgrade env new_wasm_hash new_version s =
     bind_r (idx_validate_upgrade s new_wasm_hash new_version) (\<lambda>layout_admin.
     bind_r (require_indexer_admin s) (\<lambda>admin.
     if admin \<noteq> layout_admin then Inl (Panic IncompatibleDependency)
     else
       bind_r (require_auth env admin) (\<lambda>_.
       Inr (idx_commit_upgrade admin new_wasm_hash new_version s))))"

definition set_chunk_tier :: "ledger_env \<Rightarrow> nat \<Rightarrow> idx_state \<Rightarrow> idx_state sas_result" where
  "set_chunk_tier env tier s =
     bind_r (require_indexer_admin s) (\<lambda>admin.
     bind_r (require_auth env admin) (\<lambda>_.
     Inr (s\<lparr>ix_capacity := Some (adaptive_capacity_for_tier tier), ix_tier := Some tier\<rparr>)))"

section \<open>Updates by SAS\<close>

definition require_sas :: "ledger_env \<Rightarrow> idx_state \<Rightarrow> unit sas_result" where
  "require_sas env s = bind_r (or_panic Unauthorized (ix_sas s)) (\<lambda>sas. require_auth env sas)"

definition expiration_status_of :: "u64 \<Rightarrow> expiration_status" where
  "expiration_status_of expiration_time = (if expiration_time = 0 then Perpetual else Expiring)"

text \<open>The first indexing of a UID: its record, the four indexes and the progress event.\<close>

definition index_new :: "ledger_env \<Rightarrow> uid \<Rightarrow> index_record \<Rightarrow> idx_state \<Rightarrow> idx_state sas_result" where
  "index_new env u r s =
     bind_r (index_address_uid env (ir_recipient r) u RecipientTotal DimRecipient
               (s\<lparr>ix_records := (ix_records s)(u \<mapsto> r)\<rparr>)) (\<lambda>s1.
     bind_r (index_uid_uid env (ir_schema_uid r) u SchemaTotal DimSchema
               (index_recipient_attestation (ir_recipient r) u s1)) (\<lambda>s2.
     bind_r (index_address_uid env (ir_attester r) u AttesterTotal DimAttester
               (index_schema_attestation (ir_schema_uid r) u s2)) (\<lambda>s3.
     bind_r (index_expiration_status (expiration_status_of (ir_expiration_time r)) u s3) (\<lambda>s4.
     Inr (idx_emit (IndexingProgress (ir_recipient r) u (index_total s4 (RecipientTotal (ir_recipient r)))
            (index_total s4 (SchemaTotal (ir_schema_uid r))) (index_total s4 (AttesterTotal (ir_attester r)))) s4)))))"

definition index_attestation ::
  "ledger_env \<Rightarrow> uid \<Rightarrow> address \<Rightarrow> uid \<Rightarrow> address \<Rightarrow> u64 \<Rightarrow> idx_state \<Rightarrow> idx_state sas_result" where
  "index_attestation env u recipient suid attester expiration_time s =
     bind_r (require_sas env s) (\<lambda>_.
     let r = \<lparr>ir_recipient = recipient, ir_schema_uid = suid, ir_attester = attester,
              ir_expiration_time = expiration_time\<rparr> in
     (case ix_records s u of
        Some existing \<Rightarrow> if existing \<noteq> r then Inl (Panic DuplicateAttestation) else Inr s
      | None \<Rightarrow> index_new env u r s))"

definition handle_revoke :: "uid \<Rightarrow> idx_state \<Rightarrow> idx_state sas_result" where
  "handle_revoke u s = Inr (set_index_status u IxRevoked s)"

definition handle_replace :: "uid \<Rightarrow> uid \<Rightarrow> idx_state \<Rightarrow> idx_state sas_result" where
  "handle_replace old_uid new_uid s = Inr (set_index_status old_uid IxReplaced s)"

definition set_valid_from :: "ledger_env \<Rightarrow> uid \<Rightarrow> u64 \<Rightarrow> idx_state \<Rightarrow> idx_state sas_result" where
  "set_valid_from env u valid_from s =
     bind_r (require_sas env s) (\<lambda>_. Inr (s\<lparr>ix_valid_from := (ix_valid_from s)(u \<mapsto> valid_from)\<rparr>))"

section \<open>Queries\<close>

text \<open>
  A query that counts toward the limit per ledger returns its result with the new counter. The issuer
  queries are the attester queries under another name.
\<close>

definition get_attestation_status :: "idx_state \<Rightarrow> uid \<Rightarrow> index_status option" where
  "get_attestation_status s u = ix_status s u"

definition is_attestation_indexed :: "idx_state \<Rightarrow> uid \<Rightarrow> bool" where
  "is_attestation_indexed s u = (ix_records s u \<noteq> None)"

definition idx_get_valid_from :: "idx_state \<Rightarrow> uid \<Rightarrow> u64" where
  "idx_get_valid_from s u = (case ix_valid_from s u of Some t \<Rightarrow> t | None \<Rightarrow> 0)"

definition get_count_by_recipient :: "idx_state \<Rightarrow> address \<Rightarrow> nat" where
  "get_count_by_recipient s a = index_total s (RecipientTotal a)"

definition has_recipient_attestation :: "idx_state \<Rightarrow> address \<Rightarrow> uid \<Rightarrow> bool" where
  "has_recipient_attestation s recipient u = ix_recipient_map s (recipient, u)"

definition get_recipient_attestation_count :: "idx_state \<Rightarrow> address \<Rightarrow> nat" where
  "get_recipient_attestation_count s a = (case ix_recipient_count s a of Some n \<Rightarrow> n | None \<Rightarrow> 0)"

definition idx_has_attestation :: "idx_state \<Rightarrow> address \<Rightarrow> uid \<Rightarrow> bool" where
  "idx_has_attestation s recipient u = ix_recipient_map s (recipient, u)"

definition has_schema_attestation :: "idx_state \<Rightarrow> uid \<Rightarrow> uid \<Rightarrow> bool" where
  "has_schema_attestation s suid u = ix_schema_map s (suid, u)"

definition get_count_by_schema :: "idx_state \<Rightarrow> uid \<Rightarrow> nat" where
  "get_count_by_schema s suid = index_total s (SchemaTotal suid)"

definition get_count_by_attester :: "idx_state \<Rightarrow> address \<Rightarrow> nat" where
  "get_count_by_attester s a = index_total s (AttesterTotal a)"

definition get_count_by_expiration :: "idx_state \<Rightarrow> expiration_status \<Rightarrow> nat" where
  "get_count_by_expiration s x = index_total s (ExpirationTotal x)"

definition get_attestations_by_recipient :: "idx_state \<Rightarrow> address \<Rightarrow> uid list sas_result" where
  "get_attestations_by_recipient s a =
     collect_filtered s (index_total s (RecipientTotal a)) (AddressChunk a) True"

definition get_attestations_by_schema :: "idx_state \<Rightarrow> uid \<Rightarrow> uid list sas_result" where
  "get_attestations_by_schema s suid =
     collect_filtered s (index_total s (SchemaTotal suid)) (UidChunk suid) True"

definition get_attestations_by_attester :: "idx_state \<Rightarrow> address \<Rightarrow> uid list sas_result" where
  "get_attestations_by_attester s a =
     collect_filtered s (index_total s (AttesterTotal a)) (AddressChunk a) True"

definition get_attestations_by_expiration :: "idx_state \<Rightarrow> expiration_status \<Rightarrow> uid list sas_result" where
  "get_attestations_by_expiration s x =
     collect_filtered s (index_total s (ExpirationTotal x)) (ExpirationChunk x) True"

definition get_atts_by_recipient_paginated ::
  "ledger_env \<Rightarrow> address \<Rightarrow> nat \<Rightarrow> nat \<Rightarrow> idx_state \<Rightarrow> (uid list \<times> idx_state) sas_result" where
  "get_atts_by_recipient_paginated env a cursor limit s =
     bind_r (check_query_limit env s) (\<lambda>s'.
     bind_r (collect_page s' (index_total s' (RecipientTotal a)) cursor limit (AddressChunk a)) (\<lambda>us. Inr (us, s')))"

definition get_atts_by_schema_paginated ::
  "ledger_env \<Rightarrow> uid \<Rightarrow> nat \<Rightarrow> nat \<Rightarrow> idx_state \<Rightarrow> (uid list \<times> idx_state) sas_result" where
  "get_atts_by_schema_paginated env suid cursor limit s =
     bind_r (check_query_limit env s) (\<lambda>s'.
     bind_r (collect_page s' (index_total s' (SchemaTotal suid)) cursor limit (UidChunk suid)) (\<lambda>us. Inr (us, s')))"

definition get_atts_by_attester_paginated ::
  "ledger_env \<Rightarrow> address \<Rightarrow> nat \<Rightarrow> nat \<Rightarrow> idx_state \<Rightarrow> (uid list \<times> idx_state) sas_result" where
  "get_atts_by_attester_paginated env a cursor limit s =
     bind_r (check_query_limit env s) (\<lambda>s'.
     bind_r (collect_page s' (index_total s' (AttesterTotal a)) cursor limit (AddressChunk a)) (\<lambda>us. Inr (us, s')))"

definition get_atts_by_expiration_paginated ::
  "ledger_env \<Rightarrow> expiration_status \<Rightarrow> nat \<Rightarrow> nat \<Rightarrow> idx_state \<Rightarrow> (uid list \<times> idx_state) sas_result" where
  "get_atts_by_expiration_paginated env x cursor limit s =
     bind_r (check_query_limit env s) (\<lambda>s'.
     bind_r (collect_page s' (index_total s' (ExpirationTotal x)) cursor limit (ExpirationChunk x))
       (\<lambda>us. Inr (us, s')))"

definition get_atts_by_recipient_reverse ::
  "ledger_env \<Rightarrow> address \<Rightarrow> nat option \<Rightarrow> nat \<Rightarrow> idx_state \<Rightarrow> (reverse_page \<times> idx_state) sas_result" where
  "get_atts_by_recipient_reverse env a cursor limit s =
     bind_r (check_query_limit env s) (\<lambda>s'.
     Inr (collect_reverse_page s' (index_total s' (RecipientTotal a)) cursor limit True (AddressChunk a), s'))"

definition get_atts_by_schema_reverse ::
  "ledger_env \<Rightarrow> uid \<Rightarrow> nat option \<Rightarrow> nat \<Rightarrow> idx_state \<Rightarrow> (reverse_page \<times> idx_state) sas_result" where
  "get_atts_by_schema_reverse env suid cursor limit s =
     bind_r (check_query_limit env s) (\<lambda>s'.
     Inr (collect_reverse_page s' (index_total s' (SchemaTotal suid)) cursor limit True (UidChunk suid), s'))"

definition get_atts_by_attester_reverse ::
  "ledger_env \<Rightarrow> address \<Rightarrow> nat option \<Rightarrow> nat \<Rightarrow> idx_state \<Rightarrow> (reverse_page \<times> idx_state) sas_result" where
  "get_atts_by_attester_reverse env a cursor limit s =
     bind_r (check_query_limit env s) (\<lambda>s'.
     Inr (collect_reverse_page s' (index_total s' (AttesterTotal a)) cursor limit True (AddressChunk a), s'))"

definition get_recipient_recent_filtered ::
  "ledger_env \<Rightarrow> address \<Rightarrow> nat \<Rightarrow> bool \<Rightarrow> idx_state \<Rightarrow> (uid list \<times> idx_state) sas_result" where
  "get_recipient_recent_filtered env a limit include_revoked s =
     bind_r (check_query_limit env s) (\<lambda>s'.
     Inr (rp_uids (collect_reverse_page s' (index_total s' (RecipientTotal a)) None limit include_revoked
            (AddressChunk a)), s'))"

definition get_schema_recent_filtered ::
  "ledger_env \<Rightarrow> uid \<Rightarrow> nat \<Rightarrow> bool \<Rightarrow> idx_state \<Rightarrow> (uid list \<times> idx_state) sas_result" where
  "get_schema_recent_filtered env suid limit include_revoked s =
     bind_r (check_query_limit env s) (\<lambda>s'.
     Inr (rp_uids (collect_reverse_page s' (index_total s' (SchemaTotal suid)) None limit include_revoked
            (UidChunk suid)), s'))"

definition get_attester_recent_filtered ::
  "ledger_env \<Rightarrow> address \<Rightarrow> nat \<Rightarrow> bool \<Rightarrow> idx_state \<Rightarrow> (uid list \<times> idx_state) sas_result" where
  "get_attester_recent_filtered env a limit include_revoked s =
     bind_r (check_query_limit env s) (\<lambda>s'.
     Inr (rp_uids (collect_reverse_page s' (index_total s' (AttesterTotal a)) None limit include_revoked
            (AddressChunk a)), s'))"

definition get_atts_by_recipient_recent ::
  "ledger_env \<Rightarrow> address \<Rightarrow> nat \<Rightarrow> idx_state \<Rightarrow> (uid list \<times> idx_state) sas_result" where
  "get_atts_by_recipient_recent env a limit s =
     bind_r (check_query_limit env s) (\<lambda>s'.
     Inr (rp_uids (collect_reverse_page s' (index_total s' (RecipientTotal a)) None limit True (AddressChunk a)), s'))"

definition get_atts_by_schema_recent ::
  "ledger_env \<Rightarrow> uid \<Rightarrow> nat \<Rightarrow> idx_state \<Rightarrow> (uid list \<times> idx_state) sas_result" where
  "get_atts_by_schema_recent env suid limit s =
     bind_r (check_query_limit env s) (\<lambda>s'.
     Inr (rp_uids (collect_reverse_page s' (index_total s' (SchemaTotal suid)) None limit True (UidChunk suid)), s'))"

definition get_atts_by_attester_recent ::
  "ledger_env \<Rightarrow> address \<Rightarrow> nat \<Rightarrow> idx_state \<Rightarrow> (uid list \<times> idx_state) sas_result" where
  "get_atts_by_attester_recent env a limit s =
     bind_r (check_query_limit env s) (\<lambda>s'.
     Inr (rp_uids (collect_reverse_page s' (index_total s' (AttesterTotal a)) None limit True (AddressChunk a)), s'))"

definition get_recipient_filtered ::
  "ledger_env \<Rightarrow> address \<Rightarrow> bool \<Rightarrow> idx_state \<Rightarrow> (uid list \<times> idx_state) sas_result" where
  "get_recipient_filtered env a include_revoked s =
     bind_r (check_query_limit env s) (\<lambda>s'.
     bind_r (collect_filtered s' (index_total s' (RecipientTotal a)) (AddressChunk a) include_revoked)
       (\<lambda>us. Inr (us, s')))"

definition get_schema_filtered ::
  "ledger_env \<Rightarrow> uid \<Rightarrow> bool \<Rightarrow> idx_state \<Rightarrow> (uid list \<times> idx_state) sas_result" where
  "get_schema_filtered env suid include_revoked s =
     bind_r (check_query_limit env s) (\<lambda>s'.
     bind_r (collect_filtered s' (index_total s' (SchemaTotal suid)) (UidChunk suid) include_revoked)
       (\<lambda>us. Inr (us, s')))"

definition get_attester_filtered ::
  "ledger_env \<Rightarrow> address \<Rightarrow> bool \<Rightarrow> idx_state \<Rightarrow> (uid list \<times> idx_state) sas_result" where
  "get_attester_filtered env a include_revoked s =
     bind_r (check_query_limit env s) (\<lambda>s'.
     bind_r (collect_filtered s' (index_total s' (AttesterTotal a)) (AddressChunk a) include_revoked)
       (\<lambda>us. Inr (us, s')))"

definition get_expiration_filtered ::
  "ledger_env \<Rightarrow> expiration_status \<Rightarrow> bool \<Rightarrow> idx_state \<Rightarrow> (uid list \<times> idx_state) sas_result" where
  "get_expiration_filtered env x include_revoked s =
     bind_r (check_query_limit env s) (\<lambda>s'.
     bind_r (collect_filtered s' (index_total s' (ExpirationTotal x)) (ExpirationChunk x) include_revoked)
       (\<lambda>us. Inr (us, s')))"

definition get_expiration_page_filtered ::
  "ledger_env \<Rightarrow> expiration_status \<Rightarrow> nat \<Rightarrow> nat \<Rightarrow> bool \<Rightarrow> idx_state \<Rightarrow> (uid list \<times> idx_state) sas_result" where
  "get_expiration_page_filtered env x cursor limit include_revoked s =
     bind_r (check_query_limit env s) (\<lambda>s'.
     bind_r (page_filtered s' MAX_CHUNK_SIZE (index_total s' (ExpirationTotal x)) cursor limit include_revoked
               (ExpirationChunk x)) (\<lambda>us. Inr (us, s')))"

definition get_issuer_page_filtered ::
  "ledger_env \<Rightarrow> address \<Rightarrow> nat \<Rightarrow> nat \<Rightarrow> bool \<Rightarrow> idx_state \<Rightarrow> (uid list \<times> idx_state) sas_result" where
  "get_issuer_page_filtered env a cursor limit include_revoked s =
     bind_r (check_query_limit env s) (\<lambda>s'.
     bind_r (page_filtered s' (chunk_capacity s') (index_total s' (AttesterTotal a)) cursor limit include_revoked
               (AddressChunk a)) (\<lambda>us. Inr (us, s')))"

definition get_recipient_page_filtered ::
  "ledger_env \<Rightarrow> address \<Rightarrow> nat \<Rightarrow> nat \<Rightarrow> bool \<Rightarrow> idx_state \<Rightarrow> (uid list \<times> idx_state) sas_result" where
  "get_recipient_page_filtered env a cursor limit include_revoked s =
     bind_r (check_query_limit env s) (\<lambda>s'.
     bind_r (page_filtered s' (chunk_capacity s') (index_total s' (RecipientTotal a)) cursor limit include_revoked
               (AddressChunk a)) (\<lambda>us. Inr (us, s')))"

text \<open>The issuer queries, which read the attester index.\<close>

definition get_count_by_issuer :: "idx_state \<Rightarrow> address \<Rightarrow> nat" where
  "get_count_by_issuer s issuer = index_total s (AttesterTotal issuer)"

definition get_attestations_by_issuer :: "idx_state \<Rightarrow> address \<Rightarrow> uid list sas_result" where
  "get_attestations_by_issuer s issuer =
     collect_filtered s (index_total s (AttesterTotal issuer)) (AddressChunk issuer) True"

definition get_atts_by_issuer_paginated ::
  "ledger_env \<Rightarrow> address \<Rightarrow> nat \<Rightarrow> nat \<Rightarrow> idx_state \<Rightarrow> (uid list \<times> idx_state) sas_result" where
  "get_atts_by_issuer_paginated env issuer cursor limit s =
     bind_r (check_query_limit env s) (\<lambda>s'.
     bind_r (collect_page s' (index_total s' (AttesterTotal issuer)) cursor limit (AddressChunk issuer))
       (\<lambda>us. Inr (us, s')))"

definition get_issuer_filtered ::
  "ledger_env \<Rightarrow> address \<Rightarrow> bool \<Rightarrow> idx_state \<Rightarrow> (uid list \<times> idx_state) sas_result" where
  "get_issuer_filtered env issuer include_revoked s =
     bind_r (check_query_limit env s) (\<lambda>s'.
     bind_r (collect_filtered s' (index_total s' (AttesterTotal issuer)) (AddressChunk issuer) include_revoked)
       (\<lambda>us. Inr (us, s')))"

end
