(* ===== verification/Indexer_Log.thy ===== *)
theory Indexer_Log
  imports Indexer Samples
begin

text \<open>
  The indexer as an append-only log. A chunked index with a fixed capacity is the list of its UIDs cut
  into pieces; appending to it appends to the list, and every query reads the list. The abstract state
  of the indexer is the list of the records it was given, in order, and the contract simulates it.
\<close>

section \<open>Chunked lists\<close>

definition chunked :: "nat \<Rightarrow> 'a list \<Rightarrow> nat \<Rightarrow> 'a list option" where
  "chunked c xs i = (if i * c < length xs then Some (take c (drop (i * c) xs)) else None)"

lemma chunked_at:
  assumes "0 < c" and "i < length xs"
  obtains ch where "chunked c xs (i div c) = Some ch" and "i mod c < length ch" and "length ch \<le> c"
    and "ch ! (i mod c) = xs ! i" and "drop (i mod c) ch = take (c - i mod c) (drop i xs)"
proof
  have i: "i div c * c + i mod c = i" "i mod c < c" using assms(1) by simp_all
  then have le: "i div c * c < length xs" "i mod c < length xs - i div c * c" using assms(2) by linarith+
  let ?ch = "take c (drop (i div c * c) xs)"
  show "chunked c xs (i div c) = Some ?ch" "i mod c < length ?ch" "length ?ch \<le> c"
    using i le unfolding chunked_def by simp_all
  have "?ch ! (i mod c) = xs ! (i div c * c + i mod c)"
    using i(2) le by (subst nth_take) (auto intro: nth_drop less_imp_le)
  then show "?ch ! (i mod c) = xs ! i" using i(1) by simp
  show "drop (i mod c) ?ch = take (c - i mod c) (drop i xs)"
    by (simp add: drop_take)
qed

lemma chunked_append:
  assumes "0 < c" and i_def: "i = length xs div c"
  shows "length (case chunked c xs i of Some ch \<Rightarrow> ch | None \<Rightarrow> []) < c"
    and "chunked c (xs @ [u]) j =
      (if j = i then Some ((case chunked c xs i of Some ch \<Rightarrow> ch | None \<Rightarrow> []) @ [u]) else chunked c xs j)"
proof -
  have l: "length xs = i * c + length xs mod c" unfolding i_def by simp
  have m: "length xs mod c < c" using assms(1) by simp
  have ch: "(case chunked c xs i of Some ch \<Rightarrow> ch | None \<Rightarrow> []) = drop (i * c) xs"
    using l m by (auto simp: chunked_def)
  show "length (case chunked c xs i of Some ch \<Rightarrow> ch | None \<Rightarrow> []) < c"
    unfolding ch using l m by simp
  show "chunked c (xs @ [u]) j =
      (if j = i then Some ((case chunked c xs i of Some ch \<Rightarrow> ch | None \<Rightarrow> []) @ [u]) else chunked c xs j)"
  proof (cases "j = i")
    case True
    have "take c (drop (i * c) (xs @ [u])) = drop (i * c) xs @ [u]" using l m by simp
    with True l show ?thesis unfolding ch by (simp add: chunked_def)
  next
    case False
    have "j * c < length (xs @ [u]) \<longleftrightarrow> j * c < length xs \<and> j < i"
    proof (cases "j < i")
      case True
      then have "Suc j * c \<le> i * c" by (intro mult_le_mono1) simp
      with l m assms(1) show ?thesis using True by simp
    next
      case ge: False
      with False have "Suc i * c \<le> j * c" by (intro mult_le_mono1) simp
      with l m show ?thesis using ge by simp
    qed
    moreover have "take c (drop (j * c) (xs @ [u])) = take c (drop (j * c) xs)" if "j < i"
    proof -
      from that have "Suc j * c \<le> i * c" by (intro mult_le_mono1) simp
      with l show ?thesis by simp
    qed
    moreover have "\<not> j * c < length xs" if "\<not> j < i"
    proof -
      from that False have "Suc i * c \<le> j * c" by (intro mult_le_mono1) simp
      with l m show ?thesis by simp
    qed
    ultimately show ?thesis using False by (auto simp: chunked_def)
  qed
qed

section \<open>Walks over a chunked list\<close>

lemma collect_loop_chunked:
  "get = chunked c xs \<Longrightarrow> 0 < c \<Longrightarrow> fin \<le> length xs \<Longrightarrow>
   collect_loop c get keep fin index out = Inr (out @ filter keep (take (fin - index) (drop index xs)))"
proof (induction c get keep fin index out rule: collect_loop.induct)
  case (1 c get keep fin index out)
  show ?case
  proof (cases "index < fin")
    case True
    then have "index < length xs" using 1(5) by simp
    from chunked_at [OF 1(4) this] obtain ch where ch: "get (index div c) = Some ch" "index mod c < length ch"
      "length ch \<le> c" "drop (index mod c) ch = take (c - index mod c) (drop index xs)"
      using 1(3) by blast
    define n where "n = min (length ch - index mod c) (fin - index)"
    have n: "take n (drop (index mod c) ch) = take n (drop index xs)"
    proof -
      have "n \<le> c - index mod c" unfolding n_def using ch(3) by (simp add: min.coboundedI1 diff_le_mono)
      then show ?thesis unfolding ch(4) take_take by (simp only: min_absorb1)
    qed
    have "fin - index = n + (fin - (index + n))" unfolding n_def by simp
    then have split: "take (fin - index) (drop index xs) =
        take n (drop index xs) @ take (fin - (index + n)) (drop (index + n) xs)"
      using take_add [of n "fin - (index + n)" "drop index xs"] by (simp add: add.commute)
    have "collect_loop c get keep fin index out =
        collect_loop c get keep fin (index + n) (out @ filter keep (take n (drop index xs)))"
      using True ch(1,2) 1(4) n by (subst collect_loop.simps) (simp add: Let_def n_def [symmetric])
    also have "\<dots> = Inr ((out @ filter keep (take n (drop index xs))) @
        filter keep (take (fin - (index + n)) (drop (index + n) xs)))"
      using 1(2) [OF True _ ch(1) _ n_def] 1(3-5) ch(2) n by simp
    finally show ?thesis unfolding split by simp
  qed (subst collect_loop.simps, simp)
qed

lemma page_filter_loop_chunked:
  "get = chunked c xs \<Longrightarrow> 0 < c \<Longrightarrow> tot = length xs \<Longrightarrow> length out \<le> limit \<Longrightarrow>
   page_filter_loop c get keep tot limit index out =
     Inr (out @ take (limit - length out) (filter keep (drop index xs)))"
proof (induction c get keep tot limit index out rule: page_filter_loop.induct)
  case (1 c get keep tot limit index out)
  show ?case
  proof (cases "index < tot \<and> length out < limit")
    case True
    then have i: "index < length xs" using 1(5) by simp
    from chunked_at [OF 1(4) this] obtain ch where ch: "get (index div c) = Some ch" "index mod c < length ch"
      "ch ! (index mod c) = xs ! index"
      using 1(3) by blast
    define out' where "out' = (if keep (xs ! index) then out @ [xs ! index] else out)"
    have d: "drop index xs = xs ! index # drop (index + 1) xs" using i by (simp add: Cons_nth_drop_Suc)
    have "page_filter_loop c get keep tot limit index out = page_filter_loop c get keep tot limit (index + 1) out'"
      using True ch 1(4) by (subst page_filter_loop.simps) (simp add: Let_def out'_def)
    also have "\<dots> = Inr (out' @ take (limit - length out') (filter keep (drop (index + 1) xs)))"
      using 1(2) [OF True _ ch(1) _ ch(3) [symmetric]] 1(3-5) ch(2) True by (simp add: out'_def split: if_splits)
    finally show ?thesis unfolding d out'_def using True by (auto simp: take_Cons')
  next
    case False
    with 1(5,6) show ?thesis by (subst page_filter_loop.simps) auto
  qed
qed

lemma reverse_loop_chunked:
  "get = chunked MAX_CHUNK_SIZE xs \<Longrightarrow> index < length xs \<Longrightarrow> length uids \<le> limit \<Longrightarrow>
   rp_uids (reverse_loop get keep limit index uids) =
     uids @ take (limit - length uids) (filter keep (rev (take (Suc index) xs)))"
proof (induction get keep limit index uids rule: reverse_loop.induct)
  case (1 get keep limit index uids)
  have c: "0 < MAX_CHUNK_SIZE" by (simp add: MAX_CHUNK_SIZE_def)
  show ?case
  proof (cases "length uids < limit")
    case True
    from chunked_at [OF c 1(3)] obtain ch where ch: "get (index div MAX_CHUNK_SIZE) = Some ch"
      "index mod MAX_CHUNK_SIZE < length ch" "ch ! (index mod MAX_CHUNK_SIZE) = xs ! index"
      using 1(2) by blast
    define uids' where "uids' = (if keep (xs ! index) then uids @ [xs ! index] else uids)"
    have r: "filter keep (rev (take (Suc index) xs)) =
        (if keep (xs ! index) then [xs ! index] else []) @ filter keep (rev (take index xs))"
      using 1(3) by (simp add: take_Suc_conv_app_nth)
    show ?thesis
    proof (cases index)
      case 0
      then have "reverse_loop get keep limit index uids = \<lparr>rp_uids = uids', rp_next_cursor = None\<rparr>"
        using True ch by (subst reverse_loop.simps) (simp add: Let_def uids'_def)
      with 0 True show ?thesis unfolding r by (cases "limit - length uids") (auto simp: uids'_def)
    next
      case (Suc j)
      have "reverse_loop get keep limit index uids = reverse_loop get keep limit (index - 1) uids'"
        using True ch Suc by (subst reverse_loop.simps) (simp add: Let_def uids'_def)
      also have "rp_uids \<dots> = uids' @ take (limit - length uids') (filter keep (rev (take index xs)))"
        using 1(1) [OF True ch(1,2) ch(3) [symmetric] uids'_def] 1(2,3) Suc True by (simp add: uids'_def)
      finally show ?thesis unfolding r uids'_def using True by (auto simp: take_Cons')
    qed
  next
    case False
    with 1(4) show ?thesis by (subst reverse_loop.simps) auto
  qed
qed

section \<open>The log\<close>

type_synonym idx_log = "(uid \<times> index_record) list"

definition by_schema :: "idx_log \<Rightarrow> uid \<Rightarrow> uid list" where
  "by_schema l k = map fst (filter (\<lambda>(u, r). ir_schema_uid r = k) l)"

definition by_recipient :: "idx_log \<Rightarrow> address \<Rightarrow> uid list" where
  "by_recipient l a = map fst (filter (\<lambda>(u, r). ir_recipient r = a) l)"

definition by_attester :: "idx_log \<Rightarrow> address \<Rightarrow> uid list" where
  "by_attester l a = map fst (filter (\<lambda>(u, r). ir_attester r = a) l)"

definition by_expiration :: "idx_log \<Rightarrow> expiration_status \<Rightarrow> uid list" where
  "by_expiration l x = map fst (filter (\<lambda>(u, r). expiration_status_of (ir_expiration_time r) = x) l)"

lemmas by_defs = by_schema_def by_recipient_def by_attester_def by_expiration_def

text \<open>The calls that index nothing. Every counted query changes the state as \<^verbatim>\<open>check_query_limit\<close> does.\<close>

inductive idx_side_step :: "ledger_env \<Rightarrow> idx_state \<Rightarrow> idx_state \<Rightarrow> bool" for env where
  "idx_init env pu pl admin sas s = Inr s' \<Longrightarrow> idx_side_step env s s'"
| "idx_upgrade env h v s = Inr s' \<Longrightarrow> idx_side_step env s s'"
| "set_chunk_tier env t s = Inr s' \<Longrightarrow> idx_side_step env s s'"
| "handle_revoke u s = Inr s' \<Longrightarrow> idx_side_step env s s'"
| "handle_replace u v s = Inr s' \<Longrightarrow> idx_side_step env s s'"
| "set_valid_from env u t s = Inr s' \<Longrightarrow> idx_side_step env s s'"
| "check_query_limit env s = Inr s' \<Longrightarrow> idx_side_step env s s'"

definition index_empty :: "idx_state \<Rightarrow> bool" where
  "index_empty s \<longleftrightarrow> ix_totals s = (\<lambda>_. None) \<and> ix_chunks s = (\<lambda>_. None) \<and> ix_records s = (\<lambda>_. None) \<and>
     ix_recipient_map s = (\<lambda>_. False) \<and> ix_schema_map s = (\<lambda>_. False)"

text \<open>
  A life of the indexer, with the records it has been given: any calls at any ledgers, during which the
  chunk capacity is not changed once something is indexed.
\<close>

inductive idx_run :: "nat \<Rightarrow> idx_state \<Rightarrow> idx_log \<Rightarrow> bool" for c where
  idx_started: "index_empty s \<Longrightarrow> chunk_capacity s = c \<Longrightarrow> idx_run c s []"
| idx_indexed:
    "idx_run c s l \<Longrightarrow>
     index_attestation env u a k b e s = Inr s' \<Longrightarrow>
     l' = (if ix_records s u = None
           then l @ [(u, \<lparr>ir_recipient = a, ir_schema_uid = k, ir_attester = b, ir_expiration_time = e\<rparr>)] else l) \<Longrightarrow>
     idx_run c s' l'"
| idx_other: "idx_run c s l \<Longrightarrow> idx_side_step env s s' \<Longrightarrow> chunk_capacity s' = c \<Longrightarrow> idx_run c s' l"

section \<open>The simulation\<close>

definition chunks_of :: "idx_state \<Rightarrow> chunk_key \<Rightarrow> nat \<Rightarrow> uid list option" where
  "chunks_of s k = (\<lambda>i. ix_chunks s (k, i))"

lemma read_chunk_chunks_of: "read_chunk s k = chunks_of s k"
  by (simp add: read_chunk_def chunks_of_def fun_eq_iff)

definition idx_inv :: "nat \<Rightarrow> idx_state \<Rightarrow> idx_log \<Rightarrow> bool" where
  "idx_inv c s l \<longleftrightarrow> chunk_capacity s = c \<and> distinct (map fst l) \<and> ix_records s = map_of l \<and>
     (\<forall>k. index_total s k \<le> u32_max) \<and>
     (\<forall>k. index_total s (SchemaTotal k) = length (by_schema l k) \<and>
        chunks_of s (UidChunk k) = chunked c (by_schema l k)) \<and>
     (\<forall>x. index_total s (ExpirationTotal x) = length (by_expiration l x) \<and>
        chunks_of s (ExpirationChunk x) = chunked MAX_CHUNK_SIZE (by_expiration l x)) \<and>
     (\<forall>a. index_total s (RecipientTotal a) = length (by_recipient l a) \<and>
        index_total s (AttesterTotal a) = length (by_attester l a)) \<and>
     (\<forall>a. by_attester l a = [] \<longrightarrow> chunks_of s (AddressChunk a) = chunked c (by_recipient l a)) \<and>
     (\<forall>a. by_recipient l a = [] \<longrightarrow> chunks_of s (AddressChunk a) = chunked c (by_attester l a)) \<and>
     (\<forall>a u. ix_recipient_map s (a, u) \<longleftrightarrow> u \<in> set (by_recipient l a)) \<and>
     (\<forall>k u. ix_schema_map s (k, u) \<longleftrightarrow> u \<in> set (by_schema l k))"

lemma chunk_capacity_bounds: "25 \<le> chunk_capacity s" "chunk_capacity s \<le> 100"
  by (simp_all add: chunk_capacity_def clamp_def Let_def DEFAULT_CHUNK_SIZE_def MAX_CHUNK_BYTES_def
      UID_BYTES_def MAX_CHUNK_SIZE_def MIN_CHUNK_SIZE_def split: option.split)

lemma idx_emit_simps [simp]:
  "ix_totals (idx_emit e s) = ix_totals s" "ix_chunks (idx_emit e s) = ix_chunks s"
  "ix_records (idx_emit e s) = ix_records s" "ix_recipient_map (idx_emit e s) = ix_recipient_map s"
  "ix_schema_map (idx_emit e s) = ix_schema_map s" "ix_capacity (idx_emit e s) = ix_capacity s"
  "ix_status (idx_emit e s) = ix_status s" "ix_sas (idx_emit e s) = ix_sas s"
  by (simp_all add: idx_emit_def)

lemma emit_if_events: "\<exists>ev. emit_if b e s = s\<lparr>ix_events := ev\<rparr>"
proof (cases b)
  case True
  then show ?thesis by (auto simp: emit_if_def idx_emit_def)
next
  case False
  then have "emit_if b e s = s\<lparr>ix_events := ix_events s\<rparr>" by (simp add: emit_if_def)
  then show ?thesis by blast
qed

text \<open>One append: only the last chunk of its key and its counter change.\<close>

definition appended :: "nat \<Rightarrow> chunk_key \<Rightarrow> total_key \<Rightarrow> uid \<Rightarrow> idx_state \<Rightarrow> idx_state \<Rightarrow> bool" where
  "appended c k ck u s s' \<longleftrightarrow>
     (\<exists>ch ev. s' = s\<lparr>ix_chunks := ch, ix_totals := (ix_totals s)(ck \<mapsto> Suc (index_total s ck)), ix_events := ev\<rparr>) \<and>
     0 < c \<and> index_total s ck < u32_max \<and>
     (\<forall>k'. k' \<noteq> k \<longrightarrow> chunks_of s' k' = chunks_of s k') \<and>
     (length (chunk_or_new s k (index_total s ck div c)) < c \<longrightarrow>
        ix_chunks s' = (ix_chunks s)((k, index_total s ck div c) \<mapsto>
          chunk_or_new s k (index_total s ck div c) @ [u]))"

lemma chunk_or_new_chunks: "chunk_or_new s k i = (case chunks_of s k i of Some ch \<Rightarrow> ch | None \<Rightarrow> [])"
  by (simp add: chunk_or_new_def chunks_of_def)

lemma chunk_upd_chunked:
  assumes "0 < c" and "chunks_of s k = chunked c xs" and "n = length xs"
    and "ix_chunks s' = (ix_chunks s)((k, n div c) \<mapsto> chunk_or_new s k (n div c) @ [u])"
  shows "chunks_of s' k = chunked c (xs @ [u])"
proof
  fix j
  have "chunk_or_new s k (n div c) = (case chunked c xs (n div c) of Some ch \<Rightarrow> ch | None \<Rightarrow> [])"
    unfolding chunk_or_new_chunks assms(2) ..
  with chunked_append(2) [OF assms(1) refl, of xs u j] assms(2-4) show "chunks_of s' k j = chunked c (xs @ [u]) j"
    by (simp add: chunks_of_def fun_eq_iff)
qed

lemma chunk_not_full:
  assumes "0 < c" and "chunks_of s k = chunked c xs" and "n = length xs"
  shows "length (chunk_or_new s k (n div c)) < c"
proof -
  have "chunk_or_new s k (n div c) = (case chunked c xs (n div c) of Some ch \<Rightarrow> ch | None \<Rightarrow> [])"
    unfolding chunk_or_new_chunks assms(2) ..
  with chunked_append(1) [OF assms(1) refl, of xs] assms(3) show ?thesis by simp
qed

lemma append_uid_appended:
  assumes "append_uid env k ck dim u s = Inr s'"
  shows "appended (chunk_capacity s) k ck u s s'"
proof -
  let ?c = "chunk_capacity s"
  define n where "n = index_total s ck"
  define i where "i = (if length (chunk_or_new s k (n div ?c)) \<ge> ?c then n div ?c + 1 else n div ?c)"
  from assms [unfolded append_uid_def Let_def, folded n_def, folded i_def]
  obtain m b1 e1 b2 e2 b3 e3 where m: "(add_u32 n 1 :: nat sas_result) = Inr m"
    and s'': "emit_if b3 e3 (emit_if b2 e2 (emit_if b1 e1 s))\<lparr>
        ix_chunks := (ix_chunks s)((k, i) \<mapsto> chunk_or_new s k i @ [u]), ix_totals := (ix_totals s)(ck \<mapsto> m)\<rparr> = s'"
    unfolding bind_r_Inr_iff sum.inject by blast
  from m have n: "n < u32_max" "m = Suc n" by (auto simp: add_u32_def split: if_splits)
  note s' = s'' [unfolded n(2), symmetric]
  obtain v1 v2 v3 where "emit_if b1 e1 s = s\<lparr>ix_events := v1\<rparr>"
    "emit_if b2 e2 (s\<lparr>ix_events := v1\<rparr>) = s\<lparr>ix_events := v1\<rparr>\<lparr>ix_events := v2\<rparr>"
    "emit_if b3 e3 (s\<lparr>ix_events := v2\<rparr>) = s\<lparr>ix_events := v2\<rparr>\<lparr>ix_events := v3\<rparr>"
    using emit_if_events by metis
  then obtain ev where ev: "emit_if b3 e3 (emit_if b2 e2 (emit_if b1 e1 s)) = s\<lparr>ix_events := ev\<rparr>"
    by simp
  have eq: "s' = s\<lparr>ix_chunks := (ix_chunks s)((k, i) \<mapsto> chunk_or_new s k i @ [u]),
      ix_totals := (ix_totals s)(ck \<mapsto> Suc n), ix_events := ev\<rparr>"
    unfolding s' ev by simp
  have c: "0 < ?c" using chunk_capacity_bounds(1) [of s] by simp
  moreover have "ix_chunks s' = (ix_chunks s)((k, n div ?c) \<mapsto> chunk_or_new s k (n div ?c) @ [u])"
    if "length (chunk_or_new s k (n div ?c)) < ?c"
    using that by (simp add: eq i_def)
  moreover have "chunks_of s' k' = chunks_of s k'" if "k' \<noteq> k" for k'
    using that by (simp add: eq chunks_of_def)
  ultimately show ?thesis
    unfolding appended_def n_def [symmetric] using n(1) eq by blast
qed

lemma index_expiration_appended:
  assumes "index_expiration_status x u s = Inr s'"
  shows "appended MAX_CHUNK_SIZE (ExpirationChunk x) (ExpirationTotal x) u s s'"
proof -
  let ?k = "ExpirationChunk x"
  define n where "n = index_total s (ExpirationTotal x)"
  define i where "i = (if length (chunk_or_new s ?k (n div MAX_CHUNK_SIZE)) \<ge> MAX_CHUNK_SIZE
    then n div MAX_CHUNK_SIZE + 1 else n div MAX_CHUNK_SIZE)"
  from assms [unfolded index_expiration_status_def Let_def, folded n_def, folded i_def]
  obtain m where m: "(add_u32 n 1 :: nat sas_result) = Inr m" and s': "s\<lparr>ix_chunks := (ix_chunks s)((?k, i) \<mapsto>
      chunk_or_new s ?k i @ [u]), ix_totals := (ix_totals s)(ExpirationTotal x \<mapsto> m)\<rparr> = s'"
    unfolding bind_r_Inr_iff sum.inject by blast
  from m have n: "n < u32_max" "m = Suc n" by (auto simp: add_u32_def split: if_splits)
  have eq: "s' = s\<lparr>ix_chunks := (ix_chunks s)((?k, i) \<mapsto> chunk_or_new s ?k i @ [u]),
      ix_totals := (ix_totals s)(ExpirationTotal x \<mapsto> Suc n), ix_events := ix_events s\<rparr>"
    unfolding s' [symmetric] n(2) by simp
  have c: "0 < MAX_CHUNK_SIZE" by (simp add: MAX_CHUNK_SIZE_def)
  moreover have "ix_chunks s' = (ix_chunks s)((?k, n div MAX_CHUNK_SIZE) \<mapsto> chunk_or_new s ?k (n div MAX_CHUNK_SIZE) @ [u])"
    if "length (chunk_or_new s ?k (n div MAX_CHUNK_SIZE)) < MAX_CHUNK_SIZE"
    using that by (simp add: eq i_def)
  moreover have "chunks_of s' k' = chunks_of s k'" if "k' \<noteq> ?k" for k'
    using that by (simp add: eq chunks_of_def)
  ultimately show ?thesis
    unfolding appended_def n_def [symmetric] using n(1) eq by blast
qed

lemma appended_chunk:
  assumes "appended c k ck u s s'" and "length (chunk_or_new s k (index_total s ck div c)) < c"
  shows "ix_chunks s' = (ix_chunks s)((k, index_total s ck div c) \<mapsto> chunk_or_new s k (index_total s ck div c) @ [u])"
  using assms unfolding appended_def by blast

lemma appended_frame:
  assumes "appended c k ck u s s'"
  shows "ix_records s' = ix_records s" "ix_recipient_map s' = ix_recipient_map s"
    "ix_schema_map s' = ix_schema_map s" "chunk_capacity s' = chunk_capacity s" "ix_status s' = ix_status s"
    "ix_sas s' = ix_sas s" "index_total s' ck' = index_total s ck' + (if ck' = ck then 1 else 0)"
    "index_total s ck < u32_max" "k' \<noteq> k \<Longrightarrow> chunks_of s' k' = chunks_of s k'"
    "chunks_of s k = chunked c xs \<Longrightarrow> index_total s ck = length xs \<Longrightarrow> chunks_of s' k = chunked c (xs @ [u])"
proof -
  from assms obtain ch ev where s': "s' = s\<lparr>ix_chunks := ch,
      ix_totals := (ix_totals s)(ck \<mapsto> Suc (index_total s ck)), ix_events := ev\<rparr>" and c: "0 < c"
    unfolding appended_def by blast
  then show "ix_records s' = ix_records s" "ix_recipient_map s' = ix_recipient_map s"
    "ix_schema_map s' = ix_schema_map s" "chunk_capacity s' = chunk_capacity s" "ix_status s' = ix_status s"
    "ix_sas s' = ix_sas s" "index_total s' ck' = index_total s ck' + (if ck' = ck then 1 else 0)"
    by (simp_all add: chunk_capacity_def index_total_def)
  show "index_total s ck < u32_max" "k' \<noteq> k \<Longrightarrow> chunks_of s' k' = chunks_of s k'"
    using assms unfolding appended_def by blast+
  assume xs: "chunks_of s k = chunked c xs" "index_total s ck = length xs"
  from appended_chunk [OF assms chunk_not_full [OF c xs]] show "chunks_of s' k = chunked c (xs @ [u])"
    by (rule chunk_upd_chunked [OF c xs])
qed

lemma recipient_map_frame:
  assumes "s' = index_recipient_attestation a u s"
  shows "ix_records s' = ix_records s" "ix_recipient_map s' = (ix_recipient_map s)((a, u) := True)"
    "ix_schema_map s' = ix_schema_map s" "chunk_capacity s' = chunk_capacity s" "ix_status s' = ix_status s"
    "ix_sas s' = ix_sas s" "index_total s' ck = index_total s ck" "chunks_of s' k = chunks_of s k"
  by (auto simp: assms index_recipient_attestation_def Let_def chunk_capacity_def index_total_def chunks_of_def
      fun_eq_iff)

lemma schema_map_frame:
  assumes "s' = index_schema_attestation a u s"
  shows "ix_records s' = ix_records s" "ix_recipient_map s' = ix_recipient_map s"
    "ix_schema_map s' = (ix_schema_map s)((a, u) := True)" "chunk_capacity s' = chunk_capacity s"
    "ix_status s' = ix_status s" "ix_sas s' = ix_sas s" "index_total s' ck = index_total s ck"
    "chunks_of s' k = chunks_of s k"
  by (auto simp: assms index_schema_attestation_def Let_def chunk_capacity_def index_total_def chunks_of_def
      fun_eq_iff)

lemma index_new_appends:
  assumes "index_new env u r s = Inr s'" and "chunk_capacity s = c"
  obtains s1 s1' s2 s2' s3 s4 ev where
    "appended c (AddressChunk (ir_recipient r)) (RecipientTotal (ir_recipient r)) u
       (s\<lparr>ix_records := (ix_records s)(u \<mapsto> r)\<rparr>) s1"
    and "s1' = index_recipient_attestation (ir_recipient r) u s1"
    and "appended c (UidChunk (ir_schema_uid r)) (SchemaTotal (ir_schema_uid r)) u s1' s2"
    and "s2' = index_schema_attestation (ir_schema_uid r) u s2"
    and "appended c (AddressChunk (ir_attester r)) (AttesterTotal (ir_attester r)) u s2' s3"
    and "appended MAX_CHUNK_SIZE (ExpirationChunk (expiration_status_of (ir_expiration_time r)))
       (ExpirationTotal (expiration_status_of (ir_expiration_time r))) u s3 s4"
    and "s' = s4\<lparr>ix_events := ev\<rparr>"
proof -
  from assms(1) obtain s1 s2 s3 s4 e where
    1: "append_uid env (AddressChunk (ir_recipient r)) (RecipientTotal (ir_recipient r)) DimRecipient u
       (s\<lparr>ix_records := (ix_records s)(u \<mapsto> r)\<rparr>) = Inr s1"
    and 2: "append_uid env (UidChunk (ir_schema_uid r)) (SchemaTotal (ir_schema_uid r)) DimSchema u
       (index_recipient_attestation (ir_recipient r) u s1) = Inr s2"
    and 3: "append_uid env (AddressChunk (ir_attester r)) (AttesterTotal (ir_attester r)) DimAttester u
       (index_schema_attestation (ir_schema_uid r) u s2) = Inr s3"
    and 4: "index_expiration_status (expiration_status_of (ir_expiration_time r)) u s3 = Inr s4"
    and 5: "idx_emit e s4 = s'"
    unfolding index_new_def index_address_uid_def index_uid_uid_def bind_r_Inr_iff sum.inject by blast
  have c0: "chunk_capacity (s\<lparr>ix_records := (ix_records s)(u \<mapsto> r)\<rparr>) = c"
    using assms(2) by (simp add: chunk_capacity_def)
  note a1 = append_uid_appended [OF 1, unfolded c0]
  have c1: "chunk_capacity (index_recipient_attestation (ir_recipient r) u s1) = c"
    using appended_frame(4) [OF a1] recipient_map_frame(4) [OF refl] c0 by simp
  note a2 = append_uid_appended [OF 2, unfolded c1]
  have c2: "chunk_capacity (index_schema_attestation (ir_schema_uid r) u s2) = c"
    using appended_frame(4) [OF a2] schema_map_frame(4) [OF refl] c1 by simp
  note a3 = append_uid_appended [OF 3, unfolded c2]
  from that [OF a1 refl a2 refl a3 index_expiration_appended [OF 4]] 5 [symmetric] show thesis
    by (simp add: idx_emit_def)
qed

lemma by_snoc:
  "by_schema (l @ [(u, r)]) k = by_schema l k @ (if ir_schema_uid r = k then [u] else [])"
  "by_recipient (l @ [(u, r)]) a = by_recipient l a @ (if ir_recipient r = a then [u] else [])"
  "by_attester (l @ [(u, r)]) a = by_attester l a @ (if ir_attester r = a then [u] else [])"
  "by_expiration (l @ [(u, r)]) x =
     by_expiration l x @ (if expiration_status_of (ir_expiration_time r) = x then [u] else [])"
  by (simp_all add: by_defs)

lemma map_of_snoc: "u \<notin> set (map fst l) \<Longrightarrow> map_of (l @ [(u, r)]) = (map_of l)(u \<mapsto> r)"
  by (induction l) (auto simp: fun_eq_iff)

lemma index_new_inv:
  assumes inv: "idx_inv c s l" and new: "ix_records s u = None" and run: "index_new env u r s = Inr s'"
  shows "idx_inv c s' (l @ [(u, r)])"
proof -
  have cap: "chunk_capacity s = c" using inv by (simp add: idx_inv_def)
  define s0 where "s0 = s\<lparr>ix_records := (ix_records s)(u \<mapsto> r)\<rparr>"
  from index_new_appends [OF run cap, folded s0_def] obtain s1 s1' s2 s2' s3 s4 ev where
    a1: "appended c (AddressChunk (ir_recipient r)) (RecipientTotal (ir_recipient r)) u s0 s1"
    and s1': "s1' = index_recipient_attestation (ir_recipient r) u s1"
    and a2: "appended c (UidChunk (ir_schema_uid r)) (SchemaTotal (ir_schema_uid r)) u s1' s2"
    and s2': "s2' = index_schema_attestation (ir_schema_uid r) u s2"
    and a3: "appended c (AddressChunk (ir_attester r)) (AttesterTotal (ir_attester r)) u s2' s3"
    and a4: "appended MAX_CHUNK_SIZE (ExpirationChunk (expiration_status_of (ir_expiration_time r)))
       (ExpirationTotal (expiration_status_of (ir_expiration_time r))) u s3 s4"
    and s': "s' = s4\<lparr>ix_events := ev\<rparr>" by blast
  note f1 = appended_frame [OF a1] and m1 = recipient_map_frame [OF s1'] and f2 = appended_frame [OF a2]
    and m2 = schema_map_frame [OF s2'] and f3 = appended_frame [OF a3] and f4 = appended_frame [OF a4]
  have 0: "index_total s0 k = index_total s k" "chunks_of s0 q = chunks_of s q" for k q
    by (simp_all add: s0_def index_total_def chunks_of_def)
  have c0: "chunk_capacity s0 = chunk_capacity s" by (simp add: s0_def chunk_capacity_def)
  note i = inv [unfolded idx_inv_def]
  have isc: "index_total s (SchemaTotal k) = length (by_schema l k)"
    "chunks_of s (UidChunk k) = chunked c (by_schema l k)" for k using i by simp_all
  have ie: "index_total s (ExpirationTotal x) = length (by_expiration l x)"
    "chunks_of s (ExpirationChunk x) = chunked MAX_CHUNK_SIZE (by_expiration l x)" for x using i by simp_all
  have ia: "index_total s (RecipientTotal a) = length (by_recipient l a)"
    "index_total s (AttesterTotal a) = length (by_attester l a)"
    "by_attester l a = [] \<Longrightarrow> chunks_of s (AddressChunk a) = chunked c (by_recipient l a)"
    "by_recipient l a = [] \<Longrightarrow> chunks_of s (AddressChunk a) = chunked c (by_attester l a)" for a
    using i by simp_all
  have e: "index_total s' k = index_total s4 k" "chunks_of s' q = chunks_of s4 q" "chunk_capacity s' = chunk_capacity s4"
    for k q by (simp_all add: s' index_total_def chunks_of_def chunk_capacity_def)
  have u: "u \<notin> set (map fst l)"
    using inv new by (auto simp: idx_inv_def map_of_eq_None_iff)
  then have rec: "distinct (map fst (l @ [(u, r)]))" "ix_records s' = map_of (l @ [(u, r)])"
    using inv f1(1) m1(1) f2(1) m2(1) f3(1) f4(1) map_of_snoc [OF u]
    by (simp_all add: idx_inv_def s' s0_def)
  have maps: "ix_recipient_map s' = (ix_recipient_map s)((ir_recipient r, u) := True)"
    "ix_schema_map s' = (ix_schema_map s)((ir_schema_uid r, u) := True)"
    using f1(2,3) m1(2,3) f2(2,3) m2(2,3) f3(2,3) f4(2,3) by (simp_all add: s' s0_def)
  have tot: "index_total s' k = index_total s k + (if k = RecipientTotal (ir_recipient r) \<or>
      k = SchemaTotal (ir_schema_uid r) \<or> k = AttesterTotal (ir_attester r) \<or>
      k = ExpirationTotal (expiration_status_of (ir_expiration_time r)) then 1 else 0)" for k
    using f1(7) m1(7) f2(7) m2(7) f3(7) f4(7) by (auto simp: e 0)
  have ch_schema: "chunks_of s' (UidChunk k) = chunked c (by_schema (l @ [(u, r)]) k)" for k
    using isc [of k] f1(7,9) m1(7,8) f2(9,10) m2(8) f3(9) f4(9)
    by (cases "k = ir_schema_uid r") (auto simp: e 0 by_snoc)
  have ch_exp: "chunks_of s' (ExpirationChunk x) = chunked MAX_CHUNK_SIZE (by_expiration (l @ [(u, r)]) x)" for x
    using ie [of x] f1(7,9) m1(7,8) f2(7,9) m2(7,8) f3(7,9) f4(9,10)
    by (cases "x = expiration_status_of (ir_expiration_time r)") (auto simp: e 0 by_snoc)
  have ch_rec: "chunks_of s' (AddressChunk a) = chunked c (by_recipient (l @ [(u, r)]) a)"
    if "by_attester (l @ [(u, r)]) a = []" for a
  proof -
    from that have "ir_attester r \<noteq> a" "by_attester l a = []" by (auto simp: by_snoc split: if_splits)
    with ia [of a] f1(9,10) m1(8) f2(9) m2(8) f3(9) f4(9) show ?thesis
      by (cases "a = ir_recipient r") (auto simp: e 0 by_snoc)
  qed
  have ch_att: "chunks_of s' (AddressChunk a) = chunked c (by_attester (l @ [(u, r)]) a)"
    if "by_recipient (l @ [(u, r)]) a = []" for a
  proof -
    from that have "ir_recipient r \<noteq> a" "by_recipient l a = []" by (auto simp: by_snoc split: if_splits)
    with ia [of a] f1(7,9) m1(7,8) f2(7,9) m2(7,8) f3(9,10) f4(9) show ?thesis
      by (cases "a = ir_attester r") (auto simp: e 0 by_snoc)
  qed
  have bound: "index_total s' k \<le> u32_max" for k
    using i f1(7,8) m1(7) f2(7,8) m2(7) f3(7,8) f4(7,8) tot [of k]
    by (auto simp: 0 Suc_le_eq split: if_splits)
  have cap': "chunk_capacity s' = c"
    using cap c0 f1(4) m1(4) f2(4) m2(4) f3(4) f4(4) by (simp add: e)
  have members: "ix_recipient_map s' (a, v) \<longleftrightarrow> v \<in> set (by_recipient (l @ [(u, r)]) a)"
    "ix_schema_map s' (k, v) \<longleftrightarrow> v \<in> set (by_schema (l @ [(u, r)]) k)" for a k v
    using i maps by (auto simp: by_snoc)
  have "index_total s' (SchemaTotal k) = length (by_schema (l @ [(u, r)]) k)"
    "index_total s' (ExpirationTotal x) = length (by_expiration (l @ [(u, r)]) x)"
    "index_total s' (RecipientTotal a) = length (by_recipient (l @ [(u, r)]) a)"
    "index_total s' (AttesterTotal a) = length (by_attester (l @ [(u, r)]) a)" for k x a
    using isc [of k] ie [of x] ia [of a] by (auto simp: tot by_snoc)
  with ch_schema ch_exp ch_rec ch_att bound rec members cap' show ?thesis unfolding idx_inv_def by blast
qed

lemma idx_side_step_frame:
  "idx_side_step env s s' \<Longrightarrow> ix_totals s' = ix_totals s \<and> ix_chunks s' = ix_chunks s \<and>
   ix_records s' = ix_records s \<and> ix_recipient_map s' = ix_recipient_map s \<and> ix_schema_map s' = ix_schema_map s"
  by (erule idx_side_step.cases)
    (auto simp: idx_init_def idx_upgrade_def idx_commit_upgrade_def set_chunk_tier_def handle_revoke_def
      handle_replace_def set_index_status_def set_valid_from_def check_query_limit_def Let_def result_iff)

lemma idx_inv_same:
  assumes "idx_inv c s l" and "ix_totals s' = ix_totals s" and "ix_chunks s' = ix_chunks s"
    and "ix_records s' = ix_records s" and "ix_recipient_map s' = ix_recipient_map s"
    and "ix_schema_map s' = ix_schema_map s" and "chunk_capacity s' = c"
  shows "idx_inv c s' l"
  using assms by (simp add: idx_inv_def index_total_def chunks_of_def)

lemma idx_inv_empty:
  "index_empty s \<Longrightarrow> idx_inv (chunk_capacity s) s []"
  by (auto simp: idx_inv_def index_empty_def index_total_def chunks_of_def chunked_def by_defs fun_eq_iff)

lemma index_attestation_cases:
  assumes "index_attestation env u a k b e s = Inr s'"
  shows "(\<exists>sas. ix_sas s = Some sas \<and> authorized env sas) \<and>
    (case ix_records s u of
       Some r \<Rightarrow> r = \<lparr>ir_recipient = a, ir_schema_uid = k, ir_attester = b, ir_expiration_time = e\<rparr> \<and> s' = s
     | None \<Rightarrow> index_new env u \<lparr>ir_recipient = a, ir_schema_uid = k, ir_attester = b, ir_expiration_time = e\<rparr> s = Inr s')"
  using assms
  by (auto simp: index_attestation_def require_sas_def Let_def result_iff split: option.splits if_splits)

lemma idx_run_inv: "idx_run c s l \<Longrightarrow> idx_inv c s l"
proof (induction rule: idx_run.induct)
  case (idx_started s)
  then show ?case using idx_inv_empty by blast
next
  case (idx_indexed s l env u a k b e s' l')
  then show ?case
    using index_attestation_cases [OF idx_indexed.hyps(2)] index_new_inv
    by (cases "ix_records s u") auto
next
  case (idx_other s l env s')
  then show ?case using idx_side_step_frame [OF idx_other.hyps(2)] idx_inv_same by blast
qed

end
