(* ===== verification/Indexer_Props.thy ===== *)
theory Indexer_Props
  imports Indexer_Log
begin

text \<open>
  What the queries of the indexer return: the interface of a paginated log, which the schema, recipient
  and attester queries implement, and the agreement of every kind of query with the log of indexed
  records.
\<close>

section \<open>Paginated logs\<close>

text \<open>What a client collects that asks for \<open>n\<close> pages, each starting where the last one ended.\<close>

fun read_pages ::
  "(nat \<Rightarrow> nat \<Rightarrow> 's \<Rightarrow> (uid list \<times> 's) sas_result) \<Rightarrow> nat \<Rightarrow> nat \<Rightarrow> nat \<Rightarrow> 's \<Rightarrow> (uid list \<times> 's) sas_result" where
  "read_pages page limit 0 cursor s = Inr ([], s)"
| "read_pages page limit (Suc n) cursor s =
     bind_r (page cursor limit s) (\<lambda>(us, s').
     bind_r (read_pages page limit n (cursor + length us) s') (\<lambda>(vs, s''). Inr (us @ vs, s'')))"

locale paged_log =
  fixes ok :: "'s \<Rightarrow> bool"
    and entries :: "'s \<Rightarrow> uid list"
    and entry_count :: "'s \<Rightarrow> nat"
    and page :: "ledger_env \<Rightarrow> nat \<Rightarrow> nat \<Rightarrow> 's \<Rightarrow> (uid list \<times> 's) sas_result"
    and budget :: "ledger_env \<Rightarrow> 's \<Rightarrow> nat"
    and tick :: "ledger_env \<Rightarrow> 's \<Rightarrow> 's"
  assumes entry_count: "ok s \<Longrightarrow> entry_count s = length (entries s)"
    and page: "ok s \<Longrightarrow> page env cursor limit s =
      (if budget env s = 0 then Inl (Panic LimitExceeded) else Inr (take limit (drop cursor (entries s)), tick env s))"
    and tick: "ok s \<Longrightarrow> 0 < budget env s \<Longrightarrow>
      ok (tick env s) \<and> entries (tick env s) = entries s \<and> budget env (tick env s) = budget env s - 1"
begin

lemma read_pages_slice:
  "ok s \<Longrightarrow> n \<le> budget env s \<Longrightarrow>
   \<exists>s'. read_pages (page env) limit n cursor s = Inr (take (n * limit) (drop cursor (entries s)), s')"
proof (induction n arbitrary: cursor s)
  case (Suc n)
  let ?us = "take limit (drop cursor (entries s))"
  have t: "ok (tick env s)" "entries (tick env s) = entries s" "n \<le> budget env (tick env s)"
    using tick [OF Suc.prems(1), of env] Suc.prems(2) by simp_all
  from Suc.IH [OF t(1,3), of "cursor + length ?us"] obtain s' where
    "read_pages (page env) limit n (cursor + length ?us) (tick env s) =
      Inr (take (n * limit) (drop (cursor + length ?us) (entries s)), s')"
    unfolding t(2) by blast
  moreover have "?us @ take (n * limit) (drop (cursor + length ?us) (entries s)) =
      take (limit + n * limit) (drop cursor (entries s))"
    by (cases "cursor + limit \<le> length (entries s)") (simp_all add: take_add add.commute min_def)
  ultimately show ?case
    using page [OF Suc.prems(1), of env cursor limit] Suc.prems(2) by simp
qed simp

lemma read_pages_complete:
  assumes "ok s" and "n \<le> budget env s" and "entry_count s \<le> n * limit"
  shows "\<exists>s'. read_pages (page env) limit n 0 s = Inr (entries s, s')"
  using read_pages_slice [OF assms(1,2), of limit 0] entry_count [OF assms(1)] assms(3) by simp

end

section \<open>Queries on a chunked list\<close>

definition queries_used :: "ledger_env \<Rightarrow> idx_state \<Rightarrow> nat" where
  "queries_used env s =
     (if sequence env = (case ix_query_seq s of Some n \<Rightarrow> n | None \<Rightarrow> 0)
      then (case ix_query_count s of Some n \<Rightarrow> n | None \<Rightarrow> 0) else 0)"

definition queries_left :: "ledger_env \<Rightarrow> idx_state \<Rightarrow> nat" where
  "queries_left env s = MAX_QUERIES_PER_BLOCK - queries_used env s"

definition counted :: "ledger_env \<Rightarrow> idx_state \<Rightarrow> idx_state" where
  "counted env s = s\<lparr>ix_query_seq := Some (sequence env), ix_query_count := Some (Suc (queries_used env s))\<rparr>"

lemma check_query_limit_eq:
  "check_query_limit env s = (if queries_left env s = 0 then Inl (Panic LimitExceeded) else Inr (counted env s))"
  by (auto simp: check_query_limit_def queries_left_def queries_used_def counted_def Let_def
      saturating_add_u32_def u32_max_def MAX_QUERIES_PER_BLOCK_def)

lemma counted_simps [simp]:
  "index_total (counted env s) k = index_total s k" "chunk_capacity (counted env s) = chunk_capacity s"
  "chunks_of (counted env s) q = chunks_of s q" "is_active (counted env s) u = is_active s u"
  "ix_totals (counted env s) = ix_totals s" "ix_chunks (counted env s) = ix_chunks s"
  "ix_records (counted env s) = ix_records s" "ix_recipient_map (counted env s) = ix_recipient_map s"
  "ix_schema_map (counted env s) = ix_schema_map s"
  by (simp_all add: counted_def index_total_def chunk_capacity_def chunks_of_def is_active_def)

lemma queries_left_counted: "0 < queries_left env s \<Longrightarrow> queries_left env (counted env s) = queries_left env s - 1"
  by (simp add: queries_left_def counted_def queries_used_def)

lemma idx_inv_counted: "idx_inv c s l \<Longrightarrow> idx_inv c (counted env s) l"
  by (rule idx_inv_same) (auto simp: idx_inv_def)

lemma collect_filtered_log:
  assumes "chunks_of s k = chunked (chunk_capacity s) xs"
  shows "collect_filtered s (length xs) k inc = Inr (filter (\<lambda>u. inc \<or> is_active s u) xs)"
  using collect_loop_chunked [OF refl, of "chunk_capacity s" "length xs" xs] chunk_capacity_bounds(1) [of s] assms
  by (simp add: collect_filtered_def read_chunk_chunks_of)

lemma collect_page_log:
  assumes "chunks_of s k = chunked (chunk_capacity s) xs" and "length xs \<le> u32_max"
  shows "collect_page s (length xs) cursor limit k = Inr (take limit (drop cursor xs))"
proof (cases "limit = 0 \<or> length xs \<le> cursor")
  case False
  let ?fin = "min (length xs) (saturating_add_u32 cursor limit)"
  have "collect_page s (length xs) cursor limit k = Inr (take (?fin - cursor) (drop cursor xs))"
    using collect_loop_chunked [OF refl, of "chunk_capacity s" ?fin xs] chunk_capacity_bounds(1) [of s] assms(1) False
    by (simp add: collect_page_def read_chunk_chunks_of)
  also have "take (?fin - cursor) (drop cursor xs) = take limit (drop cursor xs)"
    using assms(2) False by (auto simp: saturating_add_u32_def min_def)
  finally show ?thesis .
qed (auto simp: collect_page_def)

lemma page_filtered_log:
  assumes "chunks_of s k = chunked c xs" and "0 < c"
  shows "page_filtered s c (length xs) cursor limit inc k =
    Inr (take limit (filter (\<lambda>u. inc \<or> is_active s u) (drop cursor xs)))"
  using page_filter_loop_chunked [OF refl assms(2) refl, of "[]" limit xs] assms
  by (auto simp: page_filtered_def read_chunk_chunks_of)

lemma collect_recent_log:
  assumes "chunks_of s k = chunked MAX_CHUNK_SIZE xs"
  shows "rp_uids (collect_reverse_page s (length xs) None limit inc k) =
    take limit (filter (\<lambda>u. inc \<or> is_active s u) (rev xs))"
proof (cases "xs = [] \<or> limit = 0")
  case False
  then obtain n where n: "length xs = Suc n" by (cases xs) auto
  have "collect_reverse_page s (length xs) None limit inc k =
      reverse_loop (chunked MAX_CHUNK_SIZE xs) (\<lambda>u. inc \<or> is_active s u) limit n []"
    using False n assms by (simp add: collect_reverse_page_def read_chunk_chunks_of)
  with reverse_loop_chunked [OF refl, of n xs "[]" limit] n show ?thesis by simp
qed (auto simp: collect_reverse_page_def)

section \<open>The three paginated dimensions\<close>

text \<open>The complete history that the unpaginated query returns.\<close>

definition history :: "uid list sas_result \<Rightarrow> uid list" where
  "history r = (case r of Inr us \<Rightarrow> us | Inl _ \<Rightarrow> [])"

definition indexer_ok :: "idx_state \<Rightarrow> bool" where
  "indexer_ok s \<longleftrightarrow> (\<exists>c l. idx_inv c s l)"

text \<open>The address has been indexed in one role only.\<close>

definition recipient_only :: "address \<Rightarrow> idx_state \<Rightarrow> bool" where
  "recipient_only a s \<longleftrightarrow> (\<exists>c l. idx_inv c s l \<and> by_attester l a = [])"

definition attester_only :: "address \<Rightarrow> idx_state \<Rightarrow> bool" where
  "attester_only a s \<longleftrightarrow> (\<exists>c l. idx_inv c s l \<and> by_recipient l a = [])"

lemma schema_history:
  "idx_inv c s l \<Longrightarrow> get_attestations_by_schema s k = Inr (by_schema l k)"
  using collect_filtered_log [of s "UidChunk k" "by_schema l k" True]
  by (simp add: idx_inv_def get_attestations_by_schema_def)

lemma recipient_history:
  "idx_inv c s l \<Longrightarrow> by_attester l a = [] \<Longrightarrow> get_attestations_by_recipient s a = Inr (by_recipient l a)"
  using collect_filtered_log [of s "AddressChunk a" "by_recipient l a" True]
  by (simp add: idx_inv_def get_attestations_by_recipient_def)

lemma attester_history:
  "idx_inv c s l \<Longrightarrow> by_recipient l a = [] \<Longrightarrow> get_attestations_by_attester s a = Inr (by_attester l a)"
  using collect_filtered_log [of s "AddressChunk a" "by_attester l a" True]
  by (simp add: idx_inv_def get_attestations_by_attester_def)

lemma expiration_history:
  "idx_inv c s l \<Longrightarrow> c = MAX_CHUNK_SIZE \<Longrightarrow> get_attestations_by_expiration s x = Inr (by_expiration l x)"
  using collect_filtered_log [of s "ExpirationChunk x" "by_expiration l x" True]
  by (simp add: idx_inv_def get_attestations_by_expiration_def)

interpretation schema_pages: paged_log indexer_ok "\<lambda>s. history (get_attestations_by_schema s k)"
  "\<lambda>s. get_count_by_schema s k" "\<lambda>env. get_atts_by_schema_paginated env k" queries_left counted
  for k
proof (unfold_locales, goal_cases)
  case (1 s)
  then show ?case
    by (auto simp: indexer_ok_def schema_history history_def get_count_by_schema_def) (simp add: idx_inv_def)
next
  case (2 s env cursor limit)
  then obtain c l where inv: "idx_inv c s l" by (auto simp: indexer_ok_def)
  then have "length (by_schema l k) \<le> u32_max" "chunks_of s (UidChunk k) = chunked (chunk_capacity s) (by_schema l k)"
    "index_total s (SchemaTotal k) = length (by_schema l k)"
    unfolding idx_inv_def by metis+
  with collect_page_log [of "counted env s" "UidChunk k" "by_schema l k" cursor limit] schema_history [OF inv]
  show ?case by (simp add: get_atts_by_schema_paginated_def check_query_limit_eq history_def)
next
  case (3 s env)
  then obtain c l where inv: "idx_inv c s l" by (auto simp: indexer_ok_def)
  note inv' = idx_inv_counted [OF this, of env]
  with schema_history [OF inv'] schema_history [OF inv] queries_left_counted [OF 3(2)]
  show ?case by (auto simp: indexer_ok_def)
qed

interpretation recipient_pages: paged_log "recipient_only a" "\<lambda>s. history (get_attestations_by_recipient s a)"
  "\<lambda>s. get_count_by_recipient s a" "\<lambda>env. get_atts_by_recipient_paginated env a" queries_left counted
  for a
proof (unfold_locales, goal_cases)
  case (1 s)
  then show ?case
    by (auto simp: recipient_only_def recipient_history history_def get_count_by_recipient_def) (simp add: idx_inv_def)
next
  case (2 s env cursor limit)
  then obtain c l where inv: "idx_inv c s l" "by_attester l a = []" by (auto simp: recipient_only_def)
  then have "length (by_recipient l a) \<le> u32_max"
    "chunks_of s (AddressChunk a) = chunked (chunk_capacity s) (by_recipient l a)"
    "index_total s (RecipientTotal a) = length (by_recipient l a)"
    unfolding idx_inv_def by metis+
  with collect_page_log [of "counted env s" "AddressChunk a" "by_recipient l a" cursor limit]
    recipient_history [OF inv]
  show ?case by (simp add: get_atts_by_recipient_paginated_def check_query_limit_eq history_def)
next
  case (3 s env)
  then obtain c l where inv: "idx_inv c s l" "by_attester l a = []" by (auto simp: recipient_only_def)
  note inv' = idx_inv_counted [OF inv(1), of env]
  with recipient_history [OF inv' inv(2)] recipient_history [OF inv] queries_left_counted [OF 3(2)] inv(2)
  show ?case by (auto simp: recipient_only_def)
qed

interpretation attester_pages: paged_log "attester_only a" "\<lambda>s. history (get_attestations_by_attester s a)"
  "\<lambda>s. get_count_by_attester s a" "\<lambda>env. get_atts_by_attester_paginated env a" queries_left counted
  for a
proof (unfold_locales, goal_cases)
  case (1 s)
  then show ?case
    by (auto simp: attester_only_def attester_history history_def get_count_by_attester_def) (simp add: idx_inv_def)
next
  case (2 s env cursor limit)
  then obtain c l where inv: "idx_inv c s l" "by_recipient l a = []" by (auto simp: attester_only_def)
  then have "length (by_attester l a) \<le> u32_max"
    "chunks_of s (AddressChunk a) = chunked (chunk_capacity s) (by_attester l a)"
    "index_total s (AttesterTotal a) = length (by_attester l a)"
    unfolding idx_inv_def by metis+
  with collect_page_log [of "counted env s" "AddressChunk a" "by_attester l a" cursor limit]
    attester_history [OF inv]
  show ?case by (simp add: get_atts_by_attester_paginated_def check_query_limit_eq history_def)
next
  case (3 s env)
  then obtain c l where inv: "idx_inv c s l" "by_recipient l a = []" by (auto simp: attester_only_def)
  note inv' = idx_inv_counted [OF inv(1), of env]
  with attester_history [OF inv' inv(2)] attester_history [OF inv] queries_left_counted [OF 3(2)] inv(2)
  show ?case by (auto simp: attester_only_def)
qed

section \<open>Sample indexer\<close>

definition sample_indexer :: idx_state where
  "sample_indexer = fresh_indexer\<lparr>ix_admin := Some (Account 1), ix_sas := Some (Contract 70)\<rparr>"

lemma append_uid_returns: "index_total s ck < u32_max \<Longrightarrow> \<exists>s'. append_uid env k ck dim u s = Inr s'"
  by (simp add: append_uid_def Let_def add_u32_def)

lemma index_new_returns:
  assumes "\<And>k. index_total s k < u32_max"
  shows "\<exists>s'. index_new env u r s = Inr s'"
proof -
  let ?s0 = "s\<lparr>ix_records := (ix_records s)(u \<mapsto> r)\<rparr>"
  have 0: "index_total ?s0 k = index_total s k" for k by (simp add: index_total_def)
  obtain s1 where s1: "append_uid env (AddressChunk (ir_recipient r)) (RecipientTotal (ir_recipient r)) DimRecipient u ?s0
      = Inr s1"
    using append_uid_returns assms 0 by metis
  note t1 = appended_frame(7) [OF append_uid_appended [OF s1]]
  let ?s1 = "index_recipient_attestation (ir_recipient r) u s1"
  have "index_total ?s1 (SchemaTotal (ir_schema_uid r)) < u32_max"
    using assms t1 recipient_map_frame(7) [OF refl, of "ir_recipient r" u s1] by (simp add: 0)
  then obtain s2 where s2: "append_uid env (UidChunk (ir_schema_uid r)) (SchemaTotal (ir_schema_uid r)) DimSchema u ?s1
      = Inr s2"
    using append_uid_returns by metis
  note t2 = appended_frame(7) [OF append_uid_appended [OF s2]]
  let ?s2 = "index_schema_attestation (ir_schema_uid r) u s2"
  have "index_total ?s2 (AttesterTotal (ir_attester r)) < u32_max"
    using assms t1 t2 recipient_map_frame(7) [OF refl, of "ir_recipient r" u s1]
      schema_map_frame(7) [OF refl, of "ir_schema_uid r" u s2] by (simp add: 0)
  then obtain s3 where s3: "append_uid env (AddressChunk (ir_attester r)) (AttesterTotal (ir_attester r)) DimAttester u ?s2
      = Inr s3"
    using append_uid_returns by metis
  note t3 = appended_frame(7) [OF append_uid_appended [OF s3]]
  have "index_total s3 (ExpirationTotal x) < u32_max" for x
    using assms t1 t2 t3 recipient_map_frame(7) [OF refl, of "ir_recipient r" u s1]
      schema_map_frame(7) [OF refl, of "ir_schema_uid r" u s2] by (simp add: 0)
  then have "\<exists>s4. index_expiration_status (expiration_status_of (ir_expiration_time r)) u s3 = Inr s4"
    by (simp add: index_expiration_status_def Let_def add_u32_def not_less Suc_le_eq)
  with s1 s2 s3 show ?thesis
    by (auto simp: index_new_def index_address_uid_def index_uid_uid_def)
qed

lemma sample_indexer_empty: "index_empty sample_indexer" "chunk_capacity sample_indexer = MAX_CHUNK_SIZE"
  by (simp_all add: sample_indexer_def fresh_indexer_def index_empty_def chunk_capacity_def clamp_def
      DEFAULT_CHUNK_SIZE_def MAX_CHUNK_BYTES_def UID_BYTES_def MAX_CHUNK_SIZE_def MIN_CHUNK_SIZE_def)

lemma sample_run_start: "idx_run MAX_CHUNK_SIZE sample_indexer []"
  using idx_started [OF sample_indexer_empty] .

lemma appended_config:
  "appended c k ck u s s' \<Longrightarrow> ix_sas s' = ix_sas s \<and> ix_query_seq s' = ix_query_seq s \<and>
   ix_query_count s' = ix_query_count s \<and> ix_status s' = ix_status s"
  by (auto simp: appended_def)

lemma index_new_config:
  assumes "index_new env u r s = Inr s'"
  shows "ix_sas s' = ix_sas s \<and> ix_query_seq s' = ix_query_seq s \<and> ix_query_count s' = ix_query_count s \<and>
    ix_status s' = ix_status s"
proof (rule index_new_appends [OF assms refl], goal_cases)
  case (1 s1 s1' s2 s2' s3 s4 ev)
  have "ix_sas s1' = ix_sas s1 \<and> ix_query_seq s1' = ix_query_seq s1 \<and> ix_query_count s1' = ix_query_count s1 \<and>
      ix_status s1' = ix_status s1"
    by (simp add: 1(2) index_recipient_attestation_def Let_def)
  moreover have "ix_sas s2' = ix_sas s2 \<and> ix_query_seq s2' = ix_query_seq s2 \<and> ix_query_count s2' = ix_query_count s2 \<and>
      ix_status s2' = ix_status s2"
    by (simp add: 1(4) index_schema_attestation_def Let_def)
  ultimately show ?case
    using appended_config [OF 1(1)] appended_config [OF 1(3)] appended_config [OF 1(5)] appended_config [OF 1(6)]
    by (simp add: 1(7))
qed

lemma run_indexes:
  assumes run: "idx_run c s l" and "ix_sas s = Some sas" and "authorized env sas" and "ix_records s u = None"
    and "length l < u32_max"
  shows "\<exists>s'. index_attestation env u a k b e s = Inr s' \<and> ix_sas s' = Some sas \<and>
    queries_left env s' = queries_left env s \<and> idx_run c s' (l @ [(u, \<lparr>ir_recipient = a, ir_schema_uid = k, ir_attester = b, ir_expiration_time = e\<rparr>)])"
proof -
  let ?r = "\<lparr>ir_recipient = a, ir_schema_uid = k, ir_attester = b, ir_expiration_time = e\<rparr>"
  note inv = idx_run_inv [OF run]
  have "index_total s q \<le> length l" for q
    using inv by (cases q) (auto simp: idx_inv_def by_defs)
  with assms(5) have "index_total s q < u32_max" for q by (meson le_less_trans)
  from index_new_returns [OF this] obtain s' where s': "index_new env u ?r s = Inr s'" by blast
  with assms(2-4) have ia: "index_attestation env u a k b e s = Inr s'"
    by (simp add: index_attestation_def require_sas_def require_auth_def)
  have "ix_sas s' = Some sas" "queries_left env' s' = queries_left env' s" for env'
    using index_new_config [OF s'] assms(2) by (simp_all add: queries_left_def queries_used_def)
  moreover from idx_indexed [OF run ia] assms(4) have "idx_run c s' (l @ [(u, ?r)])" by simp
  ultimately show ?thesis using ia by blast
qed

lemma sample_queries: "queries_left sample_env sample_indexer = 1000"
  by (simp add: queries_left_def queries_used_def sample_indexer_def fresh_indexer_def MAX_QUERIES_PER_BLOCK_def)

section \<open>Properties\<close>








end
