(* ===== verification/Resolvers.thy ===== *)
theory Resolvers
  imports Typed_Data
begin

text \<open>
  The schema resolvers (\<^verbatim>\<open>contracts/permissive-resolver\<close>, \<^verbatim>\<open>blacklist-resolver\<close>, \<^verbatim>\<open>time-window-resolver\<close>,
  \<^verbatim>\<open>token-gated-resolver\<close>, \<^verbatim>\<open>multisig-resolver\<close> and its alias \<^verbatim>\<open>endorsement-resolver\<close>): the policy contracts that
  SAS calls with \<^verbatim>\<open>on_attest\<close> before it stores an attestation and with \<^verbatim>\<open>on_revoke\<close> when one is revoked.
  Each contract is a state, its administrative operations and its two hooks. Token contracts and the
  \<^verbatim>\<open>ed25519_dalek\<close> signature check are parameters.
\<close>

section \<open>The permissive resolver\<close>

definition permissive_on_attest :: "attestation \<Rightarrow> unit \<Rightarrow> unit sas_result" where
  "permissive_on_attest a s = Inr ()"

definition permissive_on_revoke :: "attestation \<Rightarrow> unit \<Rightarrow> unit sas_result" where
  "permissive_on_revoke a s = Inr ()"

section \<open>The blacklist resolver\<close>

definition MAX_UPDATE_BATCH :: nat where "MAX_UPDATE_BATCH = 64"

datatype blacklist_error =
    BlAlreadyInitialized | BlNotInitialized | BlockedParty | BlBatchTooLarge | BlUnauthorized

record blacklist_state =
  bl_admin :: "address option"
  bl_blocked :: "address \<Rightarrow> bool"

definition bl_require_initialized :: "blacklist_state \<Rightarrow> (blacklist_error, address) result" where
  "bl_require_initialized s = or_panic BlNotInitialized (bl_admin s)"

definition bl_initialize ::
  "ledger_env \<Rightarrow> address \<Rightarrow> blacklist_state \<Rightarrow> (blacklist_error, blacklist_state) result" where
  "bl_initialize env admin s =
     (if bl_admin s \<noteq> None then Inl (Panic BlAlreadyInitialized)
      else bind_r (require_auth env admin) (\<lambda>_. Inr (s\<lparr>bl_admin := Some admin\<rparr>)))"

primrec set_blocked :: "bool \<Rightarrow> address list \<Rightarrow> (address \<Rightarrow> bool) \<Rightarrow> address \<Rightarrow> bool" where
  "set_blocked b [] m = m"
| "set_blocked b (address # rest) m = set_blocked b rest (m(address := b))"

definition set_blacklist ::
  "ledger_env \<Rightarrow> address \<Rightarrow> address list \<Rightarrow> bool \<Rightarrow> blacklist_state \<Rightarrow> (blacklist_error, blacklist_state) result" where
  "set_blacklist env admin addresses blocked s =
     bind_r (bl_require_initialized s) (\<lambda>owner.
     if admin \<noteq> owner then Inl (Panic BlUnauthorized)
     else bind_r (require_auth env owner) (\<lambda>_.
     if length addresses > MAX_UPDATE_BATCH then Inl (Panic BlBatchTooLarge)
     else Inr (s\<lparr>bl_blocked := set_blocked blocked addresses (bl_blocked s)\<rparr>)))"

definition is_blacklisted :: "blacklist_state \<Rightarrow> address \<Rightarrow> (blacklist_error, bool) result" where
  "is_blacklisted s address = bind_r (bl_require_initialized s) (\<lambda>_. Inr (bl_blocked s address))"

definition blacklist_on_attest ::
  "attestation \<Rightarrow> blacklist_state \<Rightarrow> (blacklist_error, blacklist_state) result" where
  "blacklist_on_attest a s =
     bind_r (bl_require_initialized s) (\<lambda>_.
     if bl_blocked s (a_attester a) \<or> bl_blocked s (a_recipient a) then Inl (Panic BlockedParty)
     else Inr s)"

definition blacklist_on_revoke ::
  "attestation \<Rightarrow> blacklist_state \<Rightarrow> (blacklist_error, blacklist_state) result" where
  "blacklist_on_revoke a s = bind_r (bl_require_initialized s) (\<lambda>_. Inr s)"

section \<open>The time-window resolver\<close>

record time_window_config =
  tw_admin :: address
  tw_cooldown_period_seconds :: u64

record cooldown_updated_event =
  cu_old_cooldown_period_seconds :: u64
  cu_new_cooldown_period_seconds :: u64
  cu_authorizer :: address

record time_window_state =
  tw_config :: "time_window_config option"
  tw_last_attested :: "address \<rightharpoonup> u64"
  tw_events :: "cooldown_updated_event list"

definition tw_read_config :: "time_window_state \<Rightarrow> time_window_config sas_result" where
  "tw_read_config s = or_panic NotInitialized (tw_config s)"

definition tw_init :: "ledger_env \<Rightarrow> address \<Rightarrow> u64 \<Rightarrow> time_window_state \<Rightarrow> time_window_state sas_result" where
  "tw_init env admin cooldown s =
     (if tw_config s \<noteq> None then Inl (Panic AlreadyInitialized)
      else bind_r (require_auth env admin) (\<lambda>_.
        Inr (s\<lparr>tw_config := Some \<lparr>tw_admin = admin, tw_cooldown_period_seconds = cooldown\<rparr>\<rparr>)))"

definition get_cooldown_period_seconds :: "time_window_state \<Rightarrow> u64 sas_result" where
  "get_cooldown_period_seconds s = bind_r (tw_read_config s) (\<lambda>config. Inr (tw_cooldown_period_seconds config))"

definition tw_get_admin :: "time_window_state \<Rightarrow> address sas_result" where
  "tw_get_admin s = bind_r (tw_read_config s) (\<lambda>config. Inr (tw_admin config))"

definition get_last_attested_time :: "time_window_state \<Rightarrow> address \<Rightarrow> u64 option" where
  "get_last_attested_time s recipient = tw_last_attested s recipient"

definition set_cooldown_period_seconds ::
  "ledger_env \<Rightarrow> address \<Rightarrow> u64 \<Rightarrow> time_window_state \<Rightarrow> time_window_state sas_result" where
  "set_cooldown_period_seconds env authorizer cooldown s =
     bind_r (tw_read_config s) (\<lambda>config.
     bind_r (require_auth env authorizer) (\<lambda>_.
     if authorizer \<noteq> tw_admin config then Inl (Panic Unauthorized)
     else Inr (s\<lparr>tw_config := Some (config\<lparr>tw_cooldown_period_seconds := cooldown\<rparr>),
                 tw_events := tw_events s @ [\<lparr>cu_old_cooldown_period_seconds = tw_cooldown_period_seconds config,
                   cu_new_cooldown_period_seconds = cooldown, cu_authorizer = authorizer\<rparr>]\<rparr>)))"

definition time_window_on_attest ::
  "ledger_env \<Rightarrow> attestation \<Rightarrow> time_window_state \<Rightarrow> time_window_state sas_result" where
  "time_window_on_attest env a s =
     bind_r (get_cooldown_period_seconds s) (\<lambda>cooldown.
     let now = timestamp env;
         waiting = (cooldown \<noteq> 0 \<and>
           (case tw_last_attested s (a_recipient a) of
              Some last_attested_time \<Rightarrow> now < saturating_add_u64 last_attested_time cooldown
            | None \<Rightarrow> False)) in
     if waiting then Inl (Panic CooldownActive)
     else Inr (s\<lparr>tw_last_attested := (tw_last_attested s)(a_recipient a \<mapsto> now)\<rparr>))"

definition time_window_on_revoke :: "attestation \<Rightarrow> time_window_state \<Rightarrow> time_window_state sas_result" where
  "time_window_on_revoke a s = Inr s"

section \<open>The token-gated resolver\<close>

datatype token_gated_error =
    TgAlreadyInitialized | TgNotInitialized | TgUnauthorized | TgResolverRejected | TgInvalidToken
  | TgInvalidThreshold | TgInvalidFee | TgInsufficientFee

datatype fee_disposal = NoFee | TransferFee | BurnFee

record token_gated_config =
  tg_admin :: address
  tg_token :: address
  tg_min_balance :: int
  tg_fee_amount :: int
  tg_fee_disposal :: fee_disposal

type_synonym token_gated_state = "token_gated_config option"

text \<open>
  The token contract, called at an address on an outside world; a call that does not answer traps. A
  transfer or burn needs the authorization of the account it debits, which the token checks.
\<close>

record 'w token_ops =
  tok_balance :: "address \<Rightarrow> address \<Rightarrow> 'w \<Rightarrow> int option"
  tok_transfer :: "ledger_env \<Rightarrow> address \<Rightarrow> address \<Rightarrow> address \<Rightarrow> int \<Rightarrow> 'w \<Rightarrow> 'w option"
  tok_burn :: "ledger_env \<Rightarrow> address \<Rightarrow> address \<Rightarrow> int \<Rightarrow> 'w \<Rightarrow> 'w option"

definition tg_load_config :: "token_gated_state \<Rightarrow> (token_gated_error, token_gated_config) result" where
  "tg_load_config s = or_panic TgNotInitialized s"

definition tg_check_fee :: "int \<Rightarrow> fee_disposal \<Rightarrow> (token_gated_error, unit) result" where
  "tg_check_fee fee_amount disposal =
     (if fee_amount < 0 then Inl (Panic TgInvalidFee)
      else if fee_amount > 0 \<and> disposal = NoFee then Inl (Panic TgInvalidFee)
      else Inr ())"

definition tg_initialize ::
  "address \<Rightarrow> address \<Rightarrow> int \<Rightarrow> int \<Rightarrow> fee_disposal \<Rightarrow> token_gated_state \<Rightarrow> (token_gated_error, token_gated_state) result" where
  "tg_initialize admin token min_balance fee_amount disposal s =
     (if s \<noteq> None then Inl (Panic TgAlreadyInitialized)
      else if min_balance < 0 then Inl (Panic TgInvalidThreshold)
      else bind_r (tg_check_fee fee_amount disposal) (\<lambda>_.
        Inr (Some \<lparr>tg_admin = admin, tg_token = token, tg_min_balance = min_balance,
                   tg_fee_amount = fee_amount, tg_fee_disposal = disposal\<rparr>)))"

definition tg_set_admin ::
  "ledger_env \<Rightarrow> address \<Rightarrow> token_gated_state \<Rightarrow> (token_gated_error, token_gated_state) result" where
  "tg_set_admin env new_admin s =
     bind_r (tg_load_config s) (\<lambda>config.
     bind_r (require_auth env (tg_admin config)) (\<lambda>_. Inr (Some (config\<lparr>tg_admin := new_admin\<rparr>))))"

definition tg_set_min_balance ::
  "ledger_env \<Rightarrow> int \<Rightarrow> token_gated_state \<Rightarrow> (token_gated_error, token_gated_state) result" where
  "tg_set_min_balance env min_balance s =
     bind_r (tg_load_config s) (\<lambda>config.
     bind_r (require_auth env (tg_admin config)) (\<lambda>_.
     if min_balance < 0 then Inl (Panic TgInvalidThreshold)
     else Inr (Some (config\<lparr>tg_min_balance := min_balance\<rparr>))))"

definition tg_set_token ::
  "ledger_env \<Rightarrow> address \<Rightarrow> token_gated_state \<Rightarrow> (token_gated_error, token_gated_state) result" where
  "tg_set_token env token s =
     bind_r (tg_load_config s) (\<lambda>config.
     bind_r (require_auth env (tg_admin config)) (\<lambda>_. Inr (Some (config\<lparr>tg_token := token\<rparr>))))"

definition tg_set_fee ::
  "ledger_env \<Rightarrow> int \<Rightarrow> fee_disposal \<Rightarrow> token_gated_state \<Rightarrow> (token_gated_error, token_gated_state) result" where
  "tg_set_fee env fee_amount disposal s =
     bind_r (tg_load_config s) (\<lambda>config.
     bind_r (require_auth env (tg_admin config)) (\<lambda>_.
     bind_r (tg_check_fee fee_amount disposal) (\<lambda>_.
     Inr (Some (config\<lparr>tg_fee_amount := fee_amount, tg_fee_disposal := disposal\<rparr>)))))"

definition tg_balance_of ::
  "'w token_ops \<Rightarrow> 'w \<Rightarrow> token_gated_state \<Rightarrow> address \<Rightarrow> (token_gated_error, int) result" where
  "tg_balance_of ops w s account =
     bind_r (tg_load_config s) (\<lambda>config. or_trap (tok_balance ops (tg_token config) account w))"

definition is_eligible ::
  "'w token_ops \<Rightarrow> 'w \<Rightarrow> token_gated_state \<Rightarrow> address \<Rightarrow> (token_gated_error, bool) result" where
  "is_eligible ops w s account =
     bind_r (tg_load_config s) (\<lambda>config.
     bind_r (or_trap (tok_balance ops (tg_token config) account w)) (\<lambda>balance.
     Inr (balance \<ge> tg_min_balance config)))"

definition tg_charge ::
  "'w token_ops \<Rightarrow> ledger_env \<Rightarrow> token_gated_config \<Rightarrow> address \<Rightarrow> 'w \<Rightarrow> (token_gated_error, 'w) result" where
  "tg_charge ops env config attester w =
     (case tg_fee_disposal config of
        NoFee \<Rightarrow> Inr w
      | TransferFee \<Rightarrow>
          bind_r (or_trap (tok_balance ops (tg_token config) attester w)) (\<lambda>attester_balance.
          if attester_balance < tg_fee_amount config then Inl (Panic TgInsufficientFee)
          else or_trap (tok_transfer ops env (tg_token config) attester (tg_admin config) (tg_fee_amount config) w))
      | BurnFee \<Rightarrow>
          bind_r (or_trap (tok_balance ops (tg_token config) attester w)) (\<lambda>attester_balance.
          if attester_balance < tg_fee_amount config then Inl (Panic TgInsufficientFee)
          else or_trap (tok_burn ops env (tg_token config) attester (tg_fee_amount config) w)))"

definition token_gated_on_attest ::
  "'w token_ops \<Rightarrow> ledger_env \<Rightarrow> attestation \<Rightarrow> token_gated_state \<Rightarrow> 'w \<Rightarrow> (token_gated_error, 'w) result" where
  "token_gated_on_attest ops env a s w =
     bind_r (tg_load_config s) (\<lambda>config.
     bind_r (or_trap (tok_balance ops (tg_token config) (a_recipient a) w)) (\<lambda>recipient_balance.
     if recipient_balance < tg_min_balance config then Inl (Panic TgResolverRejected)
     else if tg_fee_amount config > 0
     then bind_r (require_auth env (a_attester a)) (\<lambda>_. tg_charge ops env config (a_attester a) w)
     else Inr w))"

definition token_gated_on_revoke :: "attestation \<Rightarrow> 'w \<Rightarrow> (token_gated_error, 'w) result" where
  "token_gated_on_revoke a w = Inr w"

section \<open>The multisig and endorsement resolvers\<close>

record endorsement =
  e_signer :: bytes32
  e_signature :: bytes64

record multisig_config =
  ms_threshold :: nat
  ms_signers :: "bytes32 list"

datatype multisig_error =
    MsNotInitialized | MsInvalidConfig | MsInvalidSignature | MsSignerNotAuthorized
  | MsDuplicateSignature | MsInsufficientSignatures

type_synonym multisig_state = "multisig_config option"

definition ms_require_config :: "multisig_state \<Rightarrow> (multisig_error, multisig_config) result" where
  "ms_require_config s = or_panic MsNotInitialized s"

definition ms_validate_config :: "nat \<Rightarrow> bytes32 list \<Rightarrow> (multisig_error, unit) result" where
  "ms_validate_config threshold signers =
     (if threshold = 0 \<or> signers = [] \<or> threshold > length signers then Inl (Panic MsInvalidConfig)
      else Inr ())"

text \<open>The \<^verbatim>\<open>while\<close> loop of \<^verbatim>\<open>parse_endorsements\<close>: 32 bytes of key and 64 of signature at a time.\<close>

function parse_loop :: "bytes \<Rightarrow> nat \<Rightarrow> endorsement list \<Rightarrow> (multisig_error, endorsement list) result" where
  "parse_loop payload offset endorsements =
     (if offset < length payload then
        if offset + 96 > length payload then Inl (Panic MsInvalidSignature)
        else parse_loop payload (offset + 96)
               (endorsements @ [\<lparr>e_signer = bytes32_of_array (take 32 (drop offset payload)),
                  e_signature = bytes64_of_array (take 64 (drop (offset + 32) payload))\<rparr>])
      else Inr endorsements)"
  by pat_completeness auto
termination
  by (relation "measure (\<lambda>(payload, offset, _). length payload - offset)") auto

declare parse_loop.simps [simp del]

definition parse_endorsements :: "bytes \<Rightarrow> (multisig_error, endorsement list) result" where
  "parse_endorsements payload =
     (if payload = [] then Inr []
      else if length payload mod 96 \<noteq> 0 then Inl (Panic MsInvalidSignature)
      else parse_loop payload 0 [])"

definition signer_is_authorized :: "multisig_config \<Rightarrow> bytes32 \<Rightarrow> bool" where
  "signer_is_authorized config signer = list_ex (\<lambda>allowed. allowed = signer) (ms_signers config)"

definition attestation_without_endorsements :: "attestation \<Rightarrow> attestation" where
  "attestation_without_endorsements a = a\<lparr>a_data := []\<rparr>"

text \<open>
  \<open>vk\<close> is the check of \<^verbatim>\<open>ed25519_dalek\<close>: the key decodes to a point and the signature verifies over the
  32 digest bytes.
\<close>

type_synonym verifying_key = "bytes32 \<Rightarrow> bytes \<Rightarrow> bytes64 \<Rightarrow> bool"

definition verify_payload_signature ::
  "verifying_key \<Rightarrow> bytes32 \<Rightarrow> bytes64 \<Rightarrow> bytes32 \<Rightarrow> (multisig_error, unit) result" where
  "verify_payload_signature vk signer signature dg =
     (if vk signer (bytes32_to_array dg) signature then Inr () else Inl (Panic MsInvalidSignature))"

primrec endorsement_loop ::
  "verifying_key \<Rightarrow> multisig_config \<Rightarrow> bytes32 \<Rightarrow> endorsement list \<Rightarrow> bytes32 list \<Rightarrow> nat \<Rightarrow> (multisig_error, nat) result" where
  "endorsement_loop vk config dg [] seen valid_count = Inr valid_count"
| "endorsement_loop vk config dg (e # es) seen valid_count =
     (let signer = e_signer e in
      if list_ex (\<lambda>existing. existing = signer) seen then endorsement_loop vk config dg es seen valid_count
      else if \<not> signer_is_authorized config signer then Inl (Panic MsSignerNotAuthorized)
      else bind_r (verify_payload_signature vk signer (e_signature e) dg) (\<lambda>_.
        bind_r (add_u32 valid_count 1) (\<lambda>n. endorsement_loop vk config dg es (seen @ [signer]) n)))"

definition resolve_valid_count ::
  "host \<Rightarrow> verifying_key \<Rightarrow> attestation \<Rightarrow> multisig_config \<Rightarrow> (multisig_error, nat) result" where
  "resolve_valid_count h vk a config =
     bind_r (parse_endorsements (a_data a)) (\<lambda>endorsements.
     let dg = hash_attestation_struct h (attestation_without_endorsements a) in
     bind_r (endorsement_loop vk config dg endorsements [] 0) (\<lambda>valid_count.
     if valid_count < ms_threshold config then Inl (Panic MsInsufficientSignatures)
     else Inr valid_count))"

definition check_approval ::
  "host \<Rightarrow> verifying_key \<Rightarrow> attestation \<Rightarrow> multisig_state \<Rightarrow> (multisig_error, unit) result" where
  "check_approval h vk a s =
     bind_r (ms_require_config s) (\<lambda>config.
     bind_r (resolve_valid_count h vk a config) (\<lambda>_. Inr ()))"

definition ms_init :: "nat \<Rightarrow> bytes32 list \<Rightarrow> multisig_state \<Rightarrow> (multisig_error, multisig_state) result" where
  "ms_init threshold signers s =
     bind_r (ms_validate_config threshold signers) (\<lambda>_.
     Inr (Some \<lparr>ms_threshold = threshold, ms_signers = signers\<rparr>))"

definition ms_set_threshold :: "nat \<Rightarrow> multisig_state \<Rightarrow> (multisig_error, multisig_state) result" where
  "ms_set_threshold threshold s =
     bind_r (ms_require_config s) (\<lambda>config.
     bind_r (ms_validate_config threshold (ms_signers config)) (\<lambda>_.
     Inr (Some (config\<lparr>ms_threshold := threshold\<rparr>))))"

definition ms_set_signers :: "bytes32 list \<Rightarrow> multisig_state \<Rightarrow> (multisig_error, multisig_state) result" where
  "ms_set_signers signers s =
     bind_r (ms_require_config s) (\<lambda>config.
     bind_r (ms_validate_config (ms_threshold config) signers) (\<lambda>_.
     Inr (Some (config\<lparr>ms_signers := signers\<rparr>))))"

definition verify_endorsements ::
  "host \<Rightarrow> verifying_key \<Rightarrow> attestation \<Rightarrow> multisig_state \<Rightarrow> (multisig_error, nat) result" where
  "verify_endorsements h vk a s = bind_r (ms_require_config s) (resolve_valid_count h vk a)"

definition multisig_on_attest ::
  "host \<Rightarrow> verifying_key \<Rightarrow> attestation \<Rightarrow> multisig_state \<Rightarrow> (multisig_error, multisig_state) result" where
  "multisig_on_attest h vk a s = bind_r (check_approval h vk a s) (\<lambda>_. Inr s)"

definition multisig_on_revoke ::
  "host \<Rightarrow> verifying_key \<Rightarrow> attestation \<Rightarrow> multisig_state \<Rightarrow> (multisig_error, multisig_state) result" where
  "multisig_on_revoke h vk a s = bind_r (check_approval h vk a s) (\<lambda>_. Inr s)"

end
