(* ===== verification/Resolver_Props.thy ===== *)
theory Resolver_Props
  imports Resolvers Samples
begin

text \<open>
  What the resolvers guarantee: the cooldown between issuances of the time-window resolver over any run
  of the contract, and the exact acceptance condition of the multisig resolver.
\<close>

section \<open>The cooldown\<close>

text \<open>
  The states a time-window resolver reaches while ledger time does not run backwards, with the issuances
  it accepted: recipient, time, and the cooldown then in force.
\<close>

inductive tw_run :: "u64 \<Rightarrow> time_window_state \<Rightarrow> (address \<times> u64 \<times> u64) list \<Rightarrow> bool" where
  tw_deployed: "tw_run now \<lparr>tw_config = None, tw_last_attested = Map.empty, tw_events = []\<rparr> []"
| tw_initialised: "tw_run now s l \<Longrightarrow> now \<le> timestamp env \<Longrightarrow> tw_init env admin c s = Inr s' \<Longrightarrow>
    tw_run (timestamp env) s' l"
| tw_configured: "tw_run now s l \<Longrightarrow> now \<le> timestamp env \<Longrightarrow>
    set_cooldown_period_seconds env authorizer c s = Inr s' \<Longrightarrow> tw_run (timestamp env) s' l"
| tw_accepted: "tw_run now s l \<Longrightarrow> now \<le> timestamp env \<Longrightarrow> time_window_on_attest env a s = Inr s' \<Longrightarrow>
    get_cooldown_period_seconds s = Inr c \<Longrightarrow> tw_run (timestamp env) s' (l @ [(a_recipient a, timestamp env, c)])"

definition cooled_down :: "address \<times> u64 \<times> u64 \<Rightarrow> address \<times> u64 \<times> u64 \<Rightarrow> bool" where
  "cooled_down = (\<lambda>(r, t, _) (r', t', c'). r = r' \<longrightarrow> c' = 0 \<or> saturating_add_u64 t c' \<le> t')"

lemma saturating_add_u64_mono: "a \<le> b \<Longrightarrow> saturating_add_u64 a c \<le> saturating_add_u64 b c"
proof (cases "unat b + unat c < 2 ^ 64")
  case True
  assume "a \<le> b"
  then have "unat a \<le> unat b"
    by (simp add: word_le_nat_alt)
  moreover have "unat (x + y) = unat x + unat y" if "unat x + unat y < 2 ^ 64" for x y :: u64
    using that by (simp add: unat_word_ariths)
  ultimately show ?thesis
    using True by (simp add: saturating_add_u64_def word_le_nat_alt)
next
  case False
  then show ?thesis
    by (simp add: saturating_add_u64_def)
qed

definition tw_inv :: "u64 \<Rightarrow> time_window_state \<Rightarrow> (address \<times> u64 \<times> u64) list \<Rightarrow> bool" where
  "tw_inv now s l \<longleftrightarrow> sorted_wrt cooled_down l \<and> (\<forall>r t c. (r, t, c) \<in> set l \<longrightarrow> t \<le> now) \<and>
     (\<forall>r t c. (r, t, c) \<in> set l \<longrightarrow> (\<exists>t'. tw_last_attested s r = Some t' \<and> t \<le> t')) \<and>
     (\<forall>r t. tw_last_attested s r = Some t \<longrightarrow> (\<exists>c. (r, t, c) \<in> set l))"

lemma time_window_on_attest_Inr_iff:
  "time_window_on_attest env a s = Inr s' \<longleftrightarrow>
   (\<exists>c. get_cooldown_period_seconds s = Inr c \<and>
     (c = 0 \<or> (\<forall>t. tw_last_attested s (a_recipient a) = Some t \<longrightarrow> saturating_add_u64 t c \<le> timestamp env)) \<and>
     s' = s\<lparr>tw_last_attested := (tw_last_attested s)(a_recipient a \<mapsto> timestamp env)\<rparr>)"
  by (auto simp: time_window_on_attest_def result_iff Let_def not_less split: option.splits)

lemma tw_inv_waiting:
  assumes "tw_inv now s l"
  shows "(\<forall>t. tw_last_attested s r = Some t \<longrightarrow> saturating_add_u64 t c \<le> time) \<longleftrightarrow>
    (\<forall>t c'. (r, t, c') \<in> set l \<longrightarrow> saturating_add_u64 t c \<le> time)"
proof (intro iffI allI impI)
  fix t c'
  assume all: "\<forall>t. tw_last_attested s r = Some t \<longrightarrow> saturating_add_u64 t c \<le> time" and "(r, t, c') \<in> set l"
  with assms obtain t' where "tw_last_attested s r = Some t'" and "t \<le> t'"
    unfolding tw_inv_def by blast
  with all saturating_add_u64_mono [of t t' c] show "saturating_add_u64 t c \<le> time"
    by (blast intro: order_trans)
next
  fix t
  assume "\<forall>t c'. (r, t, c') \<in> set l \<longrightarrow> saturating_add_u64 t c \<le> time" and "tw_last_attested s r = Some t"
  with assms show "saturating_add_u64 t c \<le> time"
    unfolding tw_inv_def by blast
qed

lemma tw_inv_mono: "tw_inv now s l \<Longrightarrow> now \<le> now' \<Longrightarrow> tw_last_attested s' = tw_last_attested s \<Longrightarrow> tw_inv now' s' l"
  unfolding tw_inv_def by (auto intro: order_trans)

lemma tw_inv_accept:
  assumes "tw_inv now s l" and "now \<le> time"
    and "c = 0 \<or> (\<forall>t c'. (r, t, c') \<in> set l \<longrightarrow> saturating_add_u64 t c \<le> time)"
  shows "tw_inv time (s\<lparr>tw_last_attested := (tw_last_attested s)(r \<mapsto> time)\<rparr>) (l @ [(r, time, c)])"
proof -
  have "t \<le> time" if "(r', t, c') \<in> set l" for r' t c'
    using assms(1,2) that unfolding tw_inv_def by (blast intro: order_trans)
  moreover have "cooled_down e (r, time, c)" if "e \<in> set l" for e
    using assms(3) that by (cases e) (auto simp: cooled_down_def)
  ultimately show ?thesis
    using assms(1) by (auto simp: tw_inv_def sorted_wrt_append)
qed

lemma tw_run_inv: "tw_run now s l \<Longrightarrow> tw_inv now s l"
proof (induction rule: tw_run.induct)
  case (tw_deployed now)
  then show ?case
    by (simp add: tw_inv_def)
next
  case (tw_initialised now s l env admin c s')
  then show ?case
    by (auto intro: tw_inv_mono simp: tw_init_def result_iff)
next
  case (tw_configured now s l env authorizer c s')
  then show ?case
    by (auto intro: tw_inv_mono simp: set_cooldown_period_seconds_def result_iff)
next
  case (tw_accepted now s l env a s' c)
  then show ?case
    using tw_inv_accept [of now s l "timestamp env" c "a_recipient a"] tw_inv_waiting [of now s l "a_recipient a" c "timestamp env"]
    by (auto simp: time_window_on_attest_Inr_iff simp del: split_paired_All)
qed

text \<open>
  C38: The cooldown is enforced, and nothing else is. While ledger time does not run backwards, over any
  sequence of issuances and changes of the cooldown, each accepted issuance to a recipient came no
  earlier than the cooldown then in force after every previous one to the same recipient, with sums that
  would overflow replaced by the largest time. The next issuance is accepted if and only if the cooldown
  is zero or has passed since every accepted issuance to that recipient, whatever happened to others.
\<close>

theorem cooldown_enforced:
  assumes "tw_run now s l" and "now \<le> timestamp env" and "get_cooldown_period_seconds s = Inr c"
  shows "sorted_wrt (\<lambda>(r, t, _) (r', t', c'). r = r' \<longrightarrow> c' = 0 \<or> saturating_add_u64 t c' \<le> t') l \<and>
    (is_ok (time_window_on_attest env a s) \<longleftrightarrow>
       c = 0 \<or> (\<forall>(r, t, _) \<in> set l. r = a_recipient a \<longrightarrow> saturating_add_u64 t c \<le> timestamp env))"
proof -
  note inv = tw_run_inv [OF assms(1)]
  have "is_ok (time_window_on_attest env a s) \<longleftrightarrow>
      c = 0 \<or> (\<forall>t c'. (a_recipient a, t, c') \<in> set l \<longrightarrow> saturating_add_u64 t c \<le> timestamp env)"
    using tw_inv_waiting [OF inv, of "a_recipient a" c "timestamp env"] assms(3)
    by (auto simp: is_ok_iff time_window_on_attest_Inr_iff)
  moreover have "sorted_wrt cooled_down l"
    using inv by (simp add: tw_inv_def)
  ultimately show ?thesis
    unfolding cooled_down_def by blast
qed

definition sample_window :: time_window_state where
  "sample_window = \<lparr>tw_config = Some \<lparr>tw_admin = Account 1, tw_cooldown_period_seconds = 200\<rparr>,
     tw_last_attested = [Account 5 \<mapsto> 900], tw_events = []\<rparr>"

lemma sample_window_run: "tw_run 900 sample_window [(Account 5, 900, 200)]"
proof -
  have "tw_run 900 \<lparr>tw_config = Some \<lparr>tw_admin = Account 1, tw_cooldown_period_seconds = 200\<rparr>,
     tw_last_attested = Map.empty, tw_events = []\<rparr> []"
    using tw_initialised [OF tw_deployed [of 900], of earlier_env "Account 1" 200]
    by (simp add: tw_init_def require_auth_def earlier_env_def sample_env_def)
  from tw_accepted [OF this, of earlier_env "sample_new 3" sample_window 200] show ?thesis
    by (simp add: time_window_on_attest_def get_cooldown_period_seconds_def tw_read_config_def
        earlier_env_def sample_env_def sample_new_def sample_window_def)
qed

theorem cooldown_enforced_witness:
  "\<not> is_ok (time_window_on_attest sample_env (sample_new 3) sample_window) \<and>
   is_ok (time_window_on_attest sample_env ((sample_new 3)\<lparr>a_recipient := Account 6\<rparr>) sample_window)"
  using cooldown_enforced [OF sample_window_run, of sample_env 200 "sample_new 3"]
    cooldown_enforced [OF sample_window_run, of sample_env 200 "(sample_new 3)\<lparr>a_recipient := Account 6\<rparr>"]
  by (simp add: get_cooldown_period_seconds_def tw_read_config_def sample_window_def sample_env_def sample_new_def
      saturating_add_u64_def)

section \<open>Endorsements\<close>

text \<open>The payload format: 32 bytes of key and 64 bytes of signature per endorsement.\<close>

definition encode_endorsements :: "endorsement list \<Rightarrow> bytes" where
  "encode_endorsements es = concat (map (\<lambda>e. bytes32_to_array (e_signer e) @ bytes64_to_array (e_signature e)) es)"

lemma length_encode_endorsements [simp]: "length (encode_endorsements es) = 96 * length es"
  by (induction es) (simp_all add: encode_endorsements_def)

lemma encode_endorsements_Cons:
  "encode_endorsements (e # es) = bytes32_to_array (e_signer e) @ bytes64_to_array (e_signature e) @ encode_endorsements es"
  by (simp add: encode_endorsements_def)

lemma parse_loop_encode: "parse_loop (pre @ encode_endorsements es) (length pre) acc = Inr (acc @ es)"
proof (induction es arbitrary: pre acc)
  case Nil
  then show ?case
    by (subst parse_loop.simps) (simp add: encode_endorsements_def)
next
  case (Cons e es)
  let ?e = "bytes32_to_array (e_signer e) @ bytes64_to_array (e_signature e)"
  from Cons.IH [of "pre @ ?e" "acc @ [e]"] show ?case
    by (cases e) (subst parse_loop.simps, simp add: encode_endorsements_Cons)
qed

lemma endorsements_cover:
  "length payload = 96 * n \<Longrightarrow> \<exists>es. payload = encode_endorsements es"
proof (induction n arbitrary: payload)
  case 0
  then show ?case
    by (intro exI [of _ "[]"]) (simp add: encode_endorsements_def)
next
  case (Suc n)
  have "length (drop 96 payload) = 96 * n"
    using Suc.prems by simp
  then obtain es where "drop 96 payload = encode_endorsements es"
    using Suc.IH by blast
  moreover have "take 32 payload @ take 64 (drop 32 payload) @ drop 96 payload = payload"
    using append_take_drop_id [of 64 "drop 32 payload"] by (simp add: drop_drop)
  ultimately have "payload = encode_endorsements (\<lparr>e_signer = bytes32_of_array (take 32 payload),
      e_signature = bytes64_of_array (take 64 (drop 32 payload))\<rparr> # es)"
    using Suc.prems by (simp add: encode_endorsements_Cons bytes32_to_of_array bytes64_to_of_array)
  then show ?case
    by blast
qed

lemma parse_endorsements_encode: "parse_endorsements (encode_endorsements es) = Inr es"
  using parse_loop_encode [of "[]" es "[]"]
  by (cases es) (auto simp: parse_endorsements_def encode_endorsements_def [of "[]"] encode_endorsements_Cons
      simp flip: length_0_conv)

lemma parse_endorsements_Inr_iff: "parse_endorsements p = Inr es \<longleftrightarrow> p = encode_endorsements es"
proof
  assume parsed: "parse_endorsements p = Inr es"
  then have "length p mod 96 = 0"
    by (auto simp: parse_endorsements_def split: if_splits)
  then obtain es' where "p = encode_endorsements es'"
    using endorsements_cover [of p "length p div 96"] by (auto simp: mult.commute)
  with parsed parse_endorsements_encode [of es'] show "p = encode_endorsements es"
    by simp
qed (simp add: parse_endorsements_encode)

lemma encode_endorsements_inject [simp]: "encode_endorsements es = encode_endorsements es' \<longleftrightarrow> es = es'"
  by (metis parse_endorsements_encode sum.inject(2))

text \<open>The first endorsement of each signer; the contract skips the later ones.\<close>

primrec first_endorsements :: "bytes32 list \<Rightarrow> endorsement list \<Rightarrow> endorsement list" where
  "first_endorsements seen [] = []"
| "first_endorsements seen (e # es) =
     (if e_signer e \<in> set seen then first_endorsements seen es
      else e # first_endorsements (seen @ [e_signer e]) es)"

lemma first_endorsements_signers:
  "e_signer ` set (first_endorsements seen es) = e_signer ` set es - set seen \<and>
   distinct (map e_signer (first_endorsements seen es))"
  by (induction es arbitrary: seen) auto

lemma length_first_endorsements: "length (first_endorsements [] es) = card (e_signer ` set es)"
  using first_endorsements_signers [of "[]" es] distinct_card [of "map e_signer (first_endorsements [] es)"] by simp

definition endorsement_valid :: "verifying_key \<Rightarrow> multisig_config \<Rightarrow> bytes32 \<Rightarrow> endorsement \<Rightarrow> bool" where
  "endorsement_valid vk config dg e \<longleftrightarrow>
     e_signer e \<in> set (ms_signers config) \<and> vk (e_signer e) (bytes32_to_array dg) (e_signature e)"

lemma list_ex_eq_iff [simp]: "list_ex (\<lambda>y. y = x) xs \<longleftrightarrow> x \<in> set xs"
  by (induction xs) auto

lemma endorsement_loop_Inr_iff:
  "n + length es \<le> u32_max \<Longrightarrow> endorsement_loop vk config dg es seen n = Inr m \<longleftrightarrow>
   (\<forall>e \<in> set (first_endorsements seen es). endorsement_valid vk config dg e) \<and>
   m = n + length (first_endorsements seen es)"
proof (induction es arbitrary: seen n)
  case (Cons e es)
  then show ?case
    by (auto simp: signer_is_authorized_def verify_payload_signature_def endorsement_valid_def result_iff
        Let_def add_u32_def)
qed auto

lemma check_approval_iff:
  assumes "length (a_data a) \<le> u32_max"
  shows "is_ok (check_approval h vk a (Some config)) \<longleftrightarrow>
    (\<exists>es. a_data a = encode_endorsements es \<and> ms_threshold config \<le> card (e_signer ` set es) \<and>
      (\<forall>e \<in> set (first_endorsements [] es).
         endorsement_valid vk config (hash_attestation_struct h (a\<lparr>a_data := []\<rparr>)) e))"
proof (cases "\<exists>es. a_data a = encode_endorsements es")
  case True
  then obtain es where es: "a_data a = encode_endorsements es"
    by blast
  with assms have "0 + length es \<le> u32_max"
    by simp
  from endorsement_loop_Inr_iff [OF this] show ?thesis
    by (auto simp: es check_approval_def ms_require_config_def resolve_valid_count_def parse_endorsements_encode
        is_ok_iff result_iff Let_def attestation_without_endorsements_def not_less length_first_endorsements)
next
  case False
  then show ?thesis
    by (auto simp: check_approval_def ms_require_config_def resolve_valid_count_def parse_endorsements_Inr_iff
        is_ok_iff result_iff)
qed
lemma multisig_hooks_iff:
  "is_ok (multisig_on_attest h vk a s) \<longleftrightarrow> is_ok (check_approval h vk a s)"
  "is_ok (multisig_on_revoke h vk a s) \<longleftrightarrow> is_ok (check_approval h vk a s)"
  by (auto simp: multisig_on_attest_def multisig_on_revoke_def is_ok_iff result_iff)

text \<open>
  C20: The multisig resolver accepts exactly the threshold-endorsed attestations. An issuance is accepted
  if and only if its data is a list of endorsements whose distinct signers reach the threshold, and the
  first endorsement of every signer comes from a configured key and verifies over the digest of the
  attestation with its data left out. Distinct configured keys have to reach the threshold, so a signer
  list that only reaches it by repeating keys accepts nothing.
\<close>

theorem endorsements_exact:
  assumes "length (a_data a) \<le> MAX_ATTESTATION_DATA_BYTES"
  shows "(is_ok (multisig_on_attest h vk a (Some config)) \<longleftrightarrow>
     (\<exists>es. a_data a = encode_endorsements es \<and> ms_threshold config \<le> card (e_signer ` set es) \<and>
       (\<forall>e \<in> set (first_endorsements [] es). e_signer e \<in> set (ms_signers config) \<and>
          vk (e_signer e) (bytes32_to_array (hash_attestation_struct h (a\<lparr>a_data := []\<rparr>))) (e_signature e)))) \<and>
    (is_ok (multisig_on_attest h vk a (Some config)) \<longrightarrow> ms_threshold config \<le> card (set (ms_signers config)))"
proof -
  have "length (a_data a) \<le> u32_max"
    using assms by (simp add: MAX_ATTESTATION_DATA_BYTES_def u32_max_def)
  note exact = check_approval_iff [OF this, of h vk config, folded multisig_hooks_iff(1), unfolded endorsement_valid_def]
  have "card (e_signer ` set es) \<le> card (set (ms_signers config))"
    if "\<forall>e \<in> set (first_endorsements [] es). e_signer e \<in> set (ms_signers config)" for es
  proof -
    have "e_signer ` set es \<subseteq> set (ms_signers config)"
      using that first_endorsements_signers [of "[]" es] by (metis Diff_empty image_subsetI list.set(1))
    then show ?thesis
      by (intro card_mono) auto
  qed
  with exact show ?thesis
    by (meson order_trans)
qed

definition sample_endorsement :: endorsement where
  "sample_endorsement = \<lparr>e_signer = 4, e_signature = 8\<rparr>"

definition endorsed :: attestation where
  "endorsed = (sample_new 3)\<lparr>a_data := encode_endorsements [sample_endorsement]\<rparr>"

theorem endorsements_exact_witness:
  "is_ok (multisig_on_attest toy_host (\<lambda>key m sig. key = 4) endorsed (Some \<lparr>ms_threshold = 1, ms_signers = [3, 4]\<rparr>))"
  using endorsements_exact [of endorsed toy_host "\<lambda>key m sig. key = 4" "\<lparr>ms_threshold = 1, ms_signers = [3, 4]\<rparr>"]
  by (simp add: endorsed_def sample_endorsement_def MAX_ATTESTATION_DATA_BYTES_def)

text \<open>
  The digest covers the issuance time, which SAS replaces by the ledger time after \<^verbatim>\<open>on_attest\<close> and before
  any later \<^verbatim>\<open>on_revoke\<close>. So the endorsements of an attestation that was submitted with another time do
  not carry over to its revocation.
\<close>

lemma hash_attestation_struct_time:
  "hash_attestation_struct h a = hash_attestation_struct h b \<Longrightarrow> a_time a \<noteq> a_time b \<Longrightarrow>
   sha256_collision h (attestation_struct_preimage h a) (attestation_struct_preimage h b)"
  by (auto simp: hash_attestation_struct_def sha256_collision_def) (simp add: attestation_struct_preimage_def)

text \<open>
  C39: Endorsements do not survive issuance unless they are made for the ledger time. Suppose the
  multisig resolver accepts an attestation and later accepts the revocation of its stored record, whose
  issuance time SAS has set to the ledger time. If that differs from the time the attestation was
  submitted with, then some endorsement in it verifies over the digest of the submitted attestation and
  over the different digest of the stored one, or SHA-256 collides on the two encodings.
\<close>

theorem endorsed_revocation_blocked:
  assumes "multisig_on_attest h vk a (Some config) = Inr s"
    and "multisig_on_revoke h vk (a\<lparr>a_time := issued_at, a_revocation_time := revoked_at\<rparr>) (Some config) = Inr s'"
    and "length (a_data a) \<le> MAX_ATTESTATION_DATA_BYTES" and "0 < ms_threshold config" and "issued_at \<noteq> a_time a"
  shows "(\<exists>es e. a_data a = encode_endorsements es \<and> e \<in> set es \<and>
      hash_attestation_struct h (a\<lparr>a_data := []\<rparr>)
        \<noteq> hash_attestation_struct h (a\<lparr>a_data := [], a_time := issued_at, a_revocation_time := revoked_at\<rparr>) \<and>
      vk (e_signer e) (bytes32_to_array (hash_attestation_struct h (a\<lparr>a_data := []\<rparr>))) (e_signature e) \<and>
      vk (e_signer e) (bytes32_to_array (hash_attestation_struct h
        (a\<lparr>a_data := [], a_time := issued_at, a_revocation_time := revoked_at\<rparr>))) (e_signature e)) \<or>
    sha256_collision h (attestation_struct_preimage h (a\<lparr>a_data := []\<rparr>))
      (attestation_struct_preimage h (a\<lparr>a_data := [], a_time := issued_at, a_revocation_time := revoked_at\<rparr>))"
proof -
  let ?b = "a\<lparr>a_time := issued_at, a_revocation_time := revoked_at\<rparr>"
  let ?d = "hash_attestation_struct h (a\<lparr>a_data := []\<rparr>)" and ?d' = "hash_attestation_struct h (?b\<lparr>a_data := []\<rparr>)"
  have len: "length (a_data a) \<le> u32_max" "length (a_data ?b) \<le> u32_max"
    using assms(3) by (simp_all add: MAX_ATTESTATION_DATA_BYTES_def u32_max_def)
  have "is_ok (check_approval h vk a (Some config))" "is_ok (check_approval h vk ?b (Some config))"
    using assms(1,2) multisig_hooks_iff [of h vk] by (metis is_ok_simps(2))+
  with check_approval_iff [OF len(1), of h vk config] check_approval_iff [OF len(2), of h vk config] obtain es where
    es: "a_data a = encode_endorsements es" "ms_threshold config \<le> card (e_signer ` set es)"
    and valid: "\<forall>e \<in> set (first_endorsements [] es). endorsement_valid vk config ?d e \<and> endorsement_valid vk config ?d' e"
    by auto
  have "first_endorsements [] es \<noteq> []"
    using es(2) assms(4) length_first_endorsements [of es] by auto
  then obtain e where e: "e \<in> set (first_endorsements [] es)"
    by (cases "first_endorsements [] es") auto
  have "set (first_endorsements seen es) \<subseteq> set es" for seen
    by (induction es arbitrary: seen) auto
  with e have "e \<in> set es"
    by blast
  moreover have "vk (e_signer e) (bytes32_to_array ?d) (e_signature e)" "vk (e_signer e) (bytes32_to_array ?d') (e_signature e)"
    using valid e by (auto simp: endorsement_valid_def)
  moreover have "?d \<noteq> ?d' \<or> sha256_collision h (attestation_struct_preimage h (a\<lparr>a_data := []\<rparr>))
      (attestation_struct_preimage h (a\<lparr>a_data := [], a_time := issued_at, a_revocation_time := revoked_at\<rparr>))"
    using assms(5) hash_attestation_struct_time [of h "a\<lparr>a_data := []\<rparr>" "?b\<lparr>a_data := []\<rparr>"]
    by (cases a) auto
  moreover have "?b\<lparr>a_data := []\<rparr> = a\<lparr>a_data := [], a_time := issued_at, a_revocation_time := revoked_at\<rparr>"
    by (cases a) simp
  ultimately show ?thesis
    using es(1) by metis
qed

theorem endorsed_revocation_blocked_witness:
  "\<exists>s s'. multisig_on_attest toy_host (\<lambda>key m sig. key = 4) endorsed (Some \<lparr>ms_threshold = 1, ms_signers = [4]\<rparr>) = Inr s \<and>
     multisig_on_revoke toy_host (\<lambda>key m sig. key = 4) (endorsed\<lparr>a_time := 900, a_revocation_time := 1000\<rparr>)
       (Some \<lparr>ms_threshold = 1, ms_signers = [4]\<rparr>) = Inr s' \<and>
     ((\<exists>es e. a_data endorsed = encode_endorsements es \<and> e \<in> set es \<and> e_signer e = 4) \<or>
      sha256_collision toy_host (attestation_struct_preimage toy_host (endorsed\<lparr>a_data := []\<rparr>))
        (attestation_struct_preimage toy_host (endorsed\<lparr>a_data := [], a_time := 900, a_revocation_time := 1000\<rparr>)))"
proof -
  let ?vk = "\<lambda>key m sig. key = (4 :: bytes32)" and ?c = "\<lparr>ms_threshold = 1, ms_signers = [4]\<rparr>"
  let ?b = "endorsed\<lparr>a_time := 900, a_revocation_time := 1000\<rparr>"
  have len: "length (a_data endorsed) \<le> u32_max" "length (a_data ?b) \<le> u32_max"
    by (simp_all add: endorsed_def u32_max_def)
  have "is_ok (check_approval toy_host ?vk endorsed (Some ?c))" "is_ok (check_approval toy_host ?vk ?b (Some ?c))"
    using check_approval_iff [OF len(1), of toy_host ?vk ?c] check_approval_iff [OF len(2), of toy_host ?vk ?c]
    by (simp_all add: endorsed_def sample_endorsement_def endorsement_valid_def)
  then obtain s s' where ok: "multisig_on_attest toy_host ?vk endorsed (Some ?c) = Inr s"
      "multisig_on_revoke toy_host ?vk ?b (Some ?c) = Inr s'"
    using multisig_hooks_iff [of toy_host ?vk] by (metis is_ok_iff)
  from endorsed_revocation_blocked [OF ok] show ?thesis
    using ok by (force simp: endorsed_def sample_new_def MAX_ATTESTATION_DATA_BYTES_def)
qed


end
