(* ===== verification/Protocol.thy ===== *)
theory Protocol
  imports Sas_Entry Registry_Life Indexer_Props Resolver_Props
begin

text \<open>
  The contracts put together. SAS calls the schema registry, the schema's resolver and the indexer through
  the record \<open>externs\<close>; here that record is built from the models of those contracts, deployed at fixed
  addresses. Two locales state what SAS relies on, one for the registry and one for the indexer, and are
  interpreted on the deployed contracts; the properties of issuance and revocation across contracts follow.
\<close>

section \<open>The deployed contracts\<close>

datatype resolver =
    PermissiveResolver
  | BlacklistResolver blacklist_state
  | TimeWindowResolver time_window_state
  | TokenGatedResolver token_gated_state
  | MultisigResolver multisig_state

record 't world =
  w_registry :: reg_state
  w_indexer :: idx_state
  w_resolvers :: "address \<rightharpoonup> resolver"
  w_tokens :: 't

record 't deployment =
  dp_registry :: address
  dp_indexer :: address
  dp_vk :: verifying_key
  dp_tokens :: "'t token_ops"

text \<open>
  A contract that SAS calls runs at its own address, and a \<^verbatim>\<open>require_auth\<close> for SAS itself succeeds there
  because SAS is the direct caller.
\<close>

definition called :: "ledger_env \<Rightarrow> address \<Rightarrow> ledger_env" where
  "called env callee = env\<lparr>current_contract := callee,
     authorized := (\<lambda>who. who = current_contract env \<or> authorized env who)\<rparr>"

definition ok_option :: "('e, 'a) result \<Rightarrow> 'a option" where
  "ok_option r = (case r of Inl _ \<Rightarrow> None | Inr x \<Rightarrow> Some x)"

definition resolver_on_attest ::
  "host \<Rightarrow> 't deployment \<Rightarrow> ledger_env \<Rightarrow> attestation \<Rightarrow> resolver \<Rightarrow> 't \<Rightarrow> (resolver \<times> 't) option" where
  "resolver_on_attest h d env a r t =
     (case r of
        PermissiveResolver \<Rightarrow> map_option (\<lambda>_. (r, t)) (ok_option (permissive_on_attest a ()))
      | BlacklistResolver s \<Rightarrow> map_option (\<lambda>s. (BlacklistResolver s, t)) (ok_option (blacklist_on_attest a s))
      | TimeWindowResolver s \<Rightarrow> map_option (\<lambda>s. (TimeWindowResolver s, t)) (ok_option (time_window_on_attest env a s))
      | TokenGatedResolver s \<Rightarrow> map_option (\<lambda>t. (r, t)) (ok_option (token_gated_on_attest (dp_tokens d) env a s t))
      | MultisigResolver s \<Rightarrow> map_option (\<lambda>s. (MultisigResolver s, t)) (ok_option (multisig_on_attest h (dp_vk d) a s)))"

definition resolver_on_revoke ::
  "host \<Rightarrow> 't deployment \<Rightarrow> attestation \<Rightarrow> resolver \<Rightarrow> 't \<Rightarrow> (resolver \<times> 't) option" where
  "resolver_on_revoke h d a r t =
     (case r of
        PermissiveResolver \<Rightarrow> map_option (\<lambda>_. (r, t)) (ok_option (permissive_on_revoke a ()))
      | BlacklistResolver s \<Rightarrow> map_option (\<lambda>s. (BlacklistResolver s, t)) (ok_option (blacklist_on_revoke a s))
      | TimeWindowResolver s \<Rightarrow> map_option (\<lambda>s. (TimeWindowResolver s, t)) (ok_option (time_window_on_revoke a s))
      | TokenGatedResolver s \<Rightarrow> map_option (\<lambda>t. (r, t)) (ok_option (token_gated_on_revoke a t))
      | MultisigResolver s \<Rightarrow> map_option (\<lambda>s. (MultisigResolver s, t)) (ok_option (multisig_on_revoke h (dp_vk d) a s)))"

definition call_resolver ::
  "(resolver \<Rightarrow> 't \<Rightarrow> (resolver \<times> 't) option) \<Rightarrow> address \<Rightarrow> 't world \<Rightarrow> 't world option" where
  "call_resolver hook addr w =
     (case w_resolvers w addr of
        None \<Rightarrow> None
      | Some r \<Rightarrow> map_option (\<lambda>(r', t'). w\<lparr>w_resolvers := (w_resolvers w)(addr \<mapsto> r'), w_tokens := t'\<rparr>)
                    (hook r (w_tokens w)))"

definition call_registry :: "'t deployment \<Rightarrow> address \<Rightarrow> (reg_state \<Rightarrow> 'a) \<Rightarrow> 't world \<Rightarrow> 'a option" where
  "call_registry d addr query w = (if addr = dp_registry d then Some (query (w_registry w)) else None)"

definition call_indexer ::
  "'t deployment \<Rightarrow> address \<Rightarrow> (idx_state \<Rightarrow> idx_state sas_result) \<Rightarrow> 't world \<Rightarrow> 't world option" where
  "call_indexer d addr call w =
     (if addr = dp_indexer d then map_option (\<lambda>s. w\<lparr>w_indexer := s\<rparr>) (ok_option (call (w_indexer w))) else None)"

text \<open>
  The registry answers its probe \<^verbatim>\<open>sasreg\<close>. The indexer has no \<^verbatim>\<open>handle_renew\<close> and the proof verifier no
  \<^verbatim>\<open>verify_proof\<close>, so these calls fail.
\<close>

definition protocol_externs :: "host \<Rightarrow> 't deployment \<Rightarrow> 't world externs" where
  "protocol_externs h d = \<lparr>
     x_sasreg_upper = (\<lambda>env addr w. None),
     x_sasreg_lower = (\<lambda>env addr w. call_registry d addr (\<lambda>_. True) w),
     x_get_schema = (\<lambda>env addr u w. call_registry d addr (\<lambda>s. get_schema s u) w),
     x_is_schema_quarantined = (\<lambda>env addr u w. call_registry d addr (\<lambda>s. is_schema_quarantined s u) w),
     x_get_max_ttl = (\<lambda>env addr u w. call_registry d addr (\<lambda>s. get_max_ttl s u) w),
     x_is_authorized = (\<lambda>env addr u who w. call_registry d addr (\<lambda>s. is_authorized (called env addr) s u who) w),
     x_is_attester_authorized = (\<lambda>env addr u who w. call_registry d addr (\<lambda>s. is_attester_authorized s u who) w),
     x_is_schema_restricted = (\<lambda>env addr u w. call_registry d addr (\<lambda>s. is_schema_restricted s u) w),
     x_get_schema_policy = (\<lambda>env addr u w. call_registry d addr (\<lambda>s. get_schema_policy s u) w),
     x_get_creator = (\<lambda>env addr u w. call_registry d addr (\<lambda>s. get_creator s u) w),
     x_get_creator_royalty = (\<lambda>env addr u w. call_registry d addr (\<lambda>s. get_creator_royalty s u) w),
     x_get_schema_frost_group = (\<lambda>env addr u w. call_registry d addr (\<lambda>s. get_schema_frost_group s u) w),
     x_on_attest = (\<lambda>env addr a w. call_resolver (resolver_on_attest h d (called env addr) a) addr w),
     x_on_revoke = (\<lambda>env addr a w. call_resolver (resolver_on_revoke h d a) addr w),
     x_index_attestation = (\<lambda>env addr u recipient suid attester expiration_time w.
       call_indexer d addr (index_attestation (called env addr) u recipient suid attester expiration_time) w),
     x_set_valid_from = (\<lambda>env addr u t w. call_indexer d addr (set_valid_from (called env addr) u t) w),
     x_handle_revoke = (\<lambda>env addr u w. call_indexer d addr (handle_revoke u) w),
     x_handle_replace = (\<lambda>env addr u v w. call_indexer d addr (handle_replace u v) w),
     x_handle_renew = (\<lambda>env addr u t w. None),
     x_verify_proof = (\<lambda>env addr p inputs w. None),
     x_balance = (\<lambda>env addr who w. tok_balance (dp_tokens d) addr who (w_tokens w)),
     x_transfer = (\<lambda>env addr payer payee amount w.
       map_option (\<lambda>t. w\<lparr>w_tokens := t\<rparr>) (tok_transfer (dp_tokens d) env addr payer payee amount (w_tokens w)))\<rparr>"

section \<open>What SAS relies on\<close>

text \<open>The record under which the indexer files an attestation.\<close>

definition record_of :: "attestation \<Rightarrow> index_record" where
  "record_of a = \<lparr>ir_recipient = a_recipient a, ir_schema_uid = a_schema_uid a, ir_attester = a_attester a,
     ir_expiration_time = a_expiration_time a\<rparr>"

lemma set_valid_from_capacity: "set_valid_from env u t s = Inr s' \<Longrightarrow> chunk_capacity s' = chunk_capacity s"
  by (auto simp: set_valid_from_def result_iff chunk_capacity_def)

lemma exit_callback_context_frame [simp]:
  "st_world (exit_callback_context b s) = st_world s" "st_events (exit_callback_context b s) = st_events s"
  by (simp_all add: exit_callback_context_def exit_reentrancy_guard_def Let_def)


text \<open>The registry at an address answers the calls of SAS by its own queries.\<close>

locale registry_binding =
  fixes ext :: "'w externs" and registry_at :: address and reg :: "'w \<Rightarrow> reg_state"
  assumes get_schema_call: "x_get_schema ext env registry_at u w = Some (get_schema (reg w) u)"
    and quarantine_call: "x_is_schema_quarantined ext env registry_at u w = Some (is_schema_quarantined (reg w) u)"
    and max_ttl_call: "x_get_max_ttl ext env registry_at u w = Some (get_max_ttl (reg w) u)"
    and authorized_call: "x_is_authorized ext env registry_at u who w = Some (is_authorized env (reg w) u who)"
    and acl_call: "x_is_attester_authorized ext env registry_at u who w = Some (is_attester_authorized (reg w) u who)"
    and policy_call: "x_get_schema_policy ext env registry_at u w = Some (get_schema_policy (reg w) u)"
begin

lemma resolve_schema_Inr:
  assumes "ctx.ext cx = ext" and "resolve_schema cx registry_at a w = Inr schema"
  shows "get_schema (reg w) (a_schema_uid a) = Some schema"
    and "\<not> is_schema_quarantined (reg w) (a_schema_uid a)"
    and "is_authorized (led cx) (reg w) (a_schema_uid a) (a_attester a)
      \<or> is_attester_authorized (reg w) (a_schema_uid a) (a_attester a)"
    and "get_max_ttl (reg w) (a_schema_uid a) = 0 \<or> a_expiration_time a \<noteq> 0 \<and>
      (timestamp (led cx) < a_expiration_time a \<longrightarrow>
        a_expiration_time a - timestamp (led cx) \<le> get_max_ttl (reg w) (a_schema_uid a))"
  using assms
  by (auto simp: resolve_schema_def check_max_ttl_def authorize_attester_def schema_attester_acl_status_def
      get_schema_call quarantine_call max_ttl_call authorized_call acl_call result_iff Let_def not_less
      word_neq_0_conv split: if_splits)

end

text \<open>The indexer at an address answers the calls of SAS by its own operations.\<close>

locale indexer_binding =
  fixes ext :: "'w externs" and indexer_at :: address and idx :: "'w \<Rightarrow> idx_state"
  assumes index_call: "x_index_attestation ext env indexer_at u r k b e w = Some w' \<Longrightarrow>
      \<exists>env'. index_attestation env' u r k b e (idx w) = Inr (idx w')"
    and valid_from_call: "x_set_valid_from ext env indexer_at u t w = Some w' \<Longrightarrow>
      \<exists>env'. set_valid_from env' u t (idx w) = Inr (idx w')"
    and revoke_call: "\<exists>w'. x_handle_revoke ext env indexer_at u w = Some w' \<and> handle_revoke u (idx w) = Inr (idx w')"
begin

lemma push_logs:
  assumes "ctx.ext cx = ext" and "x_index_attestation ext (led cx) indexer_at (a_uid a) (a_recipient a) (a_schema_uid a)
      (a_attester a) (a_expiration_time a) w = Some w'" and "idx_run c (idx w) l"
  shows "\<exists>l'. idx_run c (idx w') l' \<and> set l \<subseteq> set l' \<and> (a_uid a, record_of a) \<in> set l'"
proof -
  from index_call [OF assms(2)] obtain env' where
    call: "index_attestation env' (a_uid a) (a_recipient a) (a_schema_uid a) (a_attester a) (a_expiration_time a) (idx w)
      = Inr (idx w')"
    by blast
  let ?l = "if ix_records (idx w) (a_uid a) = None then l @ [(a_uid a, record_of a)] else l"
  have "(a_uid a, record_of a) \<in> set ?l"
  proof (cases "ix_records (idx w) (a_uid a)")
    case (Some existing)
    with call have "existing = record_of a"
      by (auto simp: index_attestation_def record_of_def result_iff Let_def)
    with Some idx_run_inv [OF assms(3)] show ?thesis
      by (auto simp: idx_inv_def dest: map_of_SomeD)
  qed simp
  moreover have "set l \<subseteq> set ?l"
    by auto
  ultimately show ?thesis
    using idx_indexed [OF assms(3) call refl] unfolding record_of_def by blast
qed

lemma notify_logs:
  assumes "ctx.ext cx = ext" and "notify_indexer_of_issuance cx indexer_at a s = Inr s'"
    and "idx_run c (idx (st_world s)) l"
  shows "\<exists>l'. idx_run c (idx (st_world s')) l' \<and> set l \<subseteq> set l' \<and>
    ((a_uid a, record_of a) \<in> set l' \<or> \<not> indexer_strict (st_config s) \<and> IndexFailed (a_uid a) \<in> set (st_events s'))"
proof (cases "x_index_attestation ext (led cx) indexer_at (a_uid a) (a_recipient a) (a_schema_uid a) (a_attester a)
      (a_expiration_time a) (st_world s)")
  case None
  with assms(1,2) have "\<not> indexer_strict (st_config s)" "s' = emit (IndexFailed (a_uid a)) s"
    by (auto simp: notify_indexer_of_issuance_def push_to_indexer_def Let_def split: if_splits)
  with assms(3) show ?thesis
    by auto
next
  case (Some w)
  let ?vf = "x_set_valid_from ext (led cx) indexer_at (a_uid a) (a_valid_from a)"
  from assms(1,2) Some have
    s': "s' = (if a_valid_from a > 0 then best_effort ?vf (s\<lparr>st_world := w\<rparr>) else s\<lparr>st_world := w\<rparr>)"
    by (auto simp: notify_indexer_of_issuance_def push_to_indexer_def Let_def)
  from push_logs [OF assms(1) Some assms(3)] obtain l' where
    l': "idx_run c (idx w) l'" "set l \<subseteq> set l'" "(a_uid a, record_of a) \<in> set l'"
    by blast
  have "idx_run c (idx (st_world s')) l'"
  proof (cases "st_world s' = w")
    case True
    with l'(1) show ?thesis
      by simp
  next
    case False
    with s' have "?vf w = Some (st_world s')"
      by (auto simp: best_effort_def split: if_splits option.splits)
    with valid_from_call obtain env' where vf: "set_valid_from env' (a_uid a) (a_valid_from a) (idx w) = Inr (idx (st_world s'))"
      by blast
    moreover have "chunk_capacity (idx (st_world s')) = c"
      using set_valid_from_capacity [OF vf] idx_run_inv [OF l'(1)] by (simp add: idx_inv_def)
    ultimately show ?thesis
      using l'(1) by (blast intro: idx_other idx_side_step.intros(6))
  qed
  with l' show ?thesis
    by blast
qed

lemma tell_revoked:
  assumes "ctx.ext cx = ext" and "indexer (st_config s) = Some indexer_at"
  shows "idx (st_world (tell_indexer (\<lambda>ix. x_handle_revoke (ctx.ext cx) (led cx) ix u) s))
    = set_index_status u IxRevoked (idx (st_world s))"
  using revoke_call [of "led cx" u "st_world s"] assms
  by (auto simp: tell_indexer_def best_effort_def handle_revoke_def)

end

text \<open>Both together, with a resolver call that touches neither.\<close>

locale protocol_binding = registry_binding ext registry_at reg + indexer_binding ext indexer_at idx
  for ext :: "'w externs" and registry_at and reg and indexer_at and idx +
  assumes on_attest_frame: "x_on_attest ext env r a w = Some w' \<Longrightarrow> reg w' = reg w \<and> idx w' = idx w"
    and on_revoke_frame: "x_on_revoke ext env r a w = Some w' \<Longrightarrow> reg w' = reg w \<and> idx w' = idx w"
begin

lemma attest_internal_bound:
  assumes "ctx.ext cx = ext" and "schema_registry (st_config s) = Some registry_at"
    and "indexer (st_config s) = Some indexer_at"
    and "attest_internal cx a s = Inr (u, s')" and "idx_run c (idx (st_world s)) l"
  shows "\<exists>schema w l'. resolve_schema cx registry_at a (st_world s) = Inr schema \<and>
    check_policy (get_schema_policy (reg (st_world s)) (a_schema_uid a)) (a_revocable a) = Inr () \<and>
    x_on_attest ext (led cx) (sr_resolver schema) a (st_world s) = Some w \<and>
    idx_run c (idx (st_world s')) l' \<and> set l \<subseteq> set l' \<and>
    ((a_uid a, record_of a) \<in> set l' \<or> \<not> indexer_strict (st_config s) \<and> IndexFailed (a_uid a) \<in> set (st_events s'))"
proof -
  let ?g = "\<lparr>reentrancy_guard = True, call_depth = Suc (call_depth (st_guard s))\<rparr>"
  let ?a = "a\<lparr>a_time := timestamp (led cx)\<rparr>"
  from assms(4) assms(2) obtain schema w t where
    sch: "resolve_schema cx registry_at a (st_world s) = Inr schema" and
    pol: "check_policy (case x_get_schema_policy (ctx.ext cx) (led cx) registry_at (a_schema_uid a)
        (st_world s) of Some p \<Rightarrow> p | None \<Rightarrow> policy_from_bool (sr_revocable schema)) (a_revocable a) = Inr ()" and
    res: "x_on_attest (ctx.ext cx) (led cx) (sr_resolver schema) a (st_world s) = Some w" and
    ind: "index_if_bound cx ?a (s\<lparr>st_guard := ?g,
        st_rate := quota_rate (led cx) (a_attester a) (st_rate s), st_world := w,
        st_store := issue_in_store (led cx) a (st_store s)\<rparr>) = Inr t" and
    "s' = exit_callback_context (\<not> reentrancy_guard (st_guard s))
        (emit (Attested (a_uid a) (a_schema_uid a) (a_attester a) (a_recipient a)) t)"
    by (auto simp: attest_internal_def result_iff Let_def issue_in_store_def anchor_now_def
        simp del: validate_new_attestation_Inr_iff check_policy_Inr_iff)
  then have s': "st_world s' = st_world t" "set (st_events t) \<subseteq> set (st_events s')"
    by auto
  have "idx w = idx (st_world s)"
    using res on_attest_frame assms(1) by blast
  moreover have "record_of ?a = record_of a"
    by (simp add: record_of_def)
  ultimately have "\<exists>l'. idx_run c (idx (st_world t)) l' \<and> set l \<subseteq> set l' \<and>
      ((a_uid a, record_of a) \<in> set l' \<or> \<not> indexer_strict (st_config s) \<and> IndexFailed (a_uid a) \<in> set (st_events t))"
    using ind assms(1,3,5) notify_logs [of cx ?a "s\<lparr>st_guard := ?g,
        st_rate := quota_rate (led cx) (a_attester a) (st_rate s), st_world := w,
        st_store := issue_in_store (led cx) a (st_store s)\<rparr>" t c l] by (simp add: index_if_bound_def)
  with sch pol res s' assms(1) show ?thesis
    by (simp add: policy_call) blast
qed

lemma revoke_internal_bound:
  assumes "ctx.ext cx = ext" and "indexer (st_config s) = Some indexer_at" and "revoke_internal cx u s = Inr s'"
  shows "idx (st_world s') = set_index_status u IxRevoked (idx (st_world s))"
proof -
  let ?g = "\<lparr>reentrancy_guard = True, call_depth = Suc (call_depth (st_guard s))\<rparr>"
  from assms(3) obtain a w r where
    frame: "x_on_revoke (ctx.ext cx) (led cx) r (a\<lparr>a_revocation_time := timestamp (led cx)\<rparr>) (st_world s) = Some w" and
    s': "s' = exit_callback_context (\<not> reentrancy_guard (st_guard s))
        (tell_indexer (\<lambda>ix. x_handle_revoke (ctx.ext cx) (led cx) ix u)
        (s\<lparr>st_guard := ?g, st_store := revoke_in_store (led cx) u a (st_store s),
           st_events := st_events s @ [RevokedEv u (timestamp (led cx))], st_world := w\<rparr>))"
    by (auto simp: revoke_internal_def result_iff Let_def revoke_in_store_def anchor_now_def emit_def)
  have "idx w = idx (st_world s)"
    using frame on_revoke_frame assms(1) by blast
  with s' tell_revoked [OF assms(1), of "s\<lparr>st_guard := ?g, st_store := revoke_in_store (led cx) u a (st_store s),
      st_events := st_events s @ [RevokedEv u (timestamp (led cx))], st_world := w\<rparr>" u] assms(2) show ?thesis
    by simp
qed

end

interpretation deployed: protocol_binding "protocol_externs h d" "dp_registry d" w_registry "dp_indexer d" w_indexer
  for h d
proof unfold_locales
  show "x_is_authorized (protocol_externs h d) env (dp_registry d) u who w
      = Some (is_authorized env (w_registry w) u who)" for env u who w
    by (simp add: protocol_externs_def call_registry_def is_authorized_def is_delegate_def called_def split: option.split)
  show "x_on_attest (protocol_externs h d) env r a w = Some w' \<Longrightarrow>
      w_registry w' = w_registry w \<and> w_indexer w' = w_indexer w" for env r a w w'
    by (auto simp: protocol_externs_def call_resolver_def split: option.splits)
  show "x_on_revoke (protocol_externs h d) env r a w = Some w' \<Longrightarrow>
      w_registry w' = w_registry w \<and> w_indexer w' = w_indexer w" for env r a w w'
    by (auto simp: protocol_externs_def call_resolver_def split: option.splits)
qed (auto simp: protocol_externs_def call_registry_def call_indexer_def ok_option_def handle_revoke_def split: sum.splits)

section \<open>What the resolvers permit\<close>

definition resolver_permits :: "host \<Rightarrow> 't deployment \<Rightarrow> ledger_env \<Rightarrow> address \<Rightarrow> attestation \<Rightarrow> 't world \<Rightarrow> bool" where
  "resolver_permits h d env addr a w =
     (case w_resolvers w addr of
        None \<Rightarrow> False
      | Some PermissiveResolver \<Rightarrow> True
      | Some (BlacklistResolver s) \<Rightarrow> bl_admin s \<noteq> None \<and> \<not> bl_blocked s (a_attester a) \<and> \<not> bl_blocked s (a_recipient a)
      | Some (TimeWindowResolver s) \<Rightarrow> (\<exists>c. get_cooldown_period_seconds s = Inr c \<and>
          (c = 0 \<or> (\<forall>t. get_last_attested_time s (a_recipient a) = Some t \<longrightarrow> saturating_add_u64 t c \<le> timestamp env)))
      | Some (TokenGatedResolver s) \<Rightarrow> is_eligible (dp_tokens d) (w_tokens w) s (a_recipient a) = Inr True
      | Some (MultisigResolver s) \<Rightarrow> (\<exists>config es. s = Some config \<and> a_data a = encode_endorsements es \<and>
          ms_threshold config \<le> card (e_signer ` set es) \<and> (\<forall>e \<in> set (first_endorsements [] es).
            endorsement_valid (dp_vk d) config (hash_attestation_struct h (a\<lparr>a_data := []\<rparr>)) e)))"

lemma ok_option_Some_iff: "ok_option r = Some x \<longleftrightarrow> r = Inr x"
  by (cases r) (auto simp: ok_option_def)

lemma multisig_accepts:
  assumes "multisig_on_attest h vk a s = Inr s'" and "length (a_data a) \<le> MAX_ATTESTATION_DATA_BYTES"
  shows "\<exists>config es. s = Some config \<and> a_data a = encode_endorsements es \<and>
    ms_threshold config \<le> card (e_signer ` set es) \<and> (\<forall>e \<in> set (first_endorsements [] es).
      endorsement_valid vk config (hash_attestation_struct h (a\<lparr>a_data := []\<rparr>)) e)"
proof -
  have len: "length (a_data a) \<le> u32_max"
    using assms(2) by (simp add: MAX_ATTESTATION_DATA_BYTES_def u32_max_def)
  from assms(1) obtain config where config: "s = Some config"
    by (auto simp: multisig_on_attest_def check_approval_def ms_require_config_def result_iff)
  with assms(1) multisig_hooks_iff(1) [of h vk a s] have "is_ok (check_approval h vk a (Some config))"
    by simp
  with check_approval_iff [OF len] config show ?thesis
    by blast
qed

lemma on_attest_permitted:
  assumes "x_on_attest (protocol_externs h d) env addr a w = Some w'"
    and "length (a_data a) \<le> MAX_ATTESTATION_DATA_BYTES"
  shows "resolver_permits h d env addr a w"
proof -
  from assms(1) obtain r r' t' where r: "w_resolvers w addr = Some r"
    and hook: "resolver_on_attest h d (called env addr) a r (w_tokens w) = Some (r', t')"
    by (auto simp: protocol_externs_def call_resolver_def split: option.splits)
  show ?thesis
  proof (cases r)
    case (BlacklistResolver s)
    with hook r show ?thesis
      by (auto simp: resolver_permits_def resolver_on_attest_def ok_option_Some_iff blacklist_on_attest_def
          bl_require_initialized_def result_iff)
  next
    case (TimeWindowResolver s)
    with hook r show ?thesis
      by (auto simp: resolver_permits_def resolver_on_attest_def ok_option_Some_iff time_window_on_attest_Inr_iff
          called_def get_last_attested_time_def)
  next
    case (TokenGatedResolver s)
    with hook r show ?thesis
      by (auto simp: resolver_permits_def resolver_on_attest_def ok_option_Some_iff token_gated_on_attest_def
          is_eligible_def result_iff)
  next
    case (MultisigResolver s)
    with hook obtain s' where "multisig_on_attest h (dp_vk d) a s = Inr s'"
      by (auto simp: resolver_on_attest_def ok_option_Some_iff)
    from multisig_accepts [OF this assms(2)] MultisigResolver r show ?thesis
      by (simp add: resolver_permits_def)
  qed (simp add: resolver_permits_def r)
qed

section \<open>Issuance across the contracts\<close>

text \<open>
  C1: Issuance is sound across the deployed contracts. When SAS, bound to the registry and the indexer
  of a deployment, accepts an attestation, then the registry serves its schema, which has no
  deprecation tombstone and is not quarantined; the attester is the owner, a current delegate or on the schema's list of
  attesters, and authorized the call; the expiration respects the schema's maximum and the revocability
  its policy; the policy of the deployed resolver of the schema permits it; the registry is unchanged;
  and the record is in the indexer's log, which lost nothing, or the indexer failed, is not
  required to succeed, and the failure was published.
\<close>

theorem protocol_attest_sound:
  assumes "attest cx a s = Inr (u, s')" and "ext cx = protocol_externs (hst cx) d"
    and "schema_registry (st_config s) = Some (dp_registry d)" and "indexer (st_config s) = Some (dp_indexer d)"
    and "idx_run c (w_indexer (st_world s)) l"
  shows "\<exists>schema l'.
    get_schema (w_registry (st_world s)) (a_schema_uid a) = Some schema \<and>
    \<not> is_schema_quarantined (w_registry (st_world s)) (a_schema_uid a) \<and>
    authorized (led cx) (a_attester a) \<and>
    (is_authorized (led cx) (w_registry (st_world s)) (a_schema_uid a) (a_attester a) \<or>
     is_attester_authorized (w_registry (st_world s)) (a_schema_uid a) (a_attester a)) \<and>
    (get_max_ttl (w_registry (st_world s)) (a_schema_uid a) = 0 \<or> a_expiration_time a \<noteq> 0 \<and>
     a_expiration_time a - timestamp (led cx) \<le> get_max_ttl (w_registry (st_world s)) (a_schema_uid a)) \<and>
    check_policy (get_schema_policy (w_registry (st_world s)) (a_schema_uid a)) (a_revocable a) = Inr () \<and>
    resolver_permits (hst cx) d (led cx) (sr_resolver schema) a (st_world s) \<and>
    idx_run c (w_indexer (st_world s')) l' \<and> set l \<subseteq> set l' \<and>
    ((u, record_of a) \<in> set l' \<or> \<not> indexer_strict (st_config s) \<and> IndexFailed u \<in> set (st_events s'))"
proof -
  from assms(1) have auth: "authorized (led cx) (a_attester a)" and run: "attest_internal cx a s = Inr (u, s')"
    by (auto simp: attest_def result_iff split: if_splits)
  from attest_internal_effect [OF run] have u: "u = a_uid a" and ok: "issuance_ok cx a s"
    by auto
  from ok have len: "length (a_data a) \<le> MAX_ATTESTATION_DATA_BYTES"
    and time: "a_expiration_time a \<noteq> 0 \<longrightarrow> timestamp (led cx) < a_expiration_time a"
    by (auto simp: issuance_ok_def result_iff)
  from deployed.attest_internal_bound [OF assms(2-4) run assms(5)] obtain schema w l' where
    res: "resolve_schema cx (dp_registry d) a (st_world s) = Inr schema" and
    rest: "check_policy (get_schema_policy (w_registry (st_world s)) (a_schema_uid a)) (a_revocable a) = Inr ()"
    "x_on_attest (protocol_externs (hst cx) d) (led cx) (sr_resolver schema) a (st_world s) = Some w"
    "idx_run c (w_indexer (st_world s')) l'" "set l \<subseteq> set l'"
    "(a_uid a, record_of a) \<in> set l' \<or> \<not> indexer_strict (st_config s) \<and> IndexFailed (a_uid a) \<in> set (st_events s')"
    by blast
  from deployed.resolve_schema_Inr [OF assms(2) res] auth rest on_attest_permitted [OF rest(2) len] time u show ?thesis
    by blast
qed

definition no_tokens :: "unit token_ops" where
  "no_tokens = \<lparr>tok_balance = (\<lambda>_ _ _. None), tok_transfer = (\<lambda>_ _ _ _ _ _. None), tok_burn = (\<lambda>_ _ _ _ _. None)\<rparr>"

definition sample_deployment :: "unit deployment" where
  "sample_deployment = \<lparr>dp_registry = Contract 3, dp_indexer = Contract 4, dp_vk = (\<lambda>_ _ _. False), dp_tokens = no_tokens\<rparr>"

definition sample_world :: "unit world" where
  "sample_world = \<lparr>
     w_registry = fresh_registry\<lparr>rg_schemas := [12 \<mapsto> sample_schema], rg_creators := [12 \<mapsto> Account 7]\<rparr>,
     w_indexer = sample_indexer, w_resolvers = [Contract 30 \<mapsto> TimeWindowResolver sample_window], w_tokens = ()\<rparr>"

definition protocol_cx :: "unit world ctx" where
  "protocol_cx = \<lparr>hst = toy_host, ext = protocol_externs toy_host sample_deployment, led = sample_env\<lparr>timestamp := 1500\<rparr>\<rparr>"

definition protocol_state :: "unit world sas_state" where
  "protocol_state = (fresh_state sample_world)\<lparr>st_config := fresh_config\<lparr>sas_admin := Some (Account 1),
     schema_registry := Some (Contract 3), indexer := Some (Contract 4)\<rparr>\<rparr>"


lemma protocol_schema:
  "get_schema (w_registry sample_world) 12 = Some sample_schema" "\<not> is_schema_quarantined (w_registry sample_world) 12"
  "get_max_ttl (w_registry sample_world) 12 = 0" "is_authorized env (w_registry sample_world) 12 (Account 7)"
  "get_schema_policy (w_registry sample_world) 12 = Permissive"
  by (simp_all add: sample_world_def fresh_registry_def get_schema_def is_schema_quarantined_def get_max_ttl_def
      is_authorized_def get_schema_policy_def sample_schema_def policy_from_bool_def)

lemma protocol_resolver:
  "x_on_attest (protocol_externs toy_host sample_deployment) (sample_env\<lparr>timestamp := 1500\<rparr>) (Contract 30) (sample_new 3) sample_world
   \<noteq> None"
  by (simp add: protocol_externs_def call_resolver_def sample_world_def resolver_on_attest_def time_window_on_attest_def
      get_cooldown_period_seconds_def tw_read_config_def sample_window_def called_def sample_new_def ok_option_def
      saturating_add_u64_def)

lemma protocol_sample_ok: "issuance_ok protocol_cx (sample_new 3) protocol_state"
proof -
  have "validate_new_attestation protocol_cx (sample_new 3) empty_store = Inr ()"
    by (simp add: result_iff protocol_cx_def sample_new_def sample_uid MAX_ATTESTATION_DATA_BYTES_def
        zero_account_def zero_contract_def)
  moreover have "resolve_schema protocol_cx (Contract 3) (sample_new 3) sample_world = Inr sample_schema"
    using protocol_schema
    by (simp add: resolve_schema_def check_max_ttl_def authorize_attester_def protocol_cx_def protocol_externs_def
        call_registry_def sample_deployment_def sample_new_def)
  moreover obtain w where "x_on_attest (protocol_externs toy_host sample_deployment) (sample_env\<lparr>timestamp := 1500\<rparr>)
      (Contract 30) (sample_new 3) sample_world = Some w"
    using protocol_resolver by auto
  moreover have "x_get_schema_policy (ext protocol_cx) (led protocol_cx) (Contract 3) 12 sample_world = Some Permissive"
    using protocol_schema(5) by (simp add: protocol_cx_def protocol_externs_def call_registry_def sample_deployment_def)
  moreover have "sr_resolver sample_schema = Contract 30" "a_schema_uid (sample_new 3) = 12"
    by (simp_all add: sample_schema_def sample_new_def)
  moreover have "st_store protocol_state = empty_store" "schema_registry (st_config protocol_state) = Some (Contract 3)"
      "st_world protocol_state = sample_world" "quota_left e who (st_rate protocol_state)"
      "ext protocol_cx = protocol_externs toy_host sample_deployment" "led protocol_cx = sample_env\<lparr>timestamp := 1500\<rparr>" for e who
    by (simp_all add: protocol_state_def fresh_state_def quota_left_def protocol_cx_def)
  ultimately show ?thesis
    by (simp add: issuance_ok_def check_policy_Inr_iff del: validate_new_attestation_Inr_iff)
qed

theorem protocol_attest_sound_witness:
  "\<exists>s'. attest protocol_cx (sample_new 3) protocol_state = Inr (123, s') \<and>
     resolver_permits toy_host sample_deployment (sample_env\<lparr>timestamp := 1500\<rparr>) (Contract 30) (sample_new 3) sample_world"
proof -
  have "call_depth (st_guard protocol_state) < u32_max" "\<not> indexer_strict (st_config protocol_state)"
    by (simp_all add: protocol_state_def fresh_state_def fresh_config_def u32_max_def)
  from attest_internal_succeeds [OF protocol_sample_ok this] obtain s' where
    "attest_internal protocol_cx (sample_new 3) protocol_state = Inr (a_uid (sample_new 3), s')"
    by blast
  then have issued: "attest protocol_cx (sample_new 3) protocol_state = Inr (123, s')"
    by (simp add: attest_def reject_reentrant_def is_paused_status_def require_unpaid_allowed_def require_auth_def
        protocol_state_def fresh_state_def fresh_config_def fresh_fees_def protocol_cx_def sample_env_def sample_new_def)
  have "ext protocol_cx = protocol_externs (hst protocol_cx) sample_deployment"
    "schema_registry (st_config protocol_state) = Some (dp_registry sample_deployment)"
    "indexer (st_config protocol_state) = Some (dp_indexer sample_deployment)"
    "idx_run MAX_CHUNK_SIZE (w_indexer (st_world protocol_state)) []"
    using sample_run_start
    by (simp_all add: protocol_cx_def protocol_state_def sample_deployment_def fresh_state_def sample_world_def)
  from protocol_attest_sound [OF issued this] issued protocol_schema(1) show ?thesis
    by (auto simp: protocol_cx_def protocol_state_def fresh_state_def sample_new_def sample_schema_def)
qed

section \<open>Revocation across the contracts\<close>

text \<open>Any calls of the indexer, at any ledgers.\<close>

inductive idx_calls :: "idx_state \<Rightarrow> idx_state \<Rightarrow> bool" for s where
  idx_none: "idx_calls s s"
| idx_index: "idx_calls s t \<Longrightarrow> index_attestation env u a k b e t = Inr t' \<Longrightarrow> idx_calls s t'"
| idx_side: "idx_calls s t \<Longrightarrow> idx_side_step env t t' \<Longrightarrow> idx_calls s t'"

lemma index_attestation_status: "index_attestation env u a k b e s = Inr s' \<Longrightarrow> ix_status s' = ix_status s"
  by (auto simp: index_attestation_def result_iff Let_def split: option.splits dest: index_new_config)

lemma side_step_inactive: "idx_side_step env s s' \<Longrightarrow> \<not> is_active s u \<Longrightarrow> \<not> is_active s' u"
  by (erule idx_side_step.cases)
    (auto simp: idx_init_def idx_upgrade_def idx_commit_upgrade_def set_chunk_tier_def handle_revoke_def handle_replace_def
      set_valid_from_def check_query_limit_def set_index_status_def idx_emit_def is_active_def result_iff Let_def
      split: if_splits)

lemma idx_calls_inactive: "idx_calls s t \<Longrightarrow> \<not> is_active s u \<Longrightarrow> \<not> is_active t u"
proof (induction rule: idx_calls.induct)
  case (idx_index t env u' a k b e t')
  with index_attestation_status [OF idx_index.hyps(2)] show ?case
    by (simp add: is_active_def)
qed (auto dest: side_step_inactive)

lemma collect_loop_keeps:
  "collect_loop c g keep fin i out = Inr us \<Longrightarrow> set us \<subseteq> set out \<union> {u. keep u}"
proof (induction c g keep fin i out rule: collect_loop.induct)
  case (1 c g keep fin i out)
  note step = collect_loop.simps [of c g keep fin i out]
  show ?case
  proof (cases "i < fin \<and> c \<noteq> 0 \<and> g (i div c) \<noteq> None")
    case False
    with "1.prems" step show ?thesis
      by (auto split: if_splits)
  next
    case True
    then obtain chunk where chunk: "g (i div c) = Some chunk"
      by auto
    show ?thesis
    proof (cases "length chunk \<le> i mod c")
      case skip: True
      with "1.prems" step True chunk have "\<not> (i div c + 1) * c > u32_max"
        and "collect_loop c g keep fin ((i div c + 1) * c) out = Inr us"
        by (auto split: if_splits)
      with "1.IH"(1) True chunk skip show ?thesis
        by blast
    next
      case False
      let ?n = "min (length chunk - i mod c) (fin - i)"
      have "collect_loop c g keep fin (i + ?n) (out @ filter keep (take ?n (drop (i mod c) chunk))) = Inr us"
        using "1.prems" step True chunk False by (simp add: Let_def)
      with "1.IH"(2) [OF _ _ chunk False refl] True
      have "set us \<subseteq> set (out @ filter keep (take ?n (drop (i mod c) chunk))) \<union> {u. keep u}"
        by blast
      then show ?thesis
        by auto
    qed
  qed
qed

lemma collect_filtered_active: "collect_filtered s n k False = Inr us \<Longrightarrow> u \<in> set us \<Longrightarrow> is_active s u"
  unfolding collect_filtered_def by (drule collect_loop_keeps) auto

lemma check_query_limit_active: "check_query_limit env s = Inr s' \<Longrightarrow> is_active s' u = is_active s u"
  by (auto simp: check_query_limit_def is_active_def Let_def split: if_splits)

text \<open>
  C2: Revocation reaches the indexer and stays there. When SAS, bound to the indexer of a deployment,
  revokes an attestation, the indexer marks it revoked, and whatever calls the indexer receives from then
  on, the active-only histories of every schema, recipient and attester leave it out; SAS itself
  verifies it no more.
\<close>

theorem protocol_revoke_hides:
  assumes "revoke cx u s = Inr s'" and "ext cx = protocol_externs (hst cx) d"
    and "indexer (st_config s) = Some (dp_indexer d)" and "store_wf (st_store s)"
    and "idx_calls (w_indexer (st_world s')) ix"
  shows "get_attestation_status (w_indexer (st_world s')) u = Some IxRevoked \<and>
    (get_schema_filtered env k False ix = Inr (us, ix') \<longrightarrow> u \<notin> set us) \<and>
    (get_recipient_filtered env who False ix = Inr (us, ix') \<longrightarrow> u \<notin> set us) \<and>
    (get_attester_filtered env who False ix = Inr (us, ix') \<longrightarrow> u \<notin> set us) \<and>
    (timestamp (led cx) \<noteq> 0 \<longrightarrow> \<not> verify_attestation env s' u)"
proof -
  from assms(1) have run: "revoke_internal cx u s = Inr s'"
    by (auto simp: revoke_def result_iff split: if_splits)
  from deployed.revoke_internal_bound [OF assms(2,3) run]
  have marked: "w_indexer (st_world s') = set_index_status u IxRevoked (w_indexer (st_world s))" .
  then have "\<not> is_active ix u"
    using idx_calls_inactive [OF assms(5)] by (simp add: is_active_def set_index_status_def)
  then have "u \<notin> set us" if "check_query_limit env ix = Inr t" "collect_filtered t n key False = Inr us" for t n key
    using that check_query_limit_active collect_filtered_active by blast
  moreover have "\<not> verify_attestation env s' u" if "timestamp (led cx) \<noteq> 0"
    using revoke_internal_effect [OF run] that assms(4)
    by (auto simp: verify_attestation_def verify_attestation_record_def read_revoke_in_store)
  ultimately show ?thesis
    using marked
    by (auto simp: get_attestation_status_def set_index_status_def get_schema_filtered_def get_recipient_filtered_def
        get_attester_filtered_def result_iff)
qed


definition protocol_holding :: "unit world sas_state" where
  "protocol_holding = protocol_state\<lparr>st_store := issue_in_store earlier_env (sample_new 3) empty_store\<rparr>"

lemma protocol_holding_facts:
  "read_attestation (st_store protocol_holding) 123 = Some ((sample_new 3)\<lparr>a_time := 900\<rparr>)"
  "store_wf (st_store protocol_holding)" "anchors (st_store protocol_holding) (123, True) = None"
  "st_world protocol_holding = sample_world" "schema_registry (st_config protocol_holding) = Some (Contract 3)"
  "indexer (st_config protocol_holding) = Some (Contract 4)" "st_guard protocol_holding = \<lparr>reentrancy_guard = False, call_depth = 0\<rparr>"
  "\<not> is_paused_status protocol_holding"
  by (simp_all add: protocol_holding_def protocol_state_def fresh_state_def read_issue_in_store earlier_env_def
      store_wf_empty sample_new_def is_paused_status_def fresh_config_def)

lemma protocol_holding_revoke: "\<exists>s'. revoke protocol_cx 123 protocol_holding = Inr s'"
proof -
  have "x_get_schema (ext protocol_cx) (led protocol_cx) (Contract 3) 12 sample_world = Some (Some sample_schema)"
    using protocol_schema(1) by (simp add: protocol_cx_def protocol_externs_def call_registry_def sample_deployment_def)
  moreover have "x_on_revoke (ext protocol_cx) (led protocol_cx) (Contract 30) a sample_world = Some sample_world" for a
    by (simp add: protocol_cx_def protocol_externs_def call_resolver_def sample_world_def resolver_on_revoke_def
        time_window_on_revoke_def ok_option_def)
  moreover have "require_auth (led protocol_cx) who = Inr ()" for who
    by (simp add: protocol_cx_def sample_env_def require_auth_def)
  ultimately show ?thesis
    using protocol_holding_facts
    by (simp add: revoke_def revoke_internal_def reject_reentrant_def require_registry_def result_iff sample_new_def
        write_anchor_def u32_max_def sample_schema_def Let_def exI [of _ True])
qed

theorem protocol_revoke_hides_witness:
  "\<exists>s'. revoke protocol_cx 123 protocol_holding = Inr s' \<and>
     get_attestation_status (w_indexer (st_world s')) 123 = Some IxRevoked \<and> \<not> verify_attestation sample_env s' 123"
proof -
  obtain s' where s': "revoke protocol_cx 123 protocol_holding = Inr s'"
    using protocol_holding_revoke by blast
  have "ext protocol_cx = protocol_externs (hst protocol_cx) sample_deployment"
    "indexer (st_config protocol_holding) = Some (dp_indexer sample_deployment)" "timestamp (led protocol_cx) \<noteq> 0"
    using protocol_holding_facts(6) by (simp_all add: protocol_cx_def sample_deployment_def)
  with protocol_revoke_hides [OF s' _ _ protocol_holding_facts(2) idx_none] s' show ?thesis
    by blast
qed


end
