(* ===== verification/Zk_Verifier.thy ===== *)
theory Zk_Verifier
  imports Sas_Entry Samples
begin

text \<open>
  The zero-knowledge proof verifier (\<^verbatim>\<open>contracts/zk-verifier/src/lib.rs\<close>): it accepts a proof of a private
  attestation statement, spends its nullifier, and asks SAS whether the attestation the proof refers to
  is currently valid. The two cross-contract calls are parameters; \<open>sas_calls_of\<close> answers them with the
  entry points of the SAS model.
\<close>

section \<open>State and operations\<close>

definition MAX_ZK_PROOF_AGE_SECONDS :: u64 where "MAX_ZK_PROOF_AGE_SECONDS = 604800"
definition MAX_NULLIFIER_BATCH :: nat where "MAX_NULLIFIER_BATCH = 50"

datatype zk_error =
    ZkAlreadyInitialized | ZkNotInitialized | ZkNullifierSpent | ZkInvalidProof | ZkAttestationExpired
  | ZkAttestationNotYetActive | ZkAttestationRevokedOrInvalid | ZkInvalidCommitment | ZkProofTooOld
  | ZkBatchTooLarge

record zk_config =
  zc_admin :: address
  zc_sas_contract :: address

record zk_attestation_proof =
  zp_attestation_uid :: uid
  zp_schema_uid :: uid
  zp_nullifier :: bytes32
  zp_commitment :: bytes32
  zp_proof :: bytes
  zp_timestamp :: u64

record private_attestation_verified_event =
  pv_attestation_uid :: uid
  pv_schema_uid :: uid
  pv_nullifier :: bytes32
  pv_commitment :: bytes32

record zk_state =
  zk_conf :: "zk_config option"
  zk_spent :: "bytes32 \<rightharpoonup> u64"
  zk_commitments :: "bytes32 \<rightharpoonup> u64"
  zk_events :: "private_attestation_verified_event list"

text \<open>
  \<^verbatim>\<open>verify_attestation\<close> and \<^verbatim>\<open>get_valid_from\<close> of the contract at an address; \<^verbatim>\<open>None\<close> is a call that fails.
\<close>

record sas_calls =
  sc_verify_attestation :: "address \<Rightarrow> uid \<Rightarrow> bool option"
  sc_get_valid_from :: "address \<Rightarrow> uid \<Rightarrow> u64 option"

type_synonym 'a zk_result = "(zk_error, 'a) result"

definition zk_get_config :: "zk_state \<Rightarrow> zk_config zk_result" where
  "zk_get_config s = or_panic ZkNotInitialized (zk_conf s)"

definition consume_nullifier :: "bytes32 \<Rightarrow> u64 \<Rightarrow> zk_state \<Rightarrow> zk_state zk_result" where
  "consume_nullifier nullifier time s =
     (if zk_spent s nullifier \<noteq> None then Inl (Panic ZkNullifierSpent)
      else Inr (s\<lparr>zk_spent := (zk_spent s)(nullifier \<mapsto> time)\<rparr>))"

definition zk_init :: "ledger_env \<Rightarrow> address \<Rightarrow> address \<Rightarrow> zk_state \<Rightarrow> zk_state zk_result" where
  "zk_init env admin sas_contract s =
     (if zk_conf s \<noteq> None then Inl (Panic ZkAlreadyInitialized)
      else bind_r (require_auth env admin) (\<lambda>_.
        Inr (s\<lparr>zk_conf := Some \<lparr>zc_admin = admin, zc_sas_contract = sas_contract\<rparr>\<rparr>)))"

definition binding_payload :: "zk_attestation_proof \<Rightarrow> bytes" where
  "binding_payload p = bytes32_to_array (zp_commitment p) @ bytes32_to_array (zp_nullifier p)"

text \<open>The calls to SAS when the proof names an attestation; a failing call counts as invalid, or as no time lock.\<close>

definition check_sas_validity :: "sas_calls \<Rightarrow> address \<Rightarrow> uid \<Rightarrow> u64 \<Rightarrow> unit zk_result" where
  "check_sas_validity calls sas u now =
     (let is_valid = (case sc_verify_attestation calls sas u of Some valid \<Rightarrow> valid | None \<Rightarrow> False);
          valid_from = (case sc_get_valid_from calls sas u of Some vf \<Rightarrow> vf | None \<Rightarrow> 0) in
      if \<not> is_valid then Inl (Panic ZkAttestationRevokedOrInvalid)
      else if valid_from > 0 \<and> now < valid_from then Inl (Panic ZkAttestationNotYetActive)
      else Inr ())"

definition verify_and_consume_proof ::
  "host \<Rightarrow> ledger_env \<Rightarrow> sas_calls \<Rightarrow> zk_attestation_proof \<Rightarrow> zk_state \<Rightarrow> (bool \<times> zk_state) zk_result" where
  "verify_and_consume_proof h env calls p s =
     bind_r (zk_get_config s) (\<lambda>config.
     let now = timestamp env in
     bind_r (consume_nullifier (zp_nullifier p) now s) (\<lambda>s.
     if zp_proof p = [] \<or> length (zp_proof p) > 1024 then Inl (Panic ZkInvalidProof)
     else if zp_timestamp p > now \<or> saturating_sub_u64 now (zp_timestamp p) > MAX_ZK_PROOF_AGE_SECONDS
     then Inl (Panic ZkProofTooOld)
     else if length (zp_proof p) < 32 then Inl (Panic ZkInvalidProof)
     else if bytes32_of_array (take 32 (zp_proof p)) \<noteq> sha256 h (binding_payload p)
     then Inl (Panic ZkInvalidProof)
     else
       bind_r (if zp_attestation_uid p \<noteq> 0
               then check_sas_validity calls (zc_sas_contract config) (zp_attestation_uid p) now
               else Inr ()) (\<lambda>_.
       Inr (True, s\<lparr>zk_commitments := (zk_commitments s)(zp_commitment p \<mapsto> now),
         zk_events := zk_events s @ [\<lparr>pv_attestation_uid = zp_attestation_uid p,
           pv_schema_uid = zp_schema_uid p, pv_nullifier = zp_nullifier p,
           pv_commitment = zp_commitment p\<rparr>]\<rparr>))))"

definition is_nullifier_used :: "zk_state \<Rightarrow> bytes32 \<Rightarrow> bool" where
  "is_nullifier_used s nullifier = (zk_spent s nullifier \<noteq> None)"

definition is_commitment_verified :: "zk_state \<Rightarrow> bytes32 \<Rightarrow> bool" where
  "is_commitment_verified s commitment = (zk_commitments s commitment \<noteq> None)"

definition are_nullifiers_used :: "zk_state \<Rightarrow> bytes32 list \<Rightarrow> bool list zk_result" where
  "are_nullifiers_used s nullifiers =
     (if length nullifiers > MAX_NULLIFIER_BATCH then Inl (Panic ZkBatchTooLarge)
      else Inr (map (\<lambda>nullifier. zk_spent s nullifier \<noteq> None) nullifiers))"

definition fresh_zk :: zk_state where
  "fresh_zk = \<lparr>zk_conf = None, zk_spent = Map.empty, zk_commitments = Map.empty, zk_events = []\<rparr>"

text \<open>The calls answered by a SAS instance at address \<open>sas\<close>; no other contract answers.\<close>

definition sas_calls_of :: "ledger_env \<Rightarrow> address \<Rightarrow> 'w sas_state \<Rightarrow> sas_calls" where
  "sas_calls_of env sas t =
     \<lparr>sc_verify_attestation = (\<lambda>addr u. if addr = sas then Some (verify_attestation env t u) else None),
      sc_get_valid_from = (\<lambda>addr u. if addr = sas
        then (case get_valid_from t u of Inr vf \<Rightarrow> Some vf | Inl _ \<Rightarrow> None) else None)\<rparr>"

section \<open>What an accepted proof is\<close>

definition proof_well_formed :: "host \<Rightarrow> zk_attestation_proof \<Rightarrow> bool" where
  "proof_well_formed h p \<longleftrightarrow> 32 \<le> length (zp_proof p) \<and> length (zp_proof p) \<le> 1024 \<and>
     bytes32_of_array (take 32 (zp_proof p)) = sha256 h (binding_payload p)"

definition proof_recent :: "ledger_env \<Rightarrow> zk_attestation_proof \<Rightarrow> bool" where
  "proof_recent env p \<longleftrightarrow> zp_timestamp p \<le> timestamp env \<and> unat (timestamp env) \<le> unat (zp_timestamp p) + 604800"

lemma proof_recent_iff:
  "proof_recent env p \<longleftrightarrow> \<not> (zp_timestamp p > timestamp env \<or>
     saturating_sub_u64 (timestamp env) (zp_timestamp p) > MAX_ZK_PROOF_AGE_SECONDS)"
proof -
  have "saturating_sub_u64 (timestamp env) (zp_timestamp p) > MAX_ZK_PROOF_AGE_SECONDS \<longleftrightarrow>
      unat (timestamp env) - unat (zp_timestamp p) > 604800"
    by (simp add: word_less_nat_alt unat_saturating_sub_u64 MAX_ZK_PROOF_AGE_SECONDS_def)
  then show ?thesis
    by (auto simp: proof_recent_def word_le_nat_alt word_less_nat_alt)
qed

lemma check_sas_validity_iff [result_iff]:
  "check_sas_validity (sas_calls_of env sas t) sas u (timestamp env) = Inr z \<longleftrightarrow> verify_attestation env t u"
proof
  assume "verify_attestation env t u"
  then obtain a where a: "read_attestation (st_store t) u = Some a"
    and "a_valid_from a = 0 \<or> \<not> timestamp env < a_valid_from a"
    by (auto simp: verify_attestation_def verify_attestation_record_def split: option.splits if_splits)
  then have "\<not> (0 < vf \<and> timestamp env < vf)" if "get_valid_from t u = Inr vf" for vf
    using that by (auto simp: get_valid_from_def split: if_splits)
  with \<open>verify_attestation env t u\<close> show "check_sas_validity (sas_calls_of env sas t) sas u (timestamp env) = Inr z"
    by (auto simp: check_sas_validity_def sas_calls_of_def split: sum.splits)
qed (auto simp: check_sas_validity_def sas_calls_of_def Let_def split: if_splits)

definition spend :: "ledger_env \<Rightarrow> zk_attestation_proof \<Rightarrow> zk_state \<Rightarrow> zk_state" where
  "spend env p s = s\<lparr>zk_spent := (zk_spent s)(zp_nullifier p \<mapsto> timestamp env),
     zk_commitments := (zk_commitments s)(zp_commitment p \<mapsto> timestamp env),
     zk_events := zk_events s @ [\<lparr>pv_attestation_uid = zp_attestation_uid p, pv_schema_uid = zp_schema_uid p,
       pv_nullifier = zp_nullifier p, pv_commitment = zp_commitment p\<rparr>]\<rparr>"

text \<open>Whatever SAS answers, a proof is accepted only under these conditions, and then it is spent.\<close>

lemma verify_and_consume_proof_Inr:
  assumes "zk_conf s = Some config"
  shows "verify_and_consume_proof h env calls p s = Inr (b, s') \<longleftrightarrow>
      zk_spent s (zp_nullifier p) = None \<and> proof_well_formed h p \<and> proof_recent env p \<and>
      (if zp_attestation_uid p \<noteq> 0
       then check_sas_validity calls (zc_sas_contract config) (zp_attestation_uid p) (timestamp env)
       else Inr ()) = Inr () \<and> b \<and> s' = spend env p s"
proof -
  have wf: "proof_well_formed h p \<longleftrightarrow> \<not> (zp_proof p = [] \<or> length (zp_proof p) > 1024) \<and>
      \<not> length (zp_proof p) < 32 \<and> \<not> bytes32_of_array (take 32 (zp_proof p)) \<noteq> sha256 h (binding_payload p)"
    unfolding proof_well_formed_def by (cases "zp_proof p = []") auto
  show ?thesis
    unfolding wf proof_recent_iff verify_and_consume_proof_def Let_def consume_nullifier_def zk_get_config_def
      assms or_panic_simps bind_r_simps bind_r_Inr_iff if_Inl_Inr_iff spend_def
    by auto
qed

lemma verify_and_consume_proof_effect:
  assumes "verify_and_consume_proof h env calls p s = Inr (b, s')"
  shows "zk_conf s \<noteq> None \<and> zk_spent s (zp_nullifier p) = None \<and> proof_well_formed h p \<and>
    proof_recent env p \<and> b \<and> s' = spend env p s"
proof (cases "zk_conf s")
  case None
  with assms show ?thesis
    by (simp add: verify_and_consume_proof_def zk_get_config_def)
next
  case (Some config)
  with assms verify_and_consume_proof_Inr [OF Some, of h env calls p b s'] show ?thesis
    by simp
qed

lemma verify_and_consume_proof_iff:
  "verify_and_consume_proof h env (sas_calls_of env sas t) p s = Inr (b, s') \<longleftrightarrow>
   (\<exists>config. zk_conf s = Some config \<and> zk_spent s (zp_nullifier p) = None \<and> proof_well_formed h p \<and>
      proof_recent env p \<and>
      (zp_attestation_uid p = 0 \<or> zc_sas_contract config = sas \<and> verify_attestation env t (zp_attestation_uid p)) \<and>
      b \<and> s' = spend env p s)"
proof (cases "zk_conf s")
  case None
  then show ?thesis
    by (simp add: verify_and_consume_proof_def zk_get_config_def)
next
  case (Some config)
  have "(if zp_attestation_uid p \<noteq> 0
     then check_sas_validity (sas_calls_of env sas t) (zc_sas_contract config) (zp_attestation_uid p) (timestamp env)
     else Inr ()) = Inr () \<longleftrightarrow>
      zp_attestation_uid p = 0 \<or> zc_sas_contract config = sas \<and> verify_attestation env t (zp_attestation_uid p)"
  proof (cases "zc_sas_contract config = sas")
    case True
    then show ?thesis
      by (simp add: check_sas_validity_iff)
  next
    case False
    then show ?thesis
      by (simp add: check_sas_validity_def sas_calls_of_def)
  qed
  with verify_and_consume_proof_Inr [OF Some] Some show ?thesis
    by simp
qed

section \<open>Runs of the verifier\<close>

text \<open>
  The states a verifier reaches, with the proofs it has accepted. SAS may answer anything and change
  between the calls; a failing call changes nothing.
\<close>

inductive zk_run :: "host \<Rightarrow> zk_state \<Rightarrow> zk_attestation_proof list \<Rightarrow> bool" for h where
  zk_deployed: "zk_run h fresh_zk []"
| zk_initialised: "zk_run h s l \<Longrightarrow> zk_init env admin sas_contract s = Inr s' \<Longrightarrow> zk_run h s' l"
| zk_accepted: "zk_run h s l \<Longrightarrow> verify_and_consume_proof h env calls p s = Inr (b, s') \<Longrightarrow> zk_run h s' (l @ [p])"

lemma zk_run_invariant:
  assumes "zk_run h s l"
  shows "distinct (map zp_nullifier l) \<and> dom (zk_spent s) = zp_nullifier ` set l \<and>
    dom (zk_commitments s) = zp_commitment ` set l \<and> (\<forall>p \<in> set l. proof_well_formed h p)"
  using assms
proof induction
  case zk_deployed
  then show ?case
    by (simp add: fresh_zk_def)
next
  case (zk_initialised s l env admin sas_contract s')
  then obtain c where "s' = s\<lparr>zk_conf := c\<rparr>"
    by (auto simp: zk_init_def result_iff)
  with zk_initialised.IH show ?case
    by simp
next
  case (zk_accepted s l env calls p b s')
  from verify_and_consume_proof_effect [OF zk_accepted.hyps(2)]
  have new: "zp_nullifier p \<notin> dom (zk_spent s)" "proof_well_formed h p" "s' = spend env p s"
    by auto
  with zk_accepted.IH have "zp_nullifier p \<notin> zp_nullifier ` set l"
    by simp
  with new(2,3) zk_accepted.IH show ?case
    by (simp add: spend_def del: fun_upd_apply)
qed

text \<open>
  C21: A nullifier is spent at most once, and the verifier accepts exactly what its checks say. Over any
  sequence of calls, whatever SAS answers, no two accepted proofs share a nullifier, and the single and
  the batch query report exactly the accepted nullifiers and commitments. Connected to a SAS instance,
  a further proof is accepted if and only if its nullifier is new, its first 32 bytes are the hash of
  commitment and nullifier, it is at most seven days old and not from the future, and it names no
  attestation or one that SAS verifies at that moment.
\<close>

theorem nullifier_spent_once:
  assumes "zk_run h s l" and "zk_conf s = Some config" and "zc_sas_contract config = sas"
  shows "distinct (map zp_nullifier l) \<and>
    (is_nullifier_used s n \<longleftrightarrow> n \<in> zp_nullifier ` set l) \<and>
    (is_commitment_verified s c \<longleftrightarrow> c \<in> zp_commitment ` set l) \<and>
    are_nullifiers_used s ns =
      (if length ns > MAX_NULLIFIER_BATCH then Inl (Panic ZkBatchTooLarge)
       else Inr (map (\<lambda>n. n \<in> zp_nullifier ` set l) ns)) \<and>
    (is_ok (verify_and_consume_proof h env (sas_calls_of env sas t) p s) \<longleftrightarrow>
       zp_nullifier p \<notin> zp_nullifier ` set l \<and> proof_well_formed h p \<and> proof_recent env p \<and>
       (zp_attestation_uid p = 0 \<or> verify_attestation env t (zp_attestation_uid p)))"
proof -
  note inv = zk_run_invariant [OF assms(1)]
  then have spent: "zk_spent s n = None \<longleftrightarrow> n \<notin> zp_nullifier ` set l" for n
    by (auto simp: domIff [symmetric])
  have "is_ok (verify_and_consume_proof h env (sas_calls_of env sas t) p s) \<longleftrightarrow>
      (\<exists>s'. verify_and_consume_proof h env (sas_calls_of env sas t) p s = Inr (True, s'))"
    by (auto simp: is_ok_iff dest: verify_and_consume_proof_effect)
  moreover have "zk_commitments s c \<noteq> None \<longleftrightarrow> c \<in> zp_commitment ` set l"
    using inv by (auto simp: domIff [symmetric])
  ultimately show ?thesis
    using inv assms(2,3)
    by (simp add: verify_and_consume_proof_iff is_nullifier_used_def is_commitment_verified_def
        are_nullifiers_used_def spent)
qed

definition sample_zk :: zk_state where
  "sample_zk = fresh_zk\<lparr>zk_conf := Some \<lparr>zc_admin = Account 1, zc_sas_contract = Contract 2\<rparr>\<rparr>"

definition sample_zk_proof :: zk_attestation_proof where
  "sample_zk_proof = \<lparr>zp_attestation_uid = 123, zp_schema_uid = 12, zp_nullifier = 5, zp_commitment = 6,
     zp_proof = bytes32_to_array 64, zp_timestamp = 900\<rparr>"

theorem nullifier_spent_once_witness:
  "\<not> is_nullifier_used sample_zk 5 \<and>
   is_ok (verify_and_consume_proof toy_host sample_env (sas_calls_of sample_env (Contract 2) (holding_state 3))
     sample_zk_proof sample_zk)"
proof -
  have run: "zk_run toy_host sample_zk []"
    by (rule zk_initialised [OF zk_deployed, of sample_env "Account 1" "Contract 2"])
      (simp add: zk_init_def require_auth_def sample_env_def sample_zk_def fresh_zk_def)
  have "proof_well_formed toy_host sample_zk_proof"
    by (simp add: proof_well_formed_def sample_zk_proof_def binding_payload_def toy_host_def)
  moreover have "proof_recent sample_env sample_zk_proof"
    by (simp add: proof_recent_def sample_zk_proof_def sample_env_def)
  moreover have "verify_attestation sample_env (holding_state 3) 123"
    by (simp add: verify_attestation_def verify_attestation_record_def sample_read_holding sample_new_def
        sample_env_def validate_expiration_def)
  ultimately show ?thesis
    using nullifier_spent_once [OF run, of _ "Contract 2" 5 0 "[]" sample_env "holding_state 3" sample_zk_proof]
    by (simp add: sample_zk_def) (simp add: sample_zk_proof_def)
qed

end
