(* ===== verification/Cross_Chain.thy ===== *)
theory Cross_Chain
  imports Common_Types
begin

text \<open>
  The cross-chain verifier (\<^verbatim>\<open>contracts/cross-chain-verifier/src/lib.rs\<close>): it records verdicts about
  attestations on another chain, received through an Axelar gateway (\<^verbatim>\<open>execute\<close>) or a LayerZero endpoint
  (\<^verbatim>\<open>lz_receive\<close>), in a fixed wire format. The gateway contract and the strkey decoder of the host are
  parameters.
\<close>

section \<open>State\<close>

definition MAX_VALIDITY_SECONDS :: u64 where "MAX_VALIDITY_SECONDS = 86400"
definition STATUS_PAYLOAD_LEN :: nat where "STATUS_PAYLOAD_LEN = 50"
definition PROOF_PAYLOAD_HEADER_LEN :: nat where "PROOF_PAYLOAD_HEADER_LEN = STATUS_PAYLOAD_LEN + 32 + 20 + 56 + 2"
definition MAX_PROOF_DATA_LEN :: nat where "MAX_PROOF_DATA_LEN = 1024"
definition MAX_CHAIN_LEN :: nat where "MAX_CHAIN_LEN = 64"
definition MAX_ADDRESS_LEN :: nat where "MAX_ADDRESS_LEN = 128"
definition MAX_MESSAGE_ID_LEN :: nat where "MAX_MESSAGE_ID_LEN = 128"

datatype cross_chain_error =
    CcAlreadyInitialized | CcNotInitialized | CcInvalidConfig | CcWrongSource | CcInvalidPayload
  | CcInvalidValidity | CcStaleRevision | CcMessageNotApproved | CcUnauthorizedEndpoint

type_synonym 'a cc_result = "(cross_chain_error, 'a) result"

record origin =
  or_src_eid :: nat
  or_sender :: bytes32
  or_nonce :: u64

record layer_zero_config =
  lz_endpoint :: address
  lz_src_eid :: nat
  lz_sender :: bytes32

record source_config =
  so_admin :: address
  so_gateway :: address
  so_source_chain :: bytes
  so_source_address :: bytes

record remote_attestation =
  rm_uid :: uid
  rm_revision :: u64
  rm_valid_until :: u64
  rm_valid :: bool

type_synonym bytes20 = "160 word"

record remote_proof =
  rp_schema_uid :: uid
  rp_evm_recipient :: bytes20
  rp_recipient :: address
  rp_data :: bytes

datatype (plugins only: code size) cc_event =
    RemoteAttestationUpdated bytes remote_attestation
  | CrossChainAttestationReceived bytes32 nat bytes32 uid u64 bool

record cc_state =
  cc_config :: "source_config option"
  cc_admin :: "address option"
  cc_lz :: "layer_zero_config option"
  cc_status :: "uid \<rightharpoonup> remote_attestation"
  cc_proof :: "uid \<rightharpoonup> remote_proof"
  cc_events :: "cc_event list"

definition fresh_cc :: cc_state where
  "fresh_cc = \<lparr>cc_config = None, cc_admin = None, cc_lz = None, cc_status = Map.empty,
     cc_proof = Map.empty, cc_events = []\<rparr>"

definition cc_get_config :: "cc_state \<Rightarrow> source_config cc_result" where
  "cc_get_config s = or_panic CcNotInitialized (cc_config s)"

section \<open>Wire format\<close>

text \<open>\<^verbatim>\<open>Bytes::get\<close>, and the loops that copy a range of it into an array.\<close>

definition get_byte :: "bytes \<Rightarrow> nat \<Rightarrow> byte option" where
  "get_byte payload i = (if i < length payload then Some (payload ! i) else None)"

definition get_range :: "bytes \<Rightarrow> nat \<Rightarrow> nat \<Rightarrow> bytes cc_result" where
  "get_range payload start n =
     (if start + n \<le> length payload then Inr (take n (drop start payload)) else Inl (Panic CcInvalidPayload))"

primrec shift_in :: "bytes \<Rightarrow> u64 \<Rightarrow> u64" where
  "shift_in [] acc = acc"
| "shift_in (b # bs) acc = shift_in bs (push_bit 8 acc OR ucast b)"

definition decode_status :: "bytes \<Rightarrow> remote_attestation cc_result" where
  "decode_status payload =
     (if get_byte payload 0 = Some 1 \<and> length payload \<noteq> STATUS_PAYLOAD_LEN
         \<or> get_byte payload 0 = Some 2 \<and> length payload < PROOF_PAYLOAD_HEADER_LEN
         \<or> \<not> (get_byte payload 0 = Some 1 \<or> get_byte payload 0 = Some 2)
      then Inl (Panic CcInvalidPayload)
      else
        bind_r (get_range payload 1 32) (\<lambda>u.
        bind_r (get_range payload 33 8) (\<lambda>revision.
        bind_r (get_range payload 41 8) (\<lambda>valid_until.
        bind_r (if get_byte payload 49 = Some 0 then Inr False
                else if get_byte payload 49 = Some 1 then Inr True
                else Inl (Panic CcInvalidPayload)) (\<lambda>valid.
        Inr \<lparr>rm_uid = bytes32_of_array u, rm_revision = shift_in revision 0,
             rm_valid_until = shift_in valid_until 0, rm_valid = valid\<rparr>)))))"

definition bytes20_of_array :: "bytes \<Rightarrow> bytes20" where
  "bytes20_of_array bs = word_of_nat (be_value bs)"

text \<open>\<open>strkey\<close> is \<^verbatim>\<open>Address::from_string_bytes\<close> of the host, which traps on a malformed strkey.\<close>

type_synonym strkey_decoder = "bytes \<Rightarrow> address option"

definition decode_proof :: "strkey_decoder \<Rightarrow> bytes \<Rightarrow> remote_proof option cc_result" where
  "decode_proof strkey payload =
     (if get_byte payload 0 \<noteq> Some 2 then Inr None
      else
        bind_r (or_panic CcInvalidPayload (get_byte payload 158)) (\<lambda>high.
        bind_r (or_panic CcInvalidPayload (get_byte payload 159)) (\<lambda>low.
        let data_len = unat high * 256 + unat low in
        if data_len > MAX_PROOF_DATA_LEN \<or> length payload \<noteq> PROOF_PAYLOAD_HEADER_LEN + data_len
        then Inl (Panic CcInvalidPayload)
        else
          bind_r (or_trap (strkey (take 56 (drop 102 payload)))) (\<lambda>recipient.
          Inr (Some \<lparr>rp_schema_uid = bytes32_of_array (take 32 (drop 50 payload)),
                     rp_evm_recipient = bytes20_of_array (take 20 (drop 82 payload)),
                     rp_recipient = recipient, rp_data = take data_len (drop 160 payload)\<rparr>)))))"

section \<open>Operations\<close>

definition cc_init ::
  "ledger_env \<Rightarrow> address \<Rightarrow> address \<Rightarrow> bytes \<Rightarrow> bytes \<Rightarrow> cc_state \<Rightarrow> cc_state cc_result" where
  "cc_init env admin gateway source_chain source_address s =
     (if cc_config s \<noteq> None then Inl (Panic CcAlreadyInitialized)
      else bind_r (require_auth env admin) (\<lambda>_.
        if gateway = current_contract env \<or> source_chain = [] \<or> length source_chain > MAX_CHAIN_LEN
           \<or> source_address = [] \<or> length source_address > MAX_ADDRESS_LEN
        then Inl (Panic CcInvalidConfig)
        else Inr (s\<lparr>cc_config := Some \<lparr>so_admin = admin, so_gateway = gateway,
                      so_source_chain = source_chain, so_source_address = source_address\<rparr>\<rparr>)))"

text \<open>The checks of a decoded verdict that \<^verbatim>\<open>execute\<close> and \<^verbatim>\<open>lz_receive\<close> share, and what both record.\<close>

definition check_validity :: "u64 \<Rightarrow> remote_attestation \<Rightarrow> unit cc_result" where
  "check_validity now status =
     (if rm_revision status = 0
         \<or> rm_valid status \<and> (rm_valid_until status \<le> now
             \<or> rm_valid_until status > saturating_add_u64 now MAX_VALIDITY_SECONDS)
         \<or> \<not> rm_valid status \<and> rm_valid_until status \<noteq> 0
      then Inl (Panic CcInvalidValidity) else Inr ())"

definition check_revision :: "remote_attestation \<Rightarrow> cc_state \<Rightarrow> unit cc_result" where
  "check_revision status s =
     (case cc_status s (rm_uid status) of
        Some previous \<Rightarrow> if rm_revision status \<le> rm_revision previous then Inl (Panic CcStaleRevision) else Inr ()
      | None \<Rightarrow> Inr ())"

definition record_verdict :: "remote_attestation \<Rightarrow> remote_proof option \<Rightarrow> cc_event \<Rightarrow> cc_state \<Rightarrow> cc_state" where
  "record_verdict status remote ev s =
     s\<lparr>cc_status := (cc_status s)(rm_uid status \<mapsto> status),
       cc_proof := (cc_proof s)(rm_uid status := remote),
       cc_events := cc_events s @ [ev]\<rparr>"

text \<open>
  \<open>gateway\<close> is \<^verbatim>\<open>validate_message\<close> of the contract at an address, called with this contract's address, the
  source tuple and the payload hash: its answer and what it leaves behind, or \<^verbatim>\<open>None\<close> when the call fails.
\<close>

type_synonym 'w gateway =
  "address \<Rightarrow> address \<Rightarrow> bytes \<Rightarrow> bytes \<Rightarrow> bytes \<Rightarrow> bytes32 \<Rightarrow> 'w \<Rightarrow> (bool \<times> 'w) option"

definition execute ::
  "host \<Rightarrow> strkey_decoder \<Rightarrow> 'w gateway \<Rightarrow> ledger_env \<Rightarrow> bytes \<Rightarrow> bytes \<Rightarrow> bytes \<Rightarrow> bytes \<Rightarrow> cc_state \<Rightarrow> 'w
    \<Rightarrow> (remote_attestation \<times> cc_state \<times> 'w) cc_result" where
  "execute h strkey gateway env source_chain message_id source_address payload s w =
     bind_r (cc_get_config s) (\<lambda>trusted.
     if source_chain \<noteq> so_source_chain trusted \<or> source_address \<noteq> so_source_address trusted
     then Inl (Panic CcWrongSource)
     else if message_id = [] \<or> length message_id > MAX_MESSAGE_ID_LEN then Inl (Panic CcInvalidPayload)
     else
       bind_r (decode_status payload) (\<lambda>status.
       bind_r (decode_proof strkey payload) (\<lambda>remote.
       bind_r (check_validity (timestamp env) status) (\<lambda>_.
       bind_r (check_revision status s) (\<lambda>_.
       case gateway (so_gateway trusted) (current_contract env) source_chain message_id source_address
              (keccak256 h payload) w of
         Some (True, w') \<Rightarrow>
           Inr (status, record_verdict status remote (RemoteAttestationUpdated message_id status) s, w')
       | _ \<Rightarrow> Inl (Panic CcMessageNotApproved))))))"

definition get_status :: "cc_state \<Rightarrow> uid \<Rightarrow> remote_attestation option" where
  "get_status s u = cc_status s u"

definition get_proof :: "cc_state \<Rightarrow> uid \<Rightarrow> remote_proof option" where
  "get_proof s u = cc_proof s u"

definition verify_remote :: "ledger_env \<Rightarrow> cc_state \<Rightarrow> uid \<Rightarrow> bool" where
  "verify_remote env s u =
     (case get_status s u of
        None \<Rightarrow> False
      | Some status \<Rightarrow> rm_valid status \<and> rm_valid_until status > timestamp env)"

definition set_lz_config ::
  "ledger_env \<Rightarrow> address \<Rightarrow> address \<Rightarrow> nat \<Rightarrow> bytes32 \<Rightarrow> cc_state \<Rightarrow> cc_state cc_result" where
  "set_lz_config env caller endpoint src_eid sender s =
     bind_r (require_auth env caller) (\<lambda>_.
     let admin = (case cc_config s of
                    Some conf \<Rightarrow> so_admin conf
                  | None \<Rightarrow> (case cc_admin s of Some admin \<Rightarrow> admin | None \<Rightarrow> caller)) in
     if caller \<noteq> admin then Inl (Panic CcUnauthorizedEndpoint)
     else if endpoint = current_contract env \<or> src_eid = 0 then Inl (Panic CcInvalidConfig)
     else Inr (s\<lparr>cc_admin := Some admin,
                 cc_lz := Some \<lparr>lz_endpoint = endpoint, lz_src_eid = src_eid, lz_sender = sender\<rparr>\<rparr>))"

definition get_lz_config :: "cc_state \<Rightarrow> layer_zero_config cc_result" where
  "get_lz_config s = or_panic CcNotInitialized (cc_lz s)"

definition lz_receive ::
  "strkey_decoder \<Rightarrow> ledger_env \<Rightarrow> origin \<Rightarrow> bytes32 \<Rightarrow> bytes \<Rightarrow> cc_state \<Rightarrow> (remote_attestation \<times> cc_state) cc_result" where
  "lz_receive strkey env orig guid message s =
     bind_r (get_lz_config s) (\<lambda>trusted.
     bind_r (require_auth env (lz_endpoint trusted)) (\<lambda>_.
     if or_src_eid orig \<noteq> lz_src_eid trusted then Inl (Panic CcUnauthorizedEndpoint)
     else if or_sender orig \<noteq> lz_sender trusted then Inl (Panic CcWrongSource)
     else if guid = 0 then Inl (Panic CcInvalidPayload)
     else
       bind_r (decode_status message) (\<lambda>status.
       bind_r (decode_proof strkey message) (\<lambda>remote.
       bind_r (check_validity (timestamp env) status) (\<lambda>_.
       bind_r (check_revision status s) (\<lambda>_.
       Inr (status, record_verdict status remote
              (CrossChainAttestationReceived guid (or_src_eid orig) (or_sender orig) (rm_uid status)
                 (rm_revision status) (rm_valid status)) s)))))))"

section \<open>Round trip of the wire format\<close>

definition bytes20_to_array :: "bytes20 \<Rightarrow> bytes" where
  "bytes20_to_array w = be_bytes 20 (unat w)"

lemma length_bytes20_to_array [simp]: "length (bytes20_to_array w) = 20"
  by (simp add: bytes20_to_array_def)

lemma bytes20_to_of_array: "length bs = 20 \<Longrightarrow> bytes20_to_array (bytes20_of_array bs) = bs"
  using unat_word_of_be_value [of bs, where 'w = 160] be_bytes_value [of bs]
  by (simp add: bytes20_to_array_def bytes20_of_array_def)

lemma bytes20_array_roundtrip [simp]: "bytes20_of_array (bytes20_to_array w) = w"
proof -
  have "unat w < 2 ^ LENGTH(160)"
    by (rule unsigned_less)
  then have "unat w < 256 ^ 20"
    by simp
  then show ?thesis
    by (simp only: bytes20_of_array_def bytes20_to_array_def be_value_bytes mod_less of_nat_unat ucast_id)
qed

text \<open>Shifting the bytes in one by one reads them as a big-endian number.\<close>

lemma push_bit_or_byte: "push_bit 8 acc OR ucast b = acc * 256 + ucast b" for acc :: u64 and b :: byte
proof -
  have "push_bit 8 acc AND ucast b = 0"
    by (rule bit_eqI) (auto simp: bit_simps dest: bit_imp_le_length)
  then have "push_bit 8 acc + ucast b = push_bit 8 acc OR ucast b"
    by (simp add: disjunctive_add bit_eq_iff [of _ 0] bit_simps)
  then show ?thesis
    by (simp add: push_bit_eq_mult mult.commute)
qed

lemma shift_in_value: "shift_in bs acc = word_of_nat (foldl (\<lambda>acc b. acc * 256 + unat b) n bs)"
  if "acc = word_of_nat n"
  using that
proof (induction bs arbitrary: acc n)
  case (Cons b bs)
  have "push_bit 8 acc OR ucast b = (word_of_nat (n * 256 + unat b) :: u64)"
    using Cons.prems by (simp add: push_bit_or_byte)
  with Cons.IH [of "push_bit 8 acc OR ucast b" "n * 256 + unat b"] show ?case
    by (simp only: shift_in.simps foldl_Cons)
qed simp

lemma shift_in_from_be_bytes: "shift_in bs 0 = u64_from_be_bytes bs"
  using shift_in_value [of 0 0 bs] by (simp add: u64_from_be_bytes_def be_value_def)

text \<open>
  The encoder of the wire format: the version byte, the verdict, and for version 2 the proof fields with
  the recipient's strkey \<open>key\<close>.
\<close>

definition encode_verdict :: "byte \<Rightarrow> remote_attestation \<Rightarrow> bytes" where
  "encode_verdict version st =
     [version] @ bytes32_to_array (rm_uid st) @ u64_to_be_bytes (rm_revision st) @
     u64_to_be_bytes (rm_valid_until st) @ [of_bool (rm_valid st)]"

definition encode_proof :: "bytes \<Rightarrow> remote_proof \<Rightarrow> bytes" where
  "encode_proof key r =
     bytes32_to_array (rp_schema_uid r) @ bytes20_to_array (rp_evm_recipient r) @ key @
     be_bytes 2 (length (rp_data r)) @ rp_data r"

lemma length_encode_verdict [simp]: "length (encode_verdict v st) = 50"
  by (simp add: encode_verdict_def)

lemma encode_verdict_parts:
  "get_byte (encode_verdict v st @ rest) 0 = Some v"
  "get_range (encode_verdict v st @ rest) 1 32 = Inr (bytes32_to_array (rm_uid st))"
  "get_range (encode_verdict v st @ rest) 33 8 = Inr (u64_to_be_bytes (rm_revision st))"
  "get_range (encode_verdict v st @ rest) 41 8 = Inr (u64_to_be_bytes (rm_valid_until st))"
  "get_byte (encode_verdict v st @ rest) 49 = Some (of_bool (rm_valid st))"
  by (simp_all add: encode_verdict_def get_byte_def get_range_def nth_append nth_Cons' drop_Cons')

lemma decode_status_encode:
  assumes "v = 1 \<and> rest = [] \<or> v = 2 \<and> 110 \<le> length rest"
  shows "decode_status (encode_verdict v st @ rest) = Inr st"
  using assms
  by (cases st) (auto simp: decode_status_def encode_verdict_parts shift_in_from_be_bytes
      STATUS_PAYLOAD_LEN_def PROOF_PAYLOAD_HEADER_LEN_def simp del: One_nat_def)

lemma slice_drop: "take n (drop k xs) @ drop (n + k) xs = drop k xs"
  by (simp flip: drop_drop)

lemma decode_status_canonical:
  assumes "decode_status m = Inr st"
  shows "\<exists>v rest. m = encode_verdict v st @ rest \<and> (v = 1 \<and> rest = [] \<or> v = 2 \<and> 110 \<le> length rest)"
proof -
  obtain v where v: "get_byte m 0 = Some v" and shape: "v = 1 \<and> length m = 50 \<or> v = 2 \<and> 160 \<le> length m"
    using assms by (auto simp: decode_status_def STATUS_PAYLOAD_LEN_def PROOF_PAYLOAD_HEADER_LEN_def split: if_splits)
  then have len: "50 \<le> length m"
    by auto
  have st: "rm_uid st = bytes32_of_array (take 32 (drop 1 m))"
      "rm_revision st = u64_from_be_bytes (take 8 (drop 33 m))"
      "rm_valid_until st = u64_from_be_bytes (take 8 (drop 41 m))"
    and flag: "get_byte m 49 = Some (of_bool (rm_valid st))"
    using assms len
    by (auto simp: decode_status_def get_range_def shift_in_from_be_bytes result_iff split: if_splits)
  have "take 1 m = [v]" and "take 1 (drop 49 m) = [of_bool (rm_valid st)]"
    using v flag len by (auto simp: get_byte_def take_Suc_conv_app_nth split: if_splits)
  moreover have "take 1 m @ take 32 (drop 1 m) @ take 8 (drop 33 m) @ take 8 (drop 41 m) @ take 1 (drop 49 m) @ drop 50 m = m"
    using slice_drop [of 32 1 m] slice_drop [of 8 33 m] slice_drop [of 8 41 m] slice_drop [of 1 49 m]
    by simp
  ultimately have "m = encode_verdict v st @ drop 50 m"
    using len by (simp add: encode_verdict_def st bytes32_to_of_array u64_to_from_be_bytes)
  with shape show ?thesis
    by (intro exI [of _ v] exI [of _ "drop 50 m"]) auto
qed

lemma encode_proof_parts:
  assumes "length key = 56" and "length (rp_data r) \<le> 1024"
  shows "length (encode_proof key r) = 110 + length (rp_data r)"
    "take 32 (encode_proof key r) = bytes32_to_array (rp_schema_uid r)"
    "take 20 (drop 32 (encode_proof key r)) = bytes20_to_array (rp_evm_recipient r)"
    "take 56 (drop 52 (encode_proof key r)) = key"
    "take 2 (drop 108 (encode_proof key r)) = be_bytes 2 (length (rp_data r))"
    "drop 110 (encode_proof key r) = rp_data r"
  using assms by (simp_all add: encode_proof_def)

lemma be_value_two: "be_value [x, y] = unat x * 256 + unat y"
  by (simp add: be_value_def)

lemma take_two: "Suc i < length xs \<Longrightarrow> take 2 (drop i xs) = [xs ! i, xs ! Suc i]"
  by (simp add: take_Suc_conv_app_nth numeral_2_eq_2)

text \<open>The proof fields of a version 2 message, in terms of what follows the verdict.\<close>

lemma decode_proof_v2:
  assumes "110 \<le> length rest"
  shows "decode_proof strkey (encode_verdict 2 st @ rest) =
    (let n = be_value (take 2 (drop 108 rest)) in
     if n > 1024 \<or> length rest \<noteq> 110 + n then Inl (Panic CcInvalidPayload)
     else bind_r (or_trap (strkey (take 56 (drop 52 rest)))) (\<lambda>recipient.
       Inr (Some \<lparr>rp_schema_uid = bytes32_of_array (take 32 rest),
         rp_evm_recipient = bytes20_of_array (take 20 (drop 32 rest)),
         rp_recipient = recipient, rp_data = take n (drop 110 rest)\<rparr>)))"
proof -
  have "take 2 (drop 108 rest) = [rest ! 108, rest ! 109]"
    using assms take_two [of 108 rest] by simp
  moreover have "get_byte (encode_verdict 2 st @ rest) 158 = Some (rest ! 108)"
      "get_byte (encode_verdict 2 st @ rest) 159 = Some (rest ! 109)"
    using assms by (simp_all add: get_byte_def nth_append)
  ultimately show ?thesis
    by (simp add: decode_proof_def encode_verdict_parts be_value_two MAX_PROOF_DATA_LEN_def
        PROOF_PAYLOAD_HEADER_LEN_def STATUS_PAYLOAD_LEN_def Let_def)
qed

lemma decode_proof_v2_Some: "decode_proof strkey (encode_verdict 2 st @ rest) \<noteq> Inr None"
  by (simp add: decode_proof_def encode_verdict_parts result_iff Let_def)

lemma decode_proof_encode:
  assumes "length key = 56" and "length (rp_data r) \<le> 1024" and "strkey key = Some (rp_recipient r)"
  shows "decode_proof strkey (encode_verdict 2 st @ encode_proof key r) = Inr (Some r)"
proof -
  have "be_value (be_bytes 2 (length (rp_data r))) = length (rp_data r)"
    using assms(2) by (simp add: be_value_bytes)
  with encode_proof_parts [OF assms(1,2)] assms show ?thesis
    by (cases r) (simp add: decode_proof_v2)
qed

lemma decode_proof_canonical:
  assumes "decode_proof strkey (encode_verdict 2 st @ rest) = Inr (Some r)" and "110 \<le> length rest"
  shows "\<exists>key. length key = 56 \<and> length (rp_data r) \<le> 1024 \<and> strkey key = Some (rp_recipient r) \<and>
    rest = encode_proof key r"
proof -
  define n where "n = be_value (take 2 (drop 108 rest))"
  have "(if n > 1024 \<or> length rest \<noteq> 110 + n then Inl (Panic CcInvalidPayload)
     else bind_r (or_trap (strkey (take 56 (drop 52 rest)))) (\<lambda>recipient.
       Inr (Some \<lparr>rp_schema_uid = bytes32_of_array (take 32 rest),
         rp_evm_recipient = bytes20_of_array (take 20 (drop 32 rest)),
         rp_recipient = recipient, rp_data = take n (drop 110 rest)\<rparr>))) = Inr (Some r)"
    using assms(1) unfolding decode_proof_v2 [OF assms(2)] Let_def n_def [symmetric] .
  then have n: "n \<le> 1024" "length rest = 110 + n"
    and key: "strkey (take 56 (drop 52 rest)) = Some (rp_recipient r)"
    and r: "rp_schema_uid r = bytes32_of_array (take 32 rest)"
      "rp_evm_recipient r = bytes20_of_array (take 20 (drop 32 rest))" "rp_data r = drop 110 rest"
    by (auto simp: result_iff split: if_splits)
  have "be_bytes 2 n = take 2 (drop 108 rest)"
    using assms(2) be_bytes_value [of "take 2 (drop 108 rest)"] by (simp add: n_def)
  moreover have "take 32 rest @ take 20 (drop 32 rest) @ take 56 (drop 52 rest) @ take 2 (drop 108 rest) @ drop 110 rest = rest"
    using slice_drop [of 20 32 rest] slice_drop [of 56 52 rest] slice_drop [of 2 108 rest]
    by simp
  ultimately have "rest = encode_proof (take 56 (drop 52 rest)) r"
    using n by (simp add: encode_proof_def r bytes32_to_of_array bytes20_to_of_array)
  with n key r assms(2) show ?thesis
    by (intro exI [of _ "take 56 (drop 52 rest)"]) simp
qed

text \<open>
  C23: The wire format has exactly one encoding per message. A payload decodes to a verdict without
  proof fields if and only if it is the 50-byte version 1 encoding of that verdict; it decodes to a
  verdict with proof fields if and only if it is the version 2 encoding of both, with at most 1024 bytes
  of data and a 56-byte strkey of the recipient. So encoding and decoding are inverse to each other and
  nothing else is accepted.
\<close>

theorem wire_format_exact:
  "decode_status m = Inr st \<and> decode_proof strkey m = Inr r \<longleftrightarrow>
   (case r of
      None \<Rightarrow> m = encode_verdict 1 st
    | Some p \<Rightarrow> \<exists>key. length key = 56 \<and> length (rp_data p) \<le> 1024 \<and> strkey key = Some (rp_recipient p) \<and>
        m = encode_verdict 2 st @ encode_proof key p)"
proof
  assume dec: "decode_status m = Inr st \<and> decode_proof strkey m = Inr r"
  then obtain v rest where m: "m = encode_verdict v st @ rest"
    and v: "v = 1 \<and> rest = [] \<or> v = 2 \<and> 110 \<le> length rest"
    using decode_status_canonical by blast
  show "case r of None \<Rightarrow> m = encode_verdict 1 st | Some p \<Rightarrow> \<exists>key. length key = 56 \<and>
      length (rp_data p) \<le> 1024 \<and> strkey key = Some (rp_recipient p) \<and> m = encode_verdict 2 st @ encode_proof key p"
  proof (cases "v = 1")
    case True
    with dec m v show ?thesis
      by (auto simp: decode_proof_def encode_verdict_parts)
  next
    case False
    with v have v2: "v = 2" "110 \<le> length rest"
      by auto
    with dec m obtain p where r: "r = Some p"
      using decode_proof_v2_Some [of strkey st rest] by (cases r) auto
    with dec m v2 decode_proof_canonical [of strkey st rest p] show ?thesis
      by auto
  qed
next
  assume "case r of None \<Rightarrow> m = encode_verdict 1 st | Some p \<Rightarrow> \<exists>key. length key = 56 \<and>
      length (rp_data p) \<le> 1024 \<and> strkey key = Some (rp_recipient p) \<and> m = encode_verdict 2 st @ encode_proof key p"
  then show "decode_status m = Inr st \<and> decode_proof strkey m = Inr r"
    using decode_status_encode [of 1 "[]" st] encode_verdict_parts(1) [of 1 st "[]"]
    by (auto simp: decode_status_encode decode_proof_encode encode_proof_parts(1) decode_proof_def [of _ "encode_verdict 1 st"]
        split: option.splits)
qed

section \<open>Runs of the verifier\<close>

text \<open>One successful call, with the verdict it records.\<close>

inductive cc_step ::
  "host \<Rightarrow> strkey_decoder \<Rightarrow> 'w gateway \<Rightarrow> ledger_env \<Rightarrow> cc_state \<Rightarrow> (remote_attestation \<times> remote_proof option) option
    \<Rightarrow> cc_state \<Rightarrow> bool" for h strkey gw env where
  cc_init_step: "cc_init env admin gateway source_chain source_address s = Inr s' \<Longrightarrow> cc_step h strkey gw env s None s'"
| cc_lz_step: "set_lz_config env caller endpoint src_eid sender s = Inr s' \<Longrightarrow> cc_step h strkey gw env s None s'"
| cc_execute_step: "execute h strkey gw env source_chain message_id source_address payload s w = Inr (st, s', w') \<Longrightarrow>
    decode_proof strkey payload = Inr r \<Longrightarrow> cc_step h strkey gw env s (Some (st, r)) s'"
| cc_receive_step: "lz_receive strkey env orig guid payload s = Inr (st, s') \<Longrightarrow>
    decode_proof strkey payload = Inr r \<Longrightarrow> cc_step h strkey gw env s (Some (st, r)) s'"

text \<open>The states a verifier reaches, with the verdicts it recorded and the ledger times at which it did.\<close>

type_synonym verdict = "u64 \<times> remote_attestation \<times> remote_proof option"

inductive cc_run :: "host \<Rightarrow> strkey_decoder \<Rightarrow> 'w gateway \<Rightarrow> cc_state \<Rightarrow> verdict list \<Rightarrow> bool" for h strkey gw where
  cc_deployed: "cc_run h strkey gw fresh_cc []"
| cc_quiet: "cc_run h strkey gw s l \<Longrightarrow> cc_step h strkey gw env s None s' \<Longrightarrow> cc_run h strkey gw s' l"
| cc_recorded: "cc_run h strkey gw s l \<Longrightarrow> cc_step h strkey gw env s (Some (st, r)) s' \<Longrightarrow>
    cc_run h strkey gw s' (l @ [(timestamp env, st, r)])"

definition verdicts :: "verdict list \<Rightarrow> uid \<Rightarrow> verdict list" where
  "verdicts l u = filter (\<lambda>(t, st, r). rm_uid st = u) l"

definition last_verdict :: "verdict list \<Rightarrow> uid \<Rightarrow> verdict option" where
  "last_verdict l u = (if verdicts l u = [] then None else Some (last (verdicts l u)))"

text \<open>The message behind a verdict was approved by the gateway for this contract, or sent by the endpoint.\<close>

definition authentic :: "host \<Rightarrow> 'w gateway \<Rightarrow> ledger_env \<Rightarrow> cc_state \<Rightarrow> remote_attestation \<Rightarrow> bool" where
  "authentic h gw env s st \<longleftrightarrow>
     (\<exists>payload. decode_status payload = Inr st \<and>
       ((\<exists>trusted message_id w w'. cc_config s = Some trusted \<and>
           gw (so_gateway trusted) (current_contract env) (so_source_chain trusted) message_id
             (so_source_address trusted) (keccak256 h payload) w = Some (True, w')) \<or>
        (\<exists>trusted. cc_lz s = Some trusted \<and> authorized env (lz_endpoint trusted))))"

lemma approved_Inr_iff [result_iff]:
  "(case g of Some (True, w) \<Rightarrow> Inr (f w) | _ \<Rightarrow> Inl e) = Inr y \<longleftrightarrow> (\<exists>w. g = Some (True, w) \<and> y = f w)"
  by (auto split: option.splits prod.splits bool.splits)

lemma execute_effect:
  assumes "execute h strkey gw env source_chain message_id source_address payload s w = Inr (st, s', w')"
    and "decode_proof strkey payload = Inr r"
  shows "authentic h gw env s st \<and> check_validity (timestamp env) st = Inr () \<and> check_revision st s = Inr () \<and>
    (\<exists>ev. s' = record_verdict st r ev s)"
proof -
  from assms obtain trusted where
    "cc_config s = Some trusted" "source_chain = so_source_chain trusted" "source_address = so_source_address trusted"
    "decode_status payload = Inr st" "check_validity (timestamp env) st = Inr ()" "check_revision st s = Inr ()"
    "gw (so_gateway trusted) (current_contract env) source_chain message_id source_address (keccak256 h payload) w
       = Some (True, w')"
    "s' = record_verdict st r (RemoteAttestationUpdated message_id st) s"
    unfolding execute_def cc_get_config_def bind_r_Inr_iff or_panic_Inr_iff if_Inl_Inr_iff approved_Inr_iff
    by auto
  then show ?thesis
    by (auto simp: authentic_def)
qed

lemma lz_receive_effect:
  assumes "lz_receive strkey env orig guid payload s = Inr (st, s')" and "decode_proof strkey payload = Inr r"
  shows "authentic h gw env s st \<and> check_validity (timestamp env) st = Inr () \<and> check_revision st s = Inr () \<and>
    (\<exists>ev. s' = record_verdict st r ev s)"
  using assms by (auto simp: lz_receive_def get_lz_config_def authentic_def result_iff)

lemma cc_step_quiet: "cc_step h strkey gw env s None s' \<Longrightarrow> cc_status s' = cc_status s \<and> cc_proof s' = cc_proof s"
  by (auto elim!: cc_step.cases simp: cc_init_def set_lz_config_def result_iff Let_def split: if_splits)

lemma cc_step_recorded:
  assumes "cc_step h strkey gw env s (Some (st, r)) s'"
  shows "authentic h gw env s st \<and> check_validity (timestamp env) st = Inr () \<and> check_revision st s = Inr () \<and>
    (\<exists>ev. s' = record_verdict st r ev s)"
  using assms by (auto elim!: cc_step.cases dest: execute_effect lz_receive_effect)

lemma verdicts_snoc:
  "verdicts (l @ [(t, st, r)]) u = verdicts l u @ (if rm_uid st = u then [(t, st, r)] else [])"
  by (simp add: verdicts_def)

lemma last_verdict_snoc:
  "last_verdict (l @ [(t, st, r)]) u = (if rm_uid st = u then Some (t, st, r) else last_verdict l u)"
  by (simp add: last_verdict_def verdicts_snoc)

lemma sorted_snoc_last:
  "sorted_wrt (<) xs \<Longrightarrow> xs = [] \<or> last xs < y \<Longrightarrow> sorted_wrt (<) (xs @ [y])" for y :: "'a::linorder"
proof (cases xs rule: rev_cases)
  case (snoc zs z)
  assume "sorted_wrt (<) xs" and "xs = [] \<or> last xs < y"
  with snoc show ?thesis
    by (auto simp: sorted_wrt_append intro: less_trans)
qed simp

lemma valid_until_bound:
  assumes "check_validity t st = Inr ()" and "rm_valid st"
  shows "unat (rm_valid_until st) \<le> unat t + 86400"
proof -
  from assms have "rm_valid_until st \<le> saturating_add_u64 t MAX_VALIDITY_SECONDS"
    by (auto simp: check_validity_def not_less split: if_splits)
  then have "unat (rm_valid_until st) \<le> unat (saturating_add_u64 t MAX_VALIDITY_SECONDS)"
    by (simp add: word_le_nat_alt)
  also have "\<dots> \<le> unat t + 86400"
    using unat_u64_less [of t] unat_u64_less [of "-1"]
    by (auto simp: saturating_add_u64_def MAX_VALIDITY_SECONDS_def unat_word_ariths)
  finally show ?thesis .
qed

lemma cc_run_invariant:
  assumes "cc_run h strkey gw s l"
  shows "cc_status s u = map_option (\<lambda>(t, st, r). st) (last_verdict l u) \<and>
    cc_proof s u = Option.bind (last_verdict l u) (\<lambda>(t, st, r). r) \<and>
    sorted_wrt (<) (map (\<lambda>(t, st, r). rm_revision st) (verdicts l u)) \<and>
    (\<forall>(t, st, r) \<in> set l. check_validity t st = Inr ())"
  using assms
proof (induction arbitrary: u)
  case cc_deployed
  then show ?case
    by (simp add: fresh_cc_def last_verdict_def verdicts_def)
next
  case (cc_quiet s l env s')
  with cc_step_quiet [OF cc_quiet.hyps(2)] show ?case
    by simp
next
  case (cc_recorded s l env st r s')
  let ?rev = "\<lambda>(t, st, r). rm_revision st"
  from cc_step_recorded [OF cc_recorded.hyps(2)] obtain ev where
    ok: "check_validity (timestamp env) st = Inr ()" "check_revision st s = Inr ()"
    and s': "s' = record_verdict st r ev s"
    by blast
  have "verdicts l (rm_uid st) = [] \<or> last (map ?rev (verdicts l (rm_uid st))) < rm_revision st"
    using ok(2) cc_recorded.IH [of "rm_uid st"]
    by (auto simp: check_revision_def last_verdict_def last_map split_def not_le split: if_splits)
  then have "sorted_wrt (<) (map ?rev (verdicts l (rm_uid st)) @ [rm_revision st])"
    using cc_recorded.IH [of "rm_uid st"] by (intro sorted_snoc_last) auto
  with ok(1) cc_recorded.IH [of u] show ?case
    by (auto simp: s' record_verdict_def last_verdict_snoc verdicts_snoc)
qed

text \<open>
  C22: The remote verdict is the latest authentic one, and it expires. Over any sequence of calls, the
  stored verdict and proof fields of a UID are those of the last recorded message about it, the recorded
  revisions of a UID strictly increase, and \<^verbatim>\<open>verify_remote\<close> holds exactly while that last verdict is
  positive and its deadline is ahead, which is less than 24 hours after it was recorded. A call that
  changes the verdict of a UID carries a message that the configured gateway approved for this contract
  and source, or that the configured LayerZero endpoint delivered.
\<close>

theorem remote_verdict_sound:
  assumes "cc_run h strkey gw s l"
  shows "get_status s u = map_option (\<lambda>(t, st, r). st) (last_verdict l u) \<and>
    get_proof s u = Option.bind (last_verdict l u) (\<lambda>(t, st, r). r) \<and>
    sorted_wrt (<) (map (\<lambda>(t, st, r). rm_revision st) (verdicts l u)) \<and>
    (verify_remote env s u \<longleftrightarrow>
      (\<exists>t st r. last_verdict l u = Some (t, st, r) \<and> rm_valid st \<and> timestamp env < rm_valid_until st)) \<and>
    (verify_remote env s u \<longrightarrow>
      (\<exists>t st r. last_verdict l u = Some (t, st, r) \<and> unat (timestamp env) < unat t + 86400)) \<and>
    (cc_step h strkey gw env s x s' \<longrightarrow> get_status s' u \<noteq> get_status s u \<longrightarrow>
      (\<exists>st. get_status s' u = Some st \<and> authentic h gw env s st))"
proof -
  note inv = cc_run_invariant [OF assms, of u]
  have verify: "verify_remote env s u \<longleftrightarrow>
      (\<exists>t st r. last_verdict l u = Some (t, st, r) \<and> rm_valid st \<and> timestamp env < rm_valid_until st)"
    using inv by (auto simp: verify_remote_def get_status_def split: option.splits)
  have "unat (timestamp env) < unat t + 86400"
    if "last_verdict l u = Some (t, st, r)" "rm_valid st" "timestamp env < rm_valid_until st" for t st r
  proof -
    have "(t, st, r) \<in> set (verdicts l u)"
      using that(1) by (auto simp: last_verdict_def split: if_splits dest!: sym [of "last _"])
    with inv have "check_validity t st = Inr ()"
      by (auto simp: verdicts_def)
    from valid_until_bound [OF this that(2)] that(3) show ?thesis
      by (simp add: word_less_nat_alt)
  qed
  moreover have "\<exists>st. get_status s' u = Some st \<and> authentic h gw env s st"
    if "cc_step h strkey gw env s x s'" "get_status s' u \<noteq> get_status s u"
    using that cc_step_quiet cc_step_recorded
    by (cases x) (fastforce simp: get_status_def record_verdict_def split: if_splits)+
  ultimately show ?thesis
    using inv verify by (auto simp: get_status_def get_proof_def)
qed

text \<open>A verifier bound to a gateway that approves, at a ledger time of 1000, with one message received.\<close>

definition cc_host :: host where
  "cc_host = \<lparr>sha256 = (\<lambda>_. 0), keccak256 = (\<lambda>_. 0), ed25519_valid = (\<lambda>_ _ _. True), to_xdr = (\<lambda>_. [])\<rparr>"

definition cc_env :: ledger_env where
  "cc_env = \<lparr>timestamp = 1000, sequence = 50, network_id = 1, current_contract = Contract 2, authorized = (\<lambda>_. True)\<rparr>"

definition approving_gateway :: "unit gateway" where
  "approving_gateway g c chain message_id addr payload_hash w = Some (True, w)"

definition cc_bound :: cc_state where
  "cc_bound = fresh_cc\<lparr>cc_config := Some \<lparr>so_admin = Account 1, so_gateway = Contract 9,
     so_source_chain = [1], so_source_address = [2]\<rparr>\<rparr>"

definition cc_verdict :: remote_attestation where
  "cc_verdict = \<lparr>rm_uid = 7, rm_revision = 1, rm_valid_until = 2000, rm_valid = True\<rparr>"

lemma cc_sample_run:
  "cc_run cc_host (\<lambda>_. None) approving_gateway
     (record_verdict cc_verdict None (RemoteAttestationUpdated [5] cc_verdict) cc_bound) [(1000, cc_verdict, None)]"
proof -
  let ?m = "encode_verdict 1 cc_verdict"
  have "cc_init cc_env (Account 1) (Contract 9) [1] [2] fresh_cc = Inr cc_bound"
    by (simp add: cc_init_def fresh_cc_def cc_bound_def require_auth_def cc_env_def MAX_CHAIN_LEN_def MAX_ADDRESS_LEN_def)
  then have bound: "cc_run cc_host (\<lambda>_. None) approving_gateway cc_bound []"
    by (rule cc_quiet [OF cc_deployed cc_init_step])
  have "decode_status ?m = Inr cc_verdict"
    using decode_status_encode [of 1 "[]" cc_verdict] by simp
  moreover have fields: "decode_proof (\<lambda>_. None) ?m = Inr None"
    using encode_verdict_parts(1) [of 1 cc_verdict "[]"] by (simp add: decode_proof_def)
  ultimately have "execute cc_host (\<lambda>_. None) approving_gateway cc_env [1] [5] [2] ?m cc_bound ()
      = Inr (cc_verdict, record_verdict cc_verdict None (RemoteAttestationUpdated [5] cc_verdict) cc_bound, ())"
    by (simp add: execute_def cc_get_config_def cc_bound_def MAX_MESSAGE_ID_LEN_def check_validity_def
        check_revision_def approving_gateway_def cc_verdict_def cc_env_def fresh_cc_def
        saturating_add_u64_def MAX_VALIDITY_SECONDS_def)
  from cc_recorded [OF bound cc_execute_step [OF this fields]] show ?thesis
    by (simp add: cc_env_def)
qed

theorem remote_verdict_sound_witness:
  "verify_remote cc_env (record_verdict cc_verdict None (RemoteAttestationUpdated [5] cc_verdict) cc_bound) 7"
  using remote_verdict_sound [OF cc_sample_run, of 7 cc_env]
  by (simp add: last_verdict_def verdicts_def cc_verdict_def cc_env_def)

section \<open>The LayerZero configuration before initialisation\<close>

text \<open>
  Until \<^verbatim>\<open>init\<close> has run, anybody can install an endpoint of their own, and it stays in force after another
  admin has initialised the contract.
\<close>

lemma lz_config_before_init:
  assumes "authorized env caller" and "endpoint \<noteq> current_contract env" and "src_eid \<noteq> 0"
    and "cc_config s = None" and "cc_admin s = None"
  shows "\<exists>s'. set_lz_config env caller endpoint src_eid sender s = Inr s' \<and>
    (\<forall>env' admin gateway chain addr s''. cc_init env' admin gateway chain addr s' = Inr s'' \<longrightarrow>
       get_lz_config s'' = Inr \<lparr>lz_endpoint = endpoint, lz_src_eid = src_eid, lz_sender = sender\<rparr>)"
  using assms
  by (auto simp: set_lz_config_def require_auth_def cc_init_def get_lz_config_def result_iff)

end
