(* ===== verification/Eip712.thy ===== *)
theory Eip712
  imports Typed_Data "HOL-Library.List_Lexorder"
begin

text \<open>
  Generic EIP-712 hashing (\<^verbatim>\<open>packages/soroban-sas-common/src/eip712.rs\<close>): declared struct types, the canonical
  type string with its dependencies, the encoding of values, and the typed-data digest. A \<^verbatim>\<open>&str\<close> is its UTF-8
  bytes, whose lexicographic order is the order of \<^verbatim>\<open>str\<close>. The hash is \<^verbatim>\<open>keccak256\<close> of the host.
\<close>

section \<open>Declarations and values\<close>

definition EIP712_PREFIX :: bytes where "EIP712_PREFIX = [25, 1]"

datatype schema_error = UnknownStruct | ArityMismatch | TypeMismatch

type_synonym 'a schema_result = "schema_error + 'a"

datatype field_type =
    FUint nat
  | FInt nat
  | FBool
  | FAddress
  | FBytes
  | FFixedBytes nat
  | FStr
  | FStruct bytes
  | FArray field_type

record field_def =
  fd_name :: bytes
  fd_ty :: field_type

record struct_def =
  sd_name :: bytes
  sd_fields :: "field_def list"

datatype field_value =
    VWord bytes32
  | VDynamic bytes
  | VStruct bytes "field_value list"
  | VList field_type "field_value list"

text \<open>The decimal digits of a number, least significant first, and their output in reading order.\<close>

function decimal_digits :: "nat \<Rightarrow> bytes" where
  "decimal_digits n = (if n > 0 then (48 + word_of_nat (n mod 10)) # decimal_digits (n div 10) else [])"
  by pat_completeness auto
termination
  by (relation "measure id") auto

declare decimal_digits.simps [simp del]

definition write_u32 :: "nat \<Rightarrow> bytes" where
  "write_u32 n = (if n = 0 then [48] else rev (decimal_digits n))"

primrec write_name :: "field_type \<Rightarrow> bytes" where
  "write_name (FUint bits) = [117, 105, 110, 116] @ write_u32 bits"
| "write_name (FInt bits) = [105, 110, 116] @ write_u32 bits"
| "write_name FBool = [98, 111, 111, 108]"
| "write_name FAddress = [97, 100, 100, 114, 101, 115, 115]"
| "write_name FBytes = [98, 121, 116, 101, 115]"
| "write_name (FFixedBytes n) = [98, 121, 116, 101, 115] @ write_u32 n"
| "write_name FStr = [115, 116, 114, 105, 110, 103]"
| "write_name (FStruct name) = name"
| "write_name (FArray element) = write_name element @ [91, 93]"

definition is_dynamic :: "field_type \<Rightarrow> bool" where
  "is_dynamic ty = (case ty of FBytes \<Rightarrow> True | FStr \<Rightarrow> True | FArray _ \<Rightarrow> True | _ \<Rightarrow> False)"

primrec referenced_struct :: "field_type \<Rightarrow> bytes option" where
  "referenced_struct (FUint _) = None"
| "referenced_struct (FInt _) = None"
| "referenced_struct FBool = None"
| "referenced_struct FAddress = None"
| "referenced_struct FBytes = None"
| "referenced_struct (FFixedBytes _) = None"
| "referenced_struct FStr = None"
| "referenced_struct (FStruct name) = Some name"
| "referenced_struct (FArray element) = referenced_struct element"

section \<open>Words\<close>

definition from_bool :: "bool \<Rightarrow> field_value" where
  "from_bool value = VWord (bytes32_of_array (replicate 31 0 @ [of_bool value]))"

definition from_u64 :: "u64 \<Rightarrow> field_value" where
  "from_u64 value = VWord (bytes32_of_array (replicate 24 0 @ u64_to_be_bytes value))"

definition from_u128 :: "128 word \<Rightarrow> field_value" where
  "from_u128 value = VWord (bytes32_of_array (replicate 16 0 @ be_bytes 16 (unat value)))"

definition from_i128 :: "128 word \<Rightarrow> field_value" where
  "from_i128 value =
     VWord (bytes32_of_array (replicate 16 (if sint value < 0 then 255 else 0) @ be_bytes 16 (unat value)))"

definition from_bytes32 :: "bytes32 \<Rightarrow> field_value" where
  "from_bytes32 value = VWord value"

definition from_right_aligned :: "bytes \<Rightarrow> field_value option" where
  "from_right_aligned bs =
     (if length bs > 32 then None else Some (VWord (bytes32_of_array (replicate (32 - length bs) 0 @ bs))))"

definition from_address :: "bytes \<Rightarrow> field_value option" where
  "from_address bs = from_right_aligned bs"

section \<open>Type strings\<close>

definition find_struct :: "struct_def list \<Rightarrow> bytes \<Rightarrow> struct_def option" where
  "find_struct defs name = find (\<lambda>def. sd_name def = name) defs"

primrec write_fields :: "bool \<Rightarrow> field_def list \<Rightarrow> bytes" where
  "write_fields first [] = []"
| "write_fields first (field # rest) =
     (if first then [] else [44]) @ write_name (fd_ty field) @ [32] @ fd_name field @ write_fields False rest"

definition write_struct_type :: "struct_def \<Rightarrow> bytes" where
  "write_struct_type def = sd_name def @ [40] @ write_fields True (sd_fields def) @ [41]"

primrec references :: "nat \<Rightarrow> struct_def list \<Rightarrow> bytes \<Rightarrow> bytes \<Rightarrow> bool" where
  "references 0 defs start target = False"
| "references (Suc budget) defs start target =
     (case find_struct defs start of
        None \<Rightarrow> False
      | Some def \<Rightarrow> list_ex (\<lambda>field.
          case referenced_struct (fd_ty field) of
            Some name \<Rightarrow> name = target \<or> references budget defs name target
          | None \<Rightarrow> False) (sd_fields def))"

text \<open>One pass over the declarations: the smallest dependency above the one written last.\<close>

primrec next_dependency ::
  "(bytes \<Rightarrow> bool) \<Rightarrow> bytes \<Rightarrow> bytes option \<Rightarrow> struct_def list \<Rightarrow> bytes option \<Rightarrow> bytes option" where
  "next_dependency reachable primary previous [] best = best"
| "next_dependency reachable primary previous (def # defs) best =
     next_dependency reachable primary previous defs
       (if sd_name def = primary \<or> \<not> reachable (sd_name def) then best
        else if (case previous of Some p \<Rightarrow> sd_name def \<le> p | None \<Rightarrow> False) then best
        else (case best of
                Some current \<Rightarrow> if current \<le> sd_name def then Some current else Some (sd_name def)
              | None \<Rightarrow> Some (sd_name def)))"

definition candidates :: "(bytes \<Rightarrow> bool) \<Rightarrow> bytes \<Rightarrow> bytes option \<Rightarrow> struct_def list \<Rightarrow> bytes set" where
  "candidates reachable primary previous defs =
     {n \<in> sd_name ` set defs. n \<noteq> primary \<and> reachable n \<and> (case previous of Some p \<Rightarrow> p < n | None \<Rightarrow> True)}"

lemma candidates_Cons:
  "candidates reachable primary previous (def # defs) =
   (if sd_name def = primary \<or> \<not> reachable (sd_name def) \<or> (case previous of Some p \<Rightarrow> sd_name def \<le> p | None \<Rightarrow> False)
    then candidates reachable primary previous defs
    else insert (sd_name def) (candidates reachable primary previous defs))"
  by (auto simp: candidates_def not_le split: option.splits)

lemma finite_candidates [simp]: "finite (candidates reachable primary previous defs)"
  by (simp add: candidates_def)

lemma next_dependency_Min:
  "next_dependency reachable primary previous defs best =
   (let names = set_option best \<union> candidates reachable primary previous defs in
    if names = {} then None else Some (Min names))"
proof (induction defs arbitrary: best)
  case Nil
  then show ?case
    by (cases best) (simp_all add: candidates_def)
next
  case (Cons def defs)
  let ?n = "sd_name def" and ?C = "candidates reachable primary previous defs"
  show ?case
  proof (cases "?n = primary \<or> \<not> reachable ?n \<or> (case previous of Some p \<Rightarrow> ?n \<le> p | None \<Rightarrow> False)")
    case True
    then have "candidates reachable primary previous (def # defs) = ?C"
      by (simp add: candidates_Cons)
    moreover from True have "next_dependency reachable primary previous (def # defs) best
        = next_dependency reachable primary previous defs best"
      by auto
    ultimately show ?thesis
      using Cons.IH by simp
  next
    case False
    then have C: "candidates reachable primary previous (def # defs) = insert ?n ?C"
      by (simp only: candidates_Cons if_False)
    have "next_dependency reachable primary previous (def # defs) best
        = next_dependency reachable primary previous defs (Some (case best of Some current \<Rightarrow> min current ?n | None \<Rightarrow> ?n))"
      using False by (auto simp: min_def split: option.splits)
    also have "\<dots> = Some (Min (insert (case best of Some current \<Rightarrow> min current ?n | None \<Rightarrow> ?n) ?C))"
      by (simp add: Cons.IH Let_def)
    also have "Min (insert (case best of Some current \<Rightarrow> min current ?n | None \<Rightarrow> ?n) ?C) = Min (set_option best \<union> insert ?n ?C)"
      by (cases best; cases "?C = {}") (simp_all add: ac_simps)
    finally show ?thesis
      by (simp add: C)
  qed
qed

function dependency_loop ::
  "(bytes \<Rightarrow> bool) \<Rightarrow> bytes \<Rightarrow> struct_def list \<Rightarrow> bytes option \<Rightarrow> bytes \<Rightarrow> bytes" where
  "dependency_loop reachable primary defs previous out =
     (case next_dependency reachable primary previous defs None of
        None \<Rightarrow> out
      | Some name \<Rightarrow> dependency_loop reachable primary defs (Some name)
          (case find_struct defs name of Some def \<Rightarrow> out @ write_struct_type def | None \<Rightarrow> out))"
  by pat_completeness auto
termination
proof (relation "measure (\<lambda>(reachable, primary, defs, previous, out). card (candidates reachable primary previous defs))", goal_cases)
  case (2 reachable primary defs previous out name)
  let ?c = "candidates reachable primary previous defs"
  from 2 have "?c \<noteq> {}" and name: "name = Min ?c"
    by (auto simp: next_dependency_Min Let_def split: if_splits)
  then have "name \<in> ?c"
    by simp
  moreover from this have "candidates reachable primary (Some name) defs \<subseteq> ?c - {name}"
    by (auto simp: candidates_def split: option.splits dest: less_trans)
  ultimately show ?case
    by (auto intro!: psubset_card_mono)
qed simp

declare dependency_loop.simps [simp del]

definition encode_type :: "struct_def list \<Rightarrow> bytes \<Rightarrow> bytes" where
  "encode_type defs primary =
     (case find_struct defs primary of
        None \<Rightarrow> []
      | Some primary_def \<Rightarrow>
          let budget = length defs + 1 in
          dependency_loop (references budget defs primary) primary defs None (write_struct_type primary_def))"

definition type_hash :: "host \<Rightarrow> struct_def list \<Rightarrow> bytes \<Rightarrow> bytes32 schema_result" where
  "type_hash h defs primary =
     (if find_struct defs primary = None then Inl UnknownStruct
      else Inr (keccak256 h (encode_type defs primary)))"

section \<open>Encoding of values\<close>

definition bind_s :: "'a schema_result \<Rightarrow> ('a \<Rightarrow> 'b schema_result) \<Rightarrow> 'b schema_result" where
  "bind_s r f = (case r of Inl e \<Rightarrow> Inl e | Inr x \<Rightarrow> f x)"

lemma bind_s_simps [simp]: "bind_s (Inl e) f = Inl e" "bind_s (Inr x) f = f x"
  by (simp_all add: bind_s_def)

lemma bind_s_Inr_iff: "bind_s r f = Inr y \<longleftrightarrow> (\<exists>x. r = Inr x \<and> f x = Inr y)"
  by (cases r) auto

lemma bind_s_cong [fundef_cong]: "r = r' \<Longrightarrow> (\<And>x. r' = Inr x \<Longrightarrow> f x = g x) \<Longrightarrow> bind_s r f = bind_s r' g"
  by (cases r') auto

text \<open>
  \<open>encode_fields\<close> is the loop of \<^verbatim>\<open>encode_data\<close> over the fields and their values, \<open>encode_elements\<close> the loop of
  \<^verbatim>\<open>encode_list\<close>; both stop at the first error.
\<close>

function (sequential) encode_field :: "host \<Rightarrow> struct_def list \<Rightarrow> field_type \<Rightarrow> field_value \<Rightarrow> bytes schema_result" and
  encode_fields :: "host \<Rightarrow> struct_def list \<Rightarrow> field_type list \<Rightarrow> field_value list \<Rightarrow> bytes schema_result" and
  encode_elements :: "host \<Rightarrow> struct_def list \<Rightarrow> field_type \<Rightarrow> field_value list \<Rightarrow> bytes schema_result" and
  encode_data :: "host \<Rightarrow> struct_def list \<Rightarrow> bytes \<Rightarrow> field_value list \<Rightarrow> bytes schema_result" and
  hash_struct :: "host \<Rightarrow> struct_def list \<Rightarrow> bytes \<Rightarrow> field_value list \<Rightarrow> bytes32 schema_result" and
  encode_list :: "host \<Rightarrow> struct_def list \<Rightarrow> field_type \<Rightarrow> field_value list \<Rightarrow> bytes32 schema_result" where
  "encode_field h defs ty (VWord w) =
     (if referenced_struct ty \<noteq> None \<or> is_dynamic ty then Inl TypeMismatch else Inr (bytes32_to_array w))"
| "encode_field h defs ty (VDynamic preimage) =
     (if ty \<noteq> FBytes \<and> ty \<noteq> FStr then Inl TypeMismatch else Inr (bytes32_to_array (keccak256 h preimage)))"
| "encode_field h defs ty (VStruct name values) =
     (case ty of
        FStruct declared \<Rightarrow>
          if declared \<noteq> name then Inl TypeMismatch
          else bind_s (hash_struct h defs name values) (\<lambda>d. Inr (bytes32_to_array d))
      | _ \<Rightarrow> Inl TypeMismatch)"
| "encode_field h defs ty (VList element values) =
     (case ty of
        FArray declared \<Rightarrow>
          if declared \<noteq> element then Inl TypeMismatch
          else bind_s (encode_list h defs element values) (\<lambda>d. Inr (bytes32_to_array d))
      | _ \<Rightarrow> Inl TypeMismatch)"
| "encode_fields h defs (ty # tys) (v # vs) =
     bind_s (encode_field h defs ty v) (\<lambda>b. bind_s (encode_fields h defs tys vs) (\<lambda>bs. Inr (b @ bs)))"
| "encode_fields h defs _ _ = Inr []"
| "encode_elements h defs ty [] = Inr []"
| "encode_elements h defs ty (v # vs) =
     bind_s (encode_field h defs ty v) (\<lambda>b. bind_s (encode_elements h defs ty vs) (\<lambda>bs. Inr (b @ bs)))"
| "encode_data h defs name values =
     (case find_struct defs name of
        None \<Rightarrow> Inl UnknownStruct
      | Some def \<Rightarrow>
          if length (sd_fields def) \<noteq> length values then Inl ArityMismatch
          else encode_fields h defs (map fd_ty (sd_fields def)) values)"
| "hash_struct h defs name values =
     bind_s (encode_data h defs name values) (\<lambda>encoded.
     bind_s (type_hash h defs name) (\<lambda>th. Inr (keccak256 h (bytes32_to_array th @ encoded))))"
| "encode_list h defs element values =
     bind_s (encode_elements h defs element values) (\<lambda>buffer. Inr (keccak256 h buffer))"
  by pat_completeness auto
termination
  by (relation "measure (\<lambda>x. case x of
      Inl (Inl (_, _, _, v)) \<Rightarrow> 3 * size v
    | Inl (Inr (Inl (_, _, _, vs))) \<Rightarrow> 3 * size_list size vs
    | Inl (Inr (Inr (_, _, _, vs))) \<Rightarrow> 3 * size_list size vs
    | Inr (Inl (_, _, _, vs)) \<Rightarrow> 3 * size_list size vs + 1
    | Inr (Inr (Inl (_, _, _, vs))) \<Rightarrow> 3 * size_list size vs + 2
    | Inr (Inr (Inr (_, _, _, vs))) \<Rightarrow> 3 * size_list size vs + 2)") auto

definition hash_typed_data_with_prefix ::
  "host \<Rightarrow> bytes \<Rightarrow> struct_def list \<Rightarrow> bytes \<Rightarrow> field_value list \<Rightarrow> bytes32 \<Rightarrow> bytes32 schema_result" where
  "hash_typed_data_with_prefix h prefix defs primary values domain_separator =
     bind_s (hash_struct h defs primary values) (\<lambda>struct_hash.
     Inr (keccak256 h (prefix @ bytes32_to_array domain_separator @ bytes32_to_array struct_hash)))"

definition hash_typed_data ::
  "host \<Rightarrow> struct_def list \<Rightarrow> bytes \<Rightarrow> field_value list \<Rightarrow> bytes32 \<Rightarrow> bytes32 schema_result" where
  "hash_typed_data h defs primary values domain_separator =
     hash_typed_data_with_prefix h EIP712_PREFIX defs primary values domain_separator"

section \<open>The drift guard of the hand-written tags\<close>

primrec split_on :: "byte \<Rightarrow> bytes \<Rightarrow> bytes list" where
  "split_on c [] = [[]]"
| "split_on c (b # bs) =
     (if b = c then [] # split_on c bs
      else (case split_on c bs of (piece # pieces) \<Rightarrow> (b # piece) # pieces | [] \<Rightarrow> [[b]]))"

primrec names_match :: "bytes list \<Rightarrow> field_def list \<Rightarrow> nat \<Rightarrow> bool" where
  "names_match [] defs index = (index = length defs)"
| "names_match (name # names) defs index =
     (if index \<ge> length defs \<or> name \<noteq> fd_name (defs ! index) then False
      else names_match names defs (index + 1))"

text \<open>\<^verbatim>\<open>position\<close> and \<^verbatim>\<open>rposition\<close> of the standard library.\<close>

primrec position :: "byte \<Rightarrow> bytes \<Rightarrow> nat option" where
  "position c [] = None"
| "position c (b # bs) = (if b = c then Some 0 else map_option Suc (position c bs))"

primrec rposition :: "byte \<Rightarrow> bytes \<Rightarrow> nat option" where
  "rposition c [] = None"
| "rposition c (b # bs) =
     (case rposition c bs of Some i \<Rightarrow> Some (Suc i) | None \<Rightarrow> if b = c then Some 0 else None)"

definition tag_matches_defs :: "bytes \<Rightarrow> struct_def \<Rightarrow> bool" where
  "tag_matches_defs tag def =
     (case position 40 tag of
        None \<Rightarrow> False
      | Some opening \<Rightarrow>
          (case rposition 41 tag of
             None \<Rightarrow> False
           | Some closing \<Rightarrow>
               if closing \<le> opening then False
               else names_match (split_on 44 (take (closing - (opening + 1)) (drop (opening + 1) tag))) (sd_fields def) 0))"

text \<open>The \<^verbatim>\<open>v1\<close> declarations of the three signed payloads, and their check against the literal tags.\<close>

definition DOMAIN_FIELDS :: "field_def list" where
  "DOMAIN_FIELDS =
     [\<lparr>fd_name = ascii ''network_id'', fd_ty = FFixedBytes 32\<rparr>,
      \<lparr>fd_name = ascii ''contract'', fd_ty = FBytes\<rparr>,
      \<lparr>fd_name = ascii ''nonce'', fd_ty = FUint 64\<rparr>]"

definition DOMAIN :: struct_def where
  "DOMAIN = \<lparr>sd_name = ascii ''Domain'', sd_fields = DOMAIN_FIELDS\<rparr>"

definition ATTESTATION_FIELDS :: "field_def list" where
  "ATTESTATION_FIELDS =
     [\<lparr>fd_name = ascii ''uid'', fd_ty = FFixedBytes 32\<rparr>,
      \<lparr>fd_name = ascii ''schema_uid'', fd_ty = FFixedBytes 32\<rparr>,
      \<lparr>fd_name = ascii ''time'', fd_ty = FUint 64\<rparr>,
      \<lparr>fd_name = ascii ''expiration_time'', fd_ty = FUint 64\<rparr>,
      \<lparr>fd_name = ascii ''ref_uid'', fd_ty = FFixedBytes 32\<rparr>,
      \<lparr>fd_name = ascii ''recipient'', fd_ty = FBytes\<rparr>,
      \<lparr>fd_name = ascii ''attester'', fd_ty = FBytes\<rparr>,
      \<lparr>fd_name = ascii ''revocable'', fd_ty = FBool\<rparr>,
      \<lparr>fd_name = ascii ''data'', fd_ty = FBytes\<rparr>]"

definition ATTESTATION :: struct_def where
  "ATTESTATION = \<lparr>sd_name = ascii ''Attestation'', sd_fields = ATTESTATION_FIELDS\<rparr>"

definition DELEGATED_REVOCATION_FIELDS :: "field_def list" where
  "DELEGATED_REVOCATION_FIELDS =
     [\<lparr>fd_name = ascii ''uid'', fd_ty = FFixedBytes 32\<rparr>,
      \<lparr>fd_name = ascii ''attester'', fd_ty = FBytes\<rparr>]"

definition DELEGATED_REVOCATION :: struct_def where
  "DELEGATED_REVOCATION = \<lparr>sd_name = ascii ''DelegatedRevocation'', sd_fields = DELEGATED_REVOCATION_FIELDS\<rparr>"

definition TAGS :: "(bytes \<times> struct_def) list" where
  "TAGS =
     [(DOMAIN_TYPE_TAG, DOMAIN), (ATTESTATION_TYPE_TAG, ATTESTATION),
      (DELEGATED_REVOCATION_TYPE_TAG, DELEGATED_REVOCATION)]"

definition v1_tag_matches_defs :: bool where
  "v1_tag_matches_defs = list_all (\<lambda>(tag, def). tag_matches_defs tag def) TAGS"

section \<open>The drift guard is exact\<close>

text \<open>The names of a declaration, separated by commas.\<close>

primrec join_names :: "bytes list \<Rightarrow> bytes" where
  "join_names [] = []"
| "join_names (name # names) = (if names = [] then name else name @ [44] @ join_names names)"

lemma split_on_not_Nil [simp]: "split_on c bs \<noteq> []"
  by (cases bs) (auto split: list.splits)

lemma split_on_append: "c \<notin> set name \<Longrightarrow> split_on c (name @ c # rest) = name # split_on c rest"
  by (induction name) auto

lemma split_on_free: "c \<notin> set name \<Longrightarrow> split_on c name = [name]"
  by (induction name) auto

lemma split_join:
  "names \<noteq> [] \<Longrightarrow> \<forall>name\<in>set names. 44 \<notin> set name \<Longrightarrow> split_on 44 (join_names names) = names"
  by (induction names) (auto simp: split_on_append split_on_free)

lemma join_split: "join_names (split_on 44 bs) = bs"
  by (induction bs) (auto split: list.splits)

lemma names_match_iff:
  "names_match names defs index \<longleftrightarrow> index + length names = length defs \<and> names = map fd_name (drop index defs)"
  if "index \<le> length defs" for names index
  using that
proof (induction names arbitrary: index)
  case (Cons name names)
  show ?case
  proof (cases "index < length defs")
    case True
    then have "drop index defs = defs ! index # drop (index + 1) defs"
      by (simp add: Cons_nth_drop_Suc)
    with True show ?thesis
      using Cons.IH [of "index + 1"] by auto
  qed (use Cons.prems in auto)
qed auto

lemma position_Some_iff:
  "position c bs = Some i \<longleftrightarrow> i < length bs \<and> bs ! i = c \<and> c \<notin> set (take i bs)"
proof (induction bs arbitrary: i)
  case (Cons b bs)
  then show ?case by (cases i) auto
qed simp

lemma position_append: "c \<notin> set pre \<Longrightarrow> position c (pre @ c # rest) = Some (length pre)"
  by (auto simp: position_Some_iff)

lemma rposition_None_iff: "rposition c bs = None \<longleftrightarrow> c \<notin> set bs"
  by (induction bs) (auto split: option.splits)

lemma rposition_append: "c \<notin> set rest \<Longrightarrow> rposition c (pre @ c # rest) = Some (length pre)"
  by (induction pre) (auto simp: rposition_None_iff [symmetric] split: option.splits)

lemma rposition_SomeD:
  "rposition c bs = Some i \<Longrightarrow> \<exists>pre rest. bs = pre @ c # rest \<and> length pre = i \<and> c \<notin> set rest"
proof (induction bs arbitrary: i)
  case (Cons b bs)
  show ?case
  proof (cases "rposition c bs")
    case None
    with Cons.prems show ?thesis
      by (auto simp: rposition_None_iff split: if_splits intro!: exI [of _ "[]"])
  next
    case (Some j)
    with Cons.IH [OF Some] obtain pre rest where "bs = pre @ c # rest" "length pre = j" "c \<notin> set rest"
      by blast
    with Some Cons.prems show ?thesis
      by (intro exI [of _ "b # pre"] exI [of _ rest]) auto
  qed
qed simp

lemma tag_matches_iff:
  assumes names: "\<forall>field\<in>set (sd_fields def). 44 \<notin> set (fd_name field)" and nonempty: "sd_fields def \<noteq> []"
  shows "tag_matches_defs tag def \<longleftrightarrow>
    (\<exists>pre post. tag = pre @ [40] @ join_names (map fd_name (sd_fields def)) @ [41] @ post \<and> 40 \<notin> set pre \<and> 41 \<notin> set post)"
    (is "_ \<longleftrightarrow> (\<exists>pre post. tag = pre @ [40] @ ?body @ [41] @ post \<and> _ pre \<and> _ post)")
proof
  assume "tag_matches_defs tag def"
  then obtain i j where i: "position 40 tag = Some i" and j: "rposition 41 tag = Some j" and less: "i < j"
    and match: "names_match (split_on 44 (take (j - (i + 1)) (drop (i + 1) tag))) (sd_fields def) 0"
    by (auto simp: tag_matches_defs_def split: option.splits if_splits)
  let ?mid = "take (j - (i + 1)) (drop (i + 1) tag)"
  from match have "split_on 44 ?mid = map fd_name (sd_fields def)"
    by (simp add: names_match_iff)
  then have mid: "?mid = ?body"
    by (metis join_split)
  from j obtain pre rest where tag: "tag = pre @ 41 # rest" and pre: "length pre = j" and rest: "41 \<notin> set rest"
    using rposition_SomeD by blast
  from i less tag pre have "pre = take i tag @ 40 # drop (i + 1) pre"
    using id_take_nth_drop [of i pre] by (auto simp: position_Some_iff nth_append)
  moreover from tag pre less have "drop (i + 1) pre = ?mid"
    by simp
  ultimately have "tag = take i tag @ [40] @ ?body @ [41] @ rest"
    using tag mid by (metis append.assoc append_Cons append_Nil)
  moreover from i have "40 \<notin> set (take i tag)"
    by (simp add: position_Some_iff)
  ultimately show "\<exists>pre post. tag = pre @ [40] @ ?body @ [41] @ post \<and> 40 \<notin> set pre \<and> 41 \<notin> set post"
    using rest by blast
next
  assume "\<exists>pre post. tag = pre @ [40] @ ?body @ [41] @ post \<and> 40 \<notin> set pre \<and> 41 \<notin> set post"
  then obtain pre post where tag: "tag = pre @ [40] @ ?body @ [41] @ post" and pre: "40 \<notin> set pre" and post: "41 \<notin> set post"
    by blast
  have "position 40 tag = Some (length pre)"
    using position_append [OF pre] by (simp add: tag)
  moreover have "rposition 41 tag = Some (length (pre @ [40] @ ?body))"
    using rposition_append [OF post, of "pre @ [40] @ ?body"] by (simp add: tag)
  moreover have "split_on 44 ?body = map fd_name (sd_fields def)"
    using names nonempty by (intro split_join) auto
  ultimately show "tag_matches_defs tag def"
    by (simp add: tag_matches_defs_def tag names_match_iff)
qed

lemma v1_tags_match: v1_tag_matches_defs
  by code_simp

section \<open>The type string is canonical\<close>

text \<open>\<open>refers\<close>: the edges of the declared references; a declaration's first entry under a name counts.\<close>

definition refers :: "struct_def list \<Rightarrow> (bytes \<times> bytes) set" where
  "refers defs = {(a, b). \<exists>def field. find_struct defs a = Some def \<and> field \<in> set (sd_fields def)
     \<and> referenced_struct (fd_ty field) = Some b}"

definition dependencies :: "struct_def list \<Rightarrow> bytes \<Rightarrow> bytes set" where
  "dependencies defs primary = {n \<in> sd_name ` set defs. n \<noteq> primary \<and> (primary, n) \<in> (refers defs)\<^sup>+}"

lemma find_struct_SomeD: "find_struct defs name = Some def \<Longrightarrow> def \<in> set defs \<and> sd_name def = name"
  unfolding find_struct_def by (auto simp: find_Some_iff)

lemma find_struct_None_iff: "find_struct defs name = None \<longleftrightarrow> name \<notin> sd_name ` set defs"
  unfolding find_struct_def by (auto simp: find_None_iff)

lemma references_iff: "references n defs a b \<longleftrightarrow> (\<exists>k. 0 < k \<and> k \<le> n \<and> (a, b) \<in> refers defs ^^ k)"
proof (induction n arbitrary: a)
  case (Suc n)
  have "references (Suc n) defs a b \<longleftrightarrow> (\<exists>c. (a, c) \<in> refers defs \<and> (c = b \<or> references n defs c b))"
    by (auto simp: refers_def list_ex_iff split: option.splits)
  also have "\<dots> \<longleftrightarrow> (\<exists>k. k \<le> n \<and> (a, b) \<in> refers defs ^^ Suc k)"
  proof
    assume "\<exists>c. (a, c) \<in> refers defs \<and> (c = b \<or> references n defs c b)"
    then obtain c where "(a, c) \<in> refers defs" "c = b \<or> references n defs c b"
      by blast
    then show "\<exists>k. k \<le> n \<and> (a, b) \<in> refers defs ^^ Suc k"
      using Suc.IH [of c] relpow_Suc_I2 [of a c "refers defs" b] by (auto intro: exI [of _ 0])
  next
    assume "\<exists>k. k \<le> n \<and> (a, b) \<in> refers defs ^^ Suc k"
    then obtain k c where "k \<le> n" "(a, c) \<in> refers defs" "(c, b) \<in> refers defs ^^ k"
      by (meson relpow_Suc_D2)
    then show "\<exists>c. (a, c) \<in> refers defs \<and> (c = b \<or> references n defs c b)"
      using Suc.IH [of c] by (cases "k = 0") (auto simp del: relpow.simps(2))
  qed
  also have "\<dots> \<longleftrightarrow> (\<exists>k. 0 < k \<and> k \<le> Suc n \<and> (a, b) \<in> refers defs ^^ k)"
    by (metis Suc_le_mono gr0_implies_Suc zero_less_Suc)
  finally show ?case .
qed simp

text \<open>A shortest path leaves each node at most once, so it is no longer than the relation has sources.\<close>

lemma shortest_path:
  assumes "finite (Domain R)" and "(a, b) \<in> R\<^sup>+"
  shows "\<exists>k. 0 < k \<and> k \<le> card (Domain R) \<and> (a, b) \<in> R ^^ k"
proof -
  define k where "k = (LEAST k. 0 < k \<and> (a, b) \<in> R ^^ k)"
  from assms(2) have "\<exists>k. 0 < k \<and> (a, b) \<in> R ^^ k"
    by (simp add: trancl_power)
  then have k: "0 < k" "(a, b) \<in> R ^^ k"
    unfolding k_def by (metis (mono_tags, lifting) LeastI)+
  have least: "k \<le> m" if "0 < m" "(a, b) \<in> R ^^ m" for m
    unfolding k_def using that by (intro Least_le) blast
  from k obtain f where f: "f 0 = a" "f k = b" "\<And>i. i < k \<Longrightarrow> (f i, f (Suc i)) \<in> R"
    by (auto simp: relpow_fun_conv)
  have part: "(f i, f j) \<in> R ^^ (j - i)" if "i \<le> j" "j \<le> k" for i j
    unfolding relpow_fun_conv using that by (intro exI [of _ "\<lambda>n. f (i + n)"]) (auto intro!: f(3))
  have "inj_on f {..<k}"
  proof (rule linorder_inj_onI)
    fix i j assume "i < j" "i \<in> {..<k}" "j \<in> {..<k}"
    show "f i \<noteq> f j"
    proof
      assume same: "f i = f j"
      have "(a, b) \<in> R ^^ (i - 0 + (k - j))"
        unfolding relpow_add using part [of 0 i] part [of j k] same \<open>i < j\<close> \<open>j \<in> {..<k}\<close> f by auto
      with least [of "i + (k - j)"] \<open>i < j\<close> \<open>j \<in> {..<k}\<close> show False
        by simp
    qed
  qed auto
  moreover have "f ` {..<k} \<subseteq> Domain R"
    using f(3) by auto
  ultimately have "k \<le> card (Domain R)"
    using card_inj_on_le [OF _ _ assms(1)] by fastforce
  with k show ?thesis
    by blast
qed

lemma references_trancl: "references (length defs + 1) defs a b \<longleftrightarrow> (a, b) \<in> (refers defs)\<^sup>+"
proof
  assume "references (length defs + 1) defs a b"
  then show "(a, b) \<in> (refers defs)\<^sup>+"
    by (auto simp: references_iff trancl_power simp del: references.simps)
next
  have dom: "Domain (refers defs) \<subseteq> sd_name ` set defs"
    by (auto simp: refers_def dest!: find_struct_SomeD)
  then have "card (Domain (refers defs)) \<le> length defs"
    by (meson card_image_le card_length card_mono finite_imageI finite_set le_trans)
  moreover assume "(a, b) \<in> (refers defs)\<^sup>+"
  then obtain k where "0 < k" "k \<le> card (Domain (refers defs))" "(a, b) \<in> refers defs ^^ k"
    using shortest_path [OF finite_subset [OF dom]] by auto
  ultimately show "references (length defs + 1) defs a b"
    unfolding references_iff by (intro exI [of _ k]) simp
qed

lemma candidates_after:
  assumes "m \<in> candidates reachable primary previous defs"
    and "\<And>n. n \<in> candidates reachable primary previous defs \<Longrightarrow> m \<le> n"
  shows "candidates reachable primary (Some m) defs = candidates reachable primary previous defs - {m}"
proof -
  have "p < n" if "previous = Some p" "m < n" for p n
    using assms(1) that by (auto simp: candidates_def)
  then show ?thesis
    using assms(2) by (fastforce simp: candidates_def split: option.splits)
qed

lemma dependency_loop_sorted:
  "dependency_loop reachable primary defs previous out =
   out @ concat (map (\<lambda>name. case find_struct defs name of Some def \<Rightarrow> write_struct_type def | None \<Rightarrow> [])
     (sorted_list_of_set (candidates reachable primary previous defs)))"
proof (induction reachable primary defs previous out rule: dependency_loop.induct)
  case (1 reachable primary defs previous out)
  define C where "C = candidates reachable primary previous defs"
  have "finite C"
    by (simp add: C_def)
  have found: "next_dependency reachable primary previous defs None = (if C = {} then None else Some (Min C))"
    by (simp add: next_dependency_Min C_def Let_def)
  show ?case
  proof (cases "C = {}")
    case True
    with found show ?thesis
      by (simp add: dependency_loop.simps [of reachable primary defs previous] C_def)
  next
    case False
    have "candidates reachable primary (Some (Min C)) defs = C - {Min C}"
      unfolding C_def using False by (intro candidates_after) (simp_all add: C_def)
    moreover have "sorted_list_of_set C = Min C # sorted_list_of_set (C - {Min C})"
      by (rule sorted_list_of_set_nonempty [OF \<open>finite C\<close> False])
    ultimately show ?thesis
      using 1 [of "Min C"] found False
      by (subst dependency_loop.simps) (simp add: C_def [symmetric] split: option.splits)
  qed
qed

text \<open>
  C24: the type string hashed for a struct is canonical: the struct itself, then every declared struct reachable from it
  through any number of references, in ascending order of the names, each once. The depth budget never cuts a reference
  off, also where the declarations are cyclic, and the loop over the declarations ends.
\<close>

theorem encode_type_canonical:
  "encode_type defs primary =
     (case find_struct defs primary of
        None \<Rightarrow> []
      | Some def \<Rightarrow> write_struct_type def @ concat (map (\<lambda>name. write_struct_type (the (find_struct defs name)))
          (sorted_list_of_set (dependencies defs primary))))"
proof -
  have "candidates (references (length defs + 1) defs primary) primary None defs = dependencies defs primary"
    unfolding candidates_def dependencies_def references_trancl by simp
  moreover have "(case find_struct defs name of Some def \<Rightarrow> write_struct_type def | None \<Rightarrow> [])
      = write_struct_type (the (find_struct defs name))" if "name \<in> dependencies defs primary" for name
    using that find_struct_None_iff [of defs name] by (auto simp: dependencies_def split: option.splits)
  moreover have "finite (dependencies defs primary)"
    by (simp add: dependencies_def)
  ultimately show ?thesis
    unfolding encode_type_def Let_def dependency_loop_sorted by (auto split: option.split intro!: arg_cong [of _ _ concat])
qed

section \<open>The digest binds the values\<close>

text \<open>
  The byte strings hashed for a value, and those hashed for a typed-data digest: the digest's own input, the type string,
  the input of each nested struct and array and each dynamic value.
\<close>

definition struct_input :: "host \<Rightarrow> struct_def list \<Rightarrow> bytes \<Rightarrow> field_value list \<Rightarrow> bytes list" where
  "struct_input h defs name values =
     (case encode_data h defs name values of
        Inr encoded \<Rightarrow> [bytes32_to_array (keccak256 h (encode_type defs name)) @ encoded]
      | Inl _ \<Rightarrow> [])"

definition list_input :: "host \<Rightarrow> struct_def list \<Rightarrow> field_type \<Rightarrow> field_value list \<Rightarrow> bytes list" where
  "list_input h defs element values =
     (case encode_elements h defs element values of Inr buffer \<Rightarrow> [buffer] | Inl _ \<Rightarrow> [])"

fun hash_inputs :: "host \<Rightarrow> struct_def list \<Rightarrow> field_value \<Rightarrow> bytes list" where
  "hash_inputs h defs (VWord w) = []"
| "hash_inputs h defs (VDynamic preimage) = [preimage]"
| "hash_inputs h defs (VStruct name values) = struct_input h defs name values @ concat (map (hash_inputs h defs) values)"
| "hash_inputs h defs (VList element values) = list_input h defs element values @ concat (map (hash_inputs h defs) values)"

definition digest_inputs :: "host \<Rightarrow> struct_def list \<Rightarrow> bytes \<Rightarrow> field_value list \<Rightarrow> bytes32 \<Rightarrow> bytes set" where
  "digest_inputs h defs primary values domain_separator =
     set (encode_type defs primary # hash_inputs h defs (VStruct primary values) @
       (case hash_struct h defs primary values of
          Inr d \<Rightarrow> [EIP712_PREFIX @ bytes32_to_array domain_separator @ bytes32_to_array d]
        | Inl _ \<Rightarrow> []))"

lemmas encode_simps [simp del] = encode_data.simps hash_struct.simps encode_list.simps

lemma encode_field_Inr_iff:
  "encode_field h defs ty (VWord w) = Inr b \<longleftrightarrow> referenced_struct ty = None \<and> \<not> is_dynamic ty \<and> b = bytes32_to_array w"
  "encode_field h defs ty (VDynamic p) = Inr b \<longleftrightarrow> (ty = FBytes \<or> ty = FStr) \<and> b = bytes32_to_array (keccak256 h p)"
  "encode_field h defs ty (VStruct name vs) = Inr b \<longleftrightarrow>
     ty = FStruct name \<and> (\<exists>d. hash_struct h defs name vs = Inr d \<and> b = bytes32_to_array d)"
  "encode_field h defs ty (VList element vs) = Inr b \<longleftrightarrow>
     ty = FArray element \<and> (\<exists>d. encode_list h defs element vs = Inr d \<and> b = bytes32_to_array d)"
  by (auto simp: bind_s_Inr_iff split: field_type.splits if_splits)

declare encode_field.simps [simp del]

lemma length_encode_field: "encode_field h defs ty v = Inr b \<Longrightarrow> length b = 32"
  by (cases v) (auto simp: encode_field_Inr_iff)

lemma length_encode_elements: "encode_elements h defs ty vs = Inr b \<Longrightarrow> length b = 32 * length vs"
  by (induction vs arbitrary: b) (auto simp: bind_s_Inr_iff dest!: length_encode_field)

text \<open>\<open>determined S v\<close>: the encoding of \<open>v\<close> at any type is that of no other value, when the hash has no collision in \<open>S\<close>.\<close>

definition determined :: "host \<Rightarrow> struct_def list \<Rightarrow> bytes set \<Rightarrow> field_value \<Rightarrow> bool" where
  "determined h defs S v \<longleftrightarrow> (\<forall>ty v' b. encode_field h defs ty v = Inr b \<longrightarrow> encode_field h defs ty v' = Inr b \<longrightarrow>
     set (hash_inputs h defs v) \<subseteq> S \<longrightarrow> set (hash_inputs h defs v') \<subseteq> S \<longrightarrow> v = v')"

lemma encode_fields_inject:
  assumes "\<And>v. v \<in> set vs \<Longrightarrow> determined h defs S v"
    and "encode_fields h defs tys vs = Inr b" "encode_fields h defs tys vs' = Inr b"
    and "length tys = length vs" "length tys = length vs'"
    and "set (concat (map (hash_inputs h defs) vs)) \<subseteq> S" "set (concat (map (hash_inputs h defs) vs')) \<subseteq> S"
  shows "vs = vs'"
  using assms
proof (induction vs arbitrary: tys b vs')
  case (Cons v vs)
  then obtain ty tys' v' vs'' where eq: "tys = ty # tys'" "vs' = v' # vs''"
    by (metis length_Suc_conv)
  with Cons.prems obtain c cs d ds where
      v: "encode_field h defs ty v = Inr c" "encode_fields h defs tys' vs = Inr cs" "b = c @ cs"
    and v': "encode_field h defs ty v' = Inr d" "encode_fields h defs tys' vs'' = Inr ds" "b = d @ ds"
    by (auto simp: bind_s_Inr_iff)
  then have "c = d" "cs = ds"
    using length_encode_field by (metis append_eq_append_conv)+
  moreover have "determined h defs S v"
    using Cons.prems(1) by simp
  ultimately have "v = v'"
    using v v' Cons.prems(6,7) eq unfolding determined_def by (metis concat.simps(2) list.simps(9) le_sup_iff set_append)
  moreover have "vs = vs''"
    using Cons.IH [of tys' cs vs''] Cons.prems eq v v' \<open>cs = ds\<close> by auto
  ultimately show ?case
    by (simp add: eq)
qed simp

lemma encode_elements_fields: "encode_elements h defs ty vs = encode_fields h defs (replicate (length vs) ty) vs"
  by (induction vs) simp_all

lemma type_hash_Inr_iff:
  "type_hash h defs name = Inr t \<longleftrightarrow> find_struct defs name \<noteq> None \<and> t = keccak256 h (encode_type defs name)"
  by (auto simp: type_hash_def)

lemma encode_data_Inr_iff:
  "encode_data h defs name vs = Inr b \<longleftrightarrow>
   (\<exists>def. find_struct defs name = Some def \<and> length (sd_fields def) = length vs
      \<and> encode_fields h defs (map fd_ty (sd_fields def)) vs = Inr b)"
  by (auto simp: encode_data.simps split: option.splits)

lemma hash_struct_Inr_iff:
  "hash_struct h defs name vs = Inr d \<longleftrightarrow>
   (\<exists>b. encode_data h defs name vs = Inr b \<and> d = keccak256 h (bytes32_to_array (keccak256 h (encode_type defs name)) @ b))"
  by (auto simp: hash_struct.simps bind_s_Inr_iff type_hash_Inr_iff encode_data_Inr_iff)

lemma hash_struct_inject:
  assumes inj: "inj_on (keccak256 h) S" and determined: "\<And>v. v \<in> set vs \<Longrightarrow> determined h defs S v"
    and "hash_struct h defs name vs = Inr d" "hash_struct h defs name vs' = Inr d"
    and "set (hash_inputs h defs (VStruct name vs)) \<subseteq> S" "set (hash_inputs h defs (VStruct name vs')) \<subseteq> S"
  shows "vs = vs'"
proof -
  let ?t = "bytes32_to_array (keccak256 h (encode_type defs name))"
  from assms(3,4) obtain b b' where b: "encode_data h defs name vs = Inr b" "d = keccak256 h (?t @ b)"
    and b': "encode_data h defs name vs' = Inr b'" "d = keccak256 h (?t @ b')"
    by (auto simp: hash_struct_Inr_iff)
  moreover from this assms(5,6) have "?t @ b \<in> S" "?t @ b' \<in> S"
    by (simp_all add: struct_input_def)
  ultimately have "b = b'"
    using inj_onD [OF inj, of "?t @ b" "?t @ b'"] by simp
  with b b' obtain def where "find_struct defs name = Some def"
      "length (sd_fields def) = length vs" "length (sd_fields def) = length vs'"
      "encode_fields h defs (map fd_ty (sd_fields def)) vs = Inr b" "encode_fields h defs (map fd_ty (sd_fields def)) vs' = Inr b"
    by (auto simp: encode_data_Inr_iff)
  then show ?thesis
    using assms(5,6) by (intro encode_fields_inject [OF determined]) auto
qed

lemma encode_list_inject:
  assumes inj: "inj_on (keccak256 h) S" and determined: "\<And>v. v \<in> set vs \<Longrightarrow> determined h defs S v"
    and "encode_list h defs ty vs = Inr d" "encode_list h defs ty vs' = Inr d"
    and "set (hash_inputs h defs (VList ty vs)) \<subseteq> S" "set (hash_inputs h defs (VList ty vs')) \<subseteq> S"
  shows "vs = vs'"
proof -
  from assms(3,4) obtain b b' where b: "encode_elements h defs ty vs = Inr b" "d = keccak256 h b"
    and b': "encode_elements h defs ty vs' = Inr b'" "d = keccak256 h b'"
    by (auto simp: encode_list.simps bind_s_Inr_iff)
  moreover from this assms(5,6) have "b \<in> S" "b' \<in> S"
    by (simp_all add: list_input_def)
  ultimately have "b = b'"
    using inj_onD [OF inj, of b b'] by simp
  moreover from this b b' have len: "length vs = length vs'"
    using length_encode_elements [of h defs ty vs b] length_encode_elements [of h defs ty vs' b'] by simp
  ultimately show ?thesis
    using b b' assms(5,6) unfolding encode_elements_fields
    by (intro encode_fields_inject [OF determined, where tys = "replicate (length vs) ty" and b = b]) auto
qed

lemma all_determined:
  assumes inj: "inj_on (keccak256 h) S"
  shows "determined h defs S v"
proof (induction v)
  case (VWord w)
  have "v' = VWord w" if "encode_field h defs ty (VWord w) = Inr b" "encode_field h defs ty v' = Inr b" for ty b v'
    using that by (cases v') (auto simp: encode_field_Inr_iff is_dynamic_def)
  then show ?case
    unfolding determined_def by blast
next
  case (VDynamic p)
  have "v' = VDynamic p" if "encode_field h defs ty (VDynamic p) = Inr b" "encode_field h defs ty v' = Inr b"
    "set (hash_inputs h defs v') \<subseteq> S" "p \<in> S" for ty b v'
    using that by (cases v') (auto simp: encode_field_Inr_iff is_dynamic_def dest: inj_onD [OF inj])
  then show ?case
    unfolding determined_def by auto
next
  case (VStruct name vs)
  have "v' = VStruct name vs" if "encode_field h defs ty (VStruct name vs) = Inr b" "encode_field h defs ty v' = Inr b"
    "set (hash_inputs h defs (VStruct name vs)) \<subseteq> S" "set (hash_inputs h defs v') \<subseteq> S" for ty b v'
    using that
    by (cases v') (auto simp: encode_field_Inr_iff is_dynamic_def simp del: hash_inputs.simps
      intro: hash_struct_inject [of h S vs, OF inj VStruct.IH, symmetric])
  then show ?case
    unfolding determined_def by blast
next
  case (VList element vs)
  have "v' = VList element vs" if "encode_field h defs ty (VList element vs) = Inr b" "encode_field h defs ty v' = Inr b"
    "set (hash_inputs h defs (VList element vs)) \<subseteq> S" "set (hash_inputs h defs v') \<subseteq> S" for ty b v'
    using that
    by (cases v') (auto simp: encode_field_Inr_iff is_dynamic_def simp del: hash_inputs.simps
      intro: encode_list_inject [of h S vs, OF inj VList.IH, symmetric])
  then show ?case
    unfolding determined_def by blast
qed

lemma encode_type_name:
  assumes "find_struct defs p = Some def" "find_struct defs q = Some def'"
    and "40 \<notin> set p" "40 \<notin> set q" "encode_type defs p = encode_type defs q"
  shows "p = q"
proof -
  have "takeWhile (\<lambda>b. b \<noteq> 40) (encode_type defs n) = n" if found: "find_struct defs n = Some d" and free: "40 \<notin> set n" for n d
  proof -
    obtain rest where "encode_type defs n = write_struct_type d @ rest"
      unfolding encode_type_def found Let_def dependency_loop_sorted by auto
    then have "encode_type defs n = n @ 40 # write_fields True (sd_fields d) @ 41 # rest"
      using find_struct_SomeD [OF found] by (simp add: write_struct_type_def)
    moreover have "takeWhile (\<lambda>b. b \<noteq> 40) (n @ 40 # xs) = n" for xs
      using free by (subst takeWhile_append2) auto
    ultimately show ?thesis
      by simp
  qed
  from this [OF assms(1,3)] this [OF assms(2,4)] show ?thesis
    unfolding assms(5) by (rule box_equals [OF refl])
qed

lemma hash_typed_data_Inr_iff:
  "hash_typed_data h defs primary vs ds = Inr d \<longleftrightarrow>
   (\<exists>s. hash_struct h defs primary vs = Inr s \<and> d = keccak256 h (EIP712_PREFIX @ bytes32_to_array ds @ bytes32_to_array s))"
  by (auto simp: hash_typed_data_def hash_typed_data_with_prefix_def bind_s_Inr_iff)

text \<open>
  C25: what a typed-data digest binds. For two messages that can be encoded under the same declarations, whose names hold
  no opening parenthesis, the digests agree exactly when the domain separators, the primary types and all the values,
  nested structs and arrays included, agree, unless the hash collides on two of the byte strings hashed for the two
  messages.
\<close>

theorem typed_data_binding:
  assumes "hash_typed_data h defs primary vs ds = Inr d" and "hash_typed_data h defs primary' vs' ds' = Inr d'"
    and "\<forall>def\<in>set defs. 40 \<notin> set (sd_name def)"
    and "inj_on (keccak256 h) (digest_inputs h defs primary vs ds \<union> digest_inputs h defs primary' vs' ds')"
  shows "d = d' \<longleftrightarrow> ds = ds' \<and> primary = primary' \<and> vs = vs'"
proof
  let ?S = "digest_inputs h defs primary vs ds \<union> digest_inputs h defs primary' vs' ds'"
  let ?in = "\<lambda>ds s. EIP712_PREFIX @ bytes32_to_array ds @ bytes32_to_array s"
  from assms(1,2) obtain s s' where s: "hash_struct h defs primary vs = Inr s" "d = keccak256 h (?in ds s)"
    and s': "hash_struct h defs primary' vs' = Inr s'" "d' = keccak256 h (?in ds' s')"
    by (auto simp: hash_typed_data_Inr_iff)
  assume "d = d'"
  moreover have "?in ds s \<in> ?S" "?in ds' s' \<in> ?S"
    using s s' by (simp_all add: digest_inputs_def)
  ultimately have "?in ds s = ?in ds' s'"
    using inj_onD [OF assms(4)] s s' by blast
  then have "ds = ds'" and same: "s = s'"
    by simp_all
  let ?t = "\<lambda>p. bytes32_to_array (keccak256 h (encode_type defs p))"
  from s(1) s'(1) obtain b b' where b: "encode_data h defs primary vs = Inr b" "s = keccak256 h (?t primary @ b)"
    and b': "encode_data h defs primary' vs' = Inr b'" "s' = keccak256 h (?t primary' @ b')"
    by (auto simp: hash_struct_Inr_iff)
  moreover from this have "?t primary @ b \<in> ?S" "?t primary' @ b' \<in> ?S"
    by (simp_all add: digest_inputs_def struct_input_def)
  ultimately have "?t primary @ b = ?t primary' @ b'"
    using inj_onD [OF assms(4)] same by blast
  then have "keccak256 h (encode_type defs primary) = keccak256 h (encode_type defs primary')"
    by simp
  moreover have "encode_type defs primary \<in> ?S" "encode_type defs primary' \<in> ?S"
    by (simp_all add: digest_inputs_def)
  ultimately have types: "encode_type defs primary = encode_type defs primary'"
    by (rule inj_onD [OF assms(4)])
  from b b' obtain def def' where found: "find_struct defs primary = Some def" "find_struct defs primary' = Some def'"
    by (auto simp: encode_data_Inr_iff)
  then have "40 \<notin> set primary" "40 \<notin> set primary'"
    using assms(3) find_struct_SomeD by blast+
  then have "primary = primary'"
    by (rule encode_type_name [OF found _ _ types])
  moreover have "set (hash_inputs h defs (VStruct primary vs)) \<subseteq> ?S" "set (hash_inputs h defs (VStruct primary' vs')) \<subseteq> ?S"
    unfolding digest_inputs_def by (auto simp del: hash_inputs.simps)
  ultimately have "vs = vs'"
    using s(1) s'(1) same by (intro hash_struct_inject [OF assms(4) all_determined [OF assms(4)]]) simp_all
  then show "ds = ds' \<and> primary = primary' \<and> vs = vs'"
    using \<open>ds = ds'\<close> \<open>primary = primary'\<close> by blast
next
  assume "ds = ds' \<and> primary = primary' \<and> vs = vs'"
  then show "d = d'"
    using assms(1,2) by simp
qed

text \<open>Two messages that differ in a nested field, and a hash without collision on what is hashed for them.\<close>

definition sample_word :: "byte \<Rightarrow> byte \<Rightarrow> bytes32" where
  "sample_word a b = bytes32_of_array (replicate 30 0 @ [a, b])"

definition eip_host :: host where
  "eip_host = \<lparr>sha256 = (\<lambda>_. 0), keccak256 = (\<lambda>bs. sample_word (word_of_nat (length bs)) (sum_list bs)),
     ed25519_valid = (\<lambda>_ _ _. True), to_xdr = (\<lambda>_. [])\<rparr>"

definition sample_defs :: "struct_def list" where
  "sample_defs =
     [\<lparr>sd_name = ascii ''Mail'', sd_fields =
         [\<lparr>fd_name = ascii ''to'', fd_ty = FStruct (ascii ''Person'')\<rparr>, \<lparr>fd_name = ascii ''urgent'', fd_ty = FBool\<rparr>]\<rparr>,
      \<lparr>sd_name = ascii ''Person'', sd_fields = [\<lparr>fd_name = ascii ''name'', fd_ty = FBytes\<rparr>]\<rparr>]"

definition sample_message :: "byte \<Rightarrow> field_value list" where
  "sample_message x = [VStruct (ascii ''Person'') [VDynamic [x]], from_bool True]"

lemma sample_word_array: "bytes32_to_array (sample_word a b) = replicate 30 0 @ [a, b]"
  by (simp add: sample_word_def bytes32_to_of_array)

lemma sample_word_inject: "sample_word a b = sample_word c d \<longleftrightarrow> a = c \<and> b = d"
  by (metis sample_word_array list.inject same_append_eq)

lemma sample_types:
  "encode_type sample_defs (ascii ''Mail'') = ascii ''Mail(Person to,bool urgent)Person(bytes name)''"
  "encode_type sample_defs (ascii ''Person'') = ascii ''Person(bytes name)''"
  by code_simp+

lemma sample_person:
  "encode_data eip_host sample_defs (ascii ''Person'') [VDynamic [x]] = Inr (bytes32_to_array (sample_word 1 x))"
proof -
  have "find_struct sample_defs (ascii ''Person'') =
      Some \<lparr>sd_name = ascii ''Person'', sd_fields = [\<lparr>fd_name = ascii ''name'', fd_ty = FBytes\<rparr>]\<rparr>"
    by code_simp
  then show ?thesis
    by (simp add: encode_data_Inr_iff bind_s_Inr_iff encode_field_Inr_iff) (simp add: eip_host_def)
qed

lemma sample_keccak: "keccak256 eip_host bs = sample_word (word_of_nat (length bs)) (sum_list bs)"
  by (simp add: eip_host_def)

lemma sample_word_sum: "sum_list (bytes32_to_array (sample_word a b)) = a + b"
  by (simp add: sample_word_array sum_list_replicate)

lemma sample_type_hashes:
  "keccak256 eip_host (encode_type sample_defs (ascii ''Mail'')) = sample_word 45 139"
  "keccak256 eip_host (encode_type sample_defs (ascii ''Person'')) = sample_word 18 176"
  unfolding sample_types by (simp_all add: sample_keccak sample_word_inject ascii_def)

lemma sample_person_hash:
  "hash_struct eip_host sample_defs (ascii ''Person'') [VDynamic [x]] = Inr (sample_word 64 (195 + x))"
  unfolding hash_struct_Inr_iff sample_person sample_type_hashes by (simp add: sample_keccak sample_word_sum sample_word_inject)

lemma sample_mail:
  "encode_data eip_host sample_defs (ascii ''Mail'') (sample_message x) =
     Inr (bytes32_to_array (sample_word 64 (195 + x)) @ bytes32_to_array (sample_word 0 1))"
proof -
  have found: "find_struct sample_defs (ascii ''Mail'') = Some \<lparr>sd_name = ascii ''Mail'', sd_fields =
      [\<lparr>fd_name = ascii ''to'', fd_ty = FStruct (ascii ''Person'')\<rparr>, \<lparr>fd_name = ascii ''urgent'', fd_ty = FBool\<rparr>]\<rparr>"
    by code_simp
  have "from_bool True = VWord (sample_word 0 1)"
    by (simp add: from_bool_def sample_word_def eval_nat_numeral)
  with found show ?thesis
    by (simp add: encode_data_Inr_iff bind_s_Inr_iff encode_field_Inr_iff sample_person_hash sample_message_def is_dynamic_def)
qed

lemma sample_mail_hash:
  "hash_struct eip_host sample_defs (ascii ''Mail'') (sample_message x) = Inr (sample_word 96 (188 + x))"
  unfolding hash_struct_Inr_iff sample_mail sample_type_hashes by (simp add: sample_keccak sample_word_sum sample_word_inject)

lemma sample_digest:
  "hash_typed_data eip_host sample_defs (ascii ''Mail'') (sample_message x) (sample_word 9 9) = Inr (sample_word 66 (72 + x))"
  by (simp add: hash_typed_data_Inr_iff sample_mail_hash sample_keccak sample_word_sum sample_word_inject EIP712_PREFIX_def)

lemma sample_inputs:
  "digest_inputs eip_host sample_defs (ascii ''Mail'') (sample_message x) (sample_word 9 9) =
     {ascii ''Mail(Person to,bool urgent)Person(bytes name)'',
      bytes32_to_array (sample_word 45 139) @ bytes32_to_array (sample_word 64 (195 + x)) @ bytes32_to_array (sample_word 0 1),
      bytes32_to_array (sample_word 18 176) @ bytes32_to_array (sample_word 1 x),
      [x],
      EIP712_PREFIX @ bytes32_to_array (sample_word 9 9) @ bytes32_to_array (sample_word 96 (188 + x))}"
proof -
  have "hash_inputs eip_host sample_defs (from_bool True) = []"
    by (simp add: from_bool_def)
  then have "concat (map (hash_inputs eip_host sample_defs) (sample_message x)) =
      [bytes32_to_array (sample_word 18 176) @ bytes32_to_array (sample_word 1 x), [x]]"
    by (simp add: sample_message_def struct_input_def sample_person sample_type_hashes)
  then show ?thesis
    unfolding digest_inputs_def hash_inputs.simps struct_input_def sample_mail sample_mail_hash sample_type_hashes
    unfolding sample_types by (simp del: hash_inputs.simps)
qed

theorem typed_data_binding_witness:
  "hash_typed_data eip_host sample_defs (ascii ''Mail'') (sample_message 65) (sample_word 9 9)
     \<noteq> hash_typed_data eip_host sample_defs (ascii ''Mail'') (sample_message 66) (sample_word 9 9)"
proof -
  have "\<forall>def\<in>set sample_defs. 40 \<notin> set (sd_name def)"
    by (simp add: sample_defs_def ascii_def)
  moreover have "inj_on (keccak256 eip_host)
      (digest_inputs eip_host sample_defs (ascii ''Mail'') (sample_message 65) (sample_word 9 9) \<union>
       digest_inputs eip_host sample_defs (ascii ''Mail'') (sample_message 66) (sample_word 9 9))"
    unfolding sample_inputs
    by (auto simp: inj_on_def sample_keccak sample_word_inject sample_word_sum ascii_def EIP712_PREFIX_def)
  moreover have "sample_message 65 \<noteq> sample_message 66"
    by (simp add: sample_message_def)
  ultimately show ?thesis
    using typed_data_binding [OF sample_digest [of 65] sample_digest [of 66]] sample_digest by simp
qed

end
