(* ===== verification/Sdk_Sequence.thy ===== *)
theory Sdk_Sequence
  imports Common_Types
begin

text \<open>
  The sequence manager of the Rust SDK (\<^verbatim>\<open>packages/soroban-sas-sdk/src/sequence.rs\<close>): it hands out account sequence
  numbers to concurrent writers, takes the outcome of each submission back, and reuses the numbers of failed ones.
  Every update runs under the manager's lock, so a run is a sequence of operations. The answer of the RPC node to a
  sequence query is a parameter; \<^verbatim>\<open>sync_on_chain\<close> asks before it takes the lock, and a run here takes the answer and the
  update as one step. An \<^verbatim>\<open>i64\<close> is an integer with its upper bound checked where the code checks it.
\<close>

section \<open>Operations\<close>

text \<open>The variants of \<^verbatim>\<open>SdkError\<close>, without their messages and diagnostics.\<close>

datatype sdk_error =
    TransportError
  | SimulationError
  | ContractError "32 word"
  | DecodingError
  | RpcError
  | ValidationError
  | Archived
  | RestorationRequired
  | SubmissionRejected
  | TransactionFailed
  | SettlementTimeout
  | ResponseTooLarge
  | InvalidInput
  | SdkRateLimited

definition i64_max :: int where "i64_max = 2 ^ 63 - 1"
definition i64_min :: int where "i64_min = - (2 ^ 63)"

record account_state =
  on_chain_sequence :: "int option"
  last_reserved :: int
  recycled :: "int set"
  in_flight :: "int set"
  initialized :: bool

definition default_account :: account_state where
  "default_account = \<lparr>on_chain_sequence = None, last_reserved = 0, recycled = {}, in_flight = {}, initialized = False\<rparr>"

type_synonym accounts = "bytes32 \<rightharpoonup> account_state"

type_synonym fetch = "bytes32 \<Rightarrow> sdk_error + int"

text \<open>The cached state of an account, or the one that a first query of the node gives.\<close>

definition account_for :: "fetch \<Rightarrow> bytes32 \<Rightarrow> accounts \<Rightarrow> sdk_error + account_state" where
  "account_for fetch public_key m =
     (case m public_key of
        Some s \<Rightarrow> if initialized s then Inr s
          else map_sum id (\<lambda>current. \<lparr>on_chain_sequence = Some current, last_reserved = current, recycled = {},
                 in_flight = {}, initialized = True\<rparr>) (fetch public_key)
      | None \<Rightarrow> map_sum id (\<lambda>current. \<lparr>on_chain_sequence = Some current, last_reserved = current, recycled = {},
                 in_flight = {}, initialized = True\<rparr>) (fetch public_key))"

definition reserve :: "fetch \<Rightarrow> bytes32 \<Rightarrow> accounts \<Rightarrow> (sdk_error + int) \<times> accounts" where
  "reserve fetch public_key m =
     (case account_for fetch public_key m of
        Inl e \<Rightarrow> (Inl e, m)
      | Inr s \<Rightarrow>
          if recycled s \<noteq> {} then
            let smallest = Min (recycled s) in
            (Inr smallest, m(public_key \<mapsto> s\<lparr>recycled := recycled s - {smallest}, in_flight := insert smallest (in_flight s)\<rparr>))
          else if last_reserved s + 1 > i64_max then (Inl ValidationError, m(public_key \<mapsto> s))
          else
            let next_seq = last_reserved s + 1 in
            (Inr next_seq, m(public_key \<mapsto> s\<lparr>last_reserved := next_seq, in_flight := insert next_seq (in_flight s)\<rparr>)))"

definition sync_on_chain :: "fetch \<Rightarrow> bytes32 \<Rightarrow> accounts \<Rightarrow> (sdk_error + int) \<times> accounts" where
  "sync_on_chain fetch public_key m =
     (case fetch public_key of
        Inl e \<Rightarrow> (Inl e, m)
      | Inr current \<Rightarrow>
          let s = (case m public_key of Some s \<Rightarrow> s | None \<Rightarrow> default_account) in
          (Inr current, m(public_key \<mapsto> s\<lparr>on_chain_sequence := Some current, initialized := True,
             recycled := Set.filter (\<lambda>sq. sq > current) (recycled s),
             in_flight := Set.filter (\<lambda>sq. sq > current) (in_flight s),
             last_reserved := (if last_reserved s < current then current else last_reserved s)\<rparr>)))"

definition commit :: "bytes32 \<Rightarrow> int \<Rightarrow> accounts \<Rightarrow> accounts" where
  "commit public_key sq m =
     (case m public_key of
        None \<Rightarrow> m
      | Some s \<Rightarrow> m(public_key \<mapsto> s\<lparr>in_flight := in_flight s - {sq},
          on_chain_sequence := (case on_chain_sequence s of
             Some on_chain \<Rightarrow> if sq > on_chain then Some sq else Some on_chain
           | None \<Rightarrow> Some sq)\<rparr>))"

definition record_failure :: "bytes32 \<Rightarrow> int \<Rightarrow> accounts \<Rightarrow> accounts" where
  "record_failure public_key sq m =
     (case m public_key of
        None \<Rightarrow> m
      | Some s0 \<Rightarrow>
          let s = s0\<lparr>in_flight := in_flight s0 - {sq}\<rparr> in
          if in_flight s = {} \<and> recycled s = {} then
            m(public_key \<mapsto> s\<lparr>initialized := False,
              last_reserved := (case on_chain_sequence s of
                 Some on_chain \<Rightarrow> on_chain
               | None \<Rightarrow> max i64_min (last_reserved s - 1))\<rparr>)
          else m(public_key \<mapsto> s\<lparr>recycled := insert sq (recycled s)\<rparr>))"

definition resync :: "bytes32 \<Rightarrow> accounts \<Rightarrow> accounts" where
  "resync public_key m =
     (case m public_key of
        None \<Rightarrow> m
      | Some s \<Rightarrow> m(public_key \<mapsto> s\<lparr>initialized := False, recycled := {}, in_flight := {},
          last_reserved := (case on_chain_sequence s of Some on_chain \<Rightarrow> on_chain | None \<Rightarrow> last_reserved s)\<rparr>))"

definition peek :: "bytes32 \<Rightarrow> accounts \<Rightarrow> int option" where
  "peek public_key m =
     (case m public_key of
        None \<Rightarrow> None
      | Some s \<Rightarrow>
          if \<not> initialized s then None
          else if recycled s \<noteq> {} then Some (Min (recycled s))
          else Some (last_reserved s))"

definition recycled_count :: "bytes32 \<Rightarrow> accounts \<Rightarrow> nat" where
  "recycled_count public_key m = (case m public_key of Some s \<Rightarrow> card (recycled s) | None \<Rightarrow> 0)"

definition in_flight_count :: "bytes32 \<Rightarrow> accounts \<Rightarrow> nat" where
  "in_flight_count public_key m = (case m public_key of Some s \<Rightarrow> card (in_flight s) | None \<Rightarrow> 0)"

section \<open>Runs\<close>

text \<open>
  A run with the reservations that have not reported their outcome, newest first, and the sequence numbers on the
  chain, which never decrease. A node either fails or answers with the number on the chain. A reservation reports its
  outcome once, since \<^verbatim>\<open>committed\<close> and \<^verbatim>\<open>failed\<close> consume it; one that is dropped stays outstanding.
\<close>

definition answers :: "fetch \<Rightarrow> (bytes32 \<Rightarrow> int) \<Rightarrow> bool" where
  "answers fetch chain \<longleftrightarrow> (\<forall>k current. fetch k = Inr current \<longrightarrow> current = chain k)"

inductive seq_run :: "accounts \<Rightarrow> (bytes32 \<times> int) list \<Rightarrow> (bytes32 \<Rightarrow> int) \<Rightarrow> bool" where
  seq_new: "seq_run Map.empty [] chain"
| seq_chain: "seq_run m hs chain \<Longrightarrow> (\<And>k. chain k \<le> chain' k) \<Longrightarrow> seq_run m hs chain'"
| seq_reserve: "seq_run m hs chain \<Longrightarrow> answers fetch chain \<Longrightarrow> reserve fetch k m = (Inr n, m') \<Longrightarrow> seq_run m' ((k, n) # hs) chain"
| seq_refused: "seq_run m hs chain \<Longrightarrow> answers fetch chain \<Longrightarrow> reserve fetch k m = (Inl e, m') \<Longrightarrow> seq_run m' hs chain"
| seq_sync: "seq_run m hs chain \<Longrightarrow> answers fetch chain \<Longrightarrow> sync_on_chain fetch k m = (r, m') \<Longrightarrow> seq_run m' hs chain"
| seq_commit: "seq_run m hs chain \<Longrightarrow> (k, n) \<in> set hs \<Longrightarrow> seq_run (commit k n m) (remove1 (k, n) hs) chain"
| seq_failure: "seq_run m hs chain \<Longrightarrow> (k, n) \<in> set hs \<Longrightarrow> seq_run (record_failure k n m) (remove1 (k, n) hs) chain"

text \<open>What a cached state says about the outstanding reservations \<open>ns\<close> of its account.\<close>

definition account_ok :: "int set \<Rightarrow> int \<Rightarrow> account_state \<Rightarrow> bool" where
  "account_ok ns current s \<longleftrightarrow>
     finite (recycled s) \<and> finite (in_flight s) \<and> ns \<inter> recycled s = {} \<and>
     (\<forall>n\<in>ns. n \<in> in_flight s \<or> n \<le> current) \<and>
     (if initialized s then \<forall>n\<in>ns \<union> recycled s. n \<le> last_reserved s else recycled s = {} \<and> in_flight s = {})"

definition outstanding :: "(bytes32 \<times> int) list \<Rightarrow> bytes32 \<Rightarrow> int set" where
  "outstanding hs k = {n. (k, n) \<in> set hs}"

definition key_ok :: "int set \<Rightarrow> int \<Rightarrow> account_state option \<Rightarrow> bool" where
  "key_ok ns current a \<longleftrightarrow> (case a of None \<Rightarrow> ns = {} | Some s \<Rightarrow> account_ok ns current s)"

definition seq_inv :: "accounts \<Rightarrow> (bytes32 \<times> int) list \<Rightarrow> (bytes32 \<Rightarrow> int) \<Rightarrow> bool" where
  "seq_inv m hs chain \<longleftrightarrow> distinct hs \<and>
     (\<forall>k. key_ok (outstanding hs k) (chain k) (m k))"

lemma key_ok_simps [simp]: "key_ok ns current None \<longleftrightarrow> ns = {}" "key_ok ns current (Some s) \<longleftrightarrow> account_ok ns current s"
  by (simp_all add: key_ok_def)

lemma seq_invD: "seq_inv m hs chain \<Longrightarrow> key_ok (outstanding hs k) (chain k) (m k)"
  by (simp add: seq_inv_def)

lemma outstanding_Cons [simp]:
  "outstanding ((k, n) # hs) k' = (if k' = k then insert n (outstanding hs k) else outstanding hs k')"
  by (auto simp: outstanding_def)

lemma outstanding_remove1 [simp]:
  "distinct hs \<Longrightarrow> outstanding (remove1 (k, n) hs) k' = (if k' = k then outstanding hs k - {n} else outstanding hs k')"
  by (auto simp: outstanding_def)

lemma account_ok_chain: "account_ok ns current s \<Longrightarrow> current \<le> current' \<Longrightarrow> account_ok ns current' s"
  by (fastforce simp: account_ok_def)

lemma account_for_ok:
  assumes "seq_inv m hs chain" "answers fetch chain" "account_for fetch k m = Inr s"
  shows "account_ok (outstanding hs k) (chain k) s \<and> initialized s"
proof (cases "\<exists>s0. m k = Some s0 \<and> initialized s0")
  case True
  with assms(3) seq_invD [OF assms(1), of k] show ?thesis
    by (auto simp: account_for_def)
next
  case False
  with assms(3) obtain current where "fetch k = Inr current" "s = \<lparr>on_chain_sequence = Some current, last_reserved = current,
      recycled = {}, in_flight = {}, initialized = True\<rparr>"
    by (cases "fetch k") (auto simp: account_for_def split: option.splits if_splits)
  moreover have "\<forall>n\<in>outstanding hs k. n \<le> chain k"
    using seq_invD [OF assms(1), of k] False by (cases "m k") (auto simp: account_ok_def)
  ultimately show ?thesis
    using assms(2) by (auto simp: account_ok_def answers_def)
qed

lemma seq_inv_upd:
  assumes "seq_inv m hs chain" "distinct hs'" "\<And>k'. k' \<noteq> k \<Longrightarrow> outstanding hs' k' = outstanding hs k'"
    and "account_ok (outstanding hs' k) (chain k) s"
  shows "seq_inv (m(k \<mapsto> s)) hs' chain"
  using assms by (simp add: seq_inv_def)

lemma reserve_fresh:
  assumes "seq_inv m hs chain" "answers fetch chain" "reserve fetch k m = (Inr n, m')"
  shows "n \<notin> outstanding hs k \<and> seq_inv m' ((k, n) # hs) chain"
proof -
  from assms(3) obtain s where s: "account_for fetch k m = Inr s"
    by (auto simp: reserve_def split: sum.splits)
  note ok = account_for_ok [OF assms(1,2) s]
  have dist: "distinct hs"
    using assms(1) by (simp add: seq_inv_def)
  show ?thesis
  proof (cases "recycled s = {}")
    case True
    with assms(3) s have n: "n = last_reserved s + 1"
        "m' = m(k \<mapsto> s\<lparr>last_reserved := n, in_flight := insert n (in_flight s)\<rparr>)"
      by (auto simp: reserve_def Let_def split: if_splits)
    have bound: "\<forall>i\<in>outstanding hs k. i \<le> last_reserved s"
      using ok by (simp add: account_ok_def)
    with n(1) have new: "n \<notin> outstanding hs k"
      by force
    have "account_ok (insert n (outstanding hs k)) (chain k) (s\<lparr>last_reserved := n, in_flight := insert n (in_flight s)\<rparr>)"
      using ok n(1) True bound by (force simp: account_ok_def)
    moreover have "(k, n) \<notin> set hs"
      using new by (simp add: outstanding_def)
    ultimately show ?thesis
      unfolding n(2) using new dist by (intro conjI seq_inv_upd [OF assms(1)]) simp_all
  next
    case False
    with assms(3) s have n: "n = Min (recycled s)"
        "m' = m(k \<mapsto> s\<lparr>recycled := recycled s - {n}, in_flight := insert n (in_flight s)\<rparr>)"
      by (auto simp: reserve_def Let_def split: if_splits)
    with ok False have "n \<in> recycled s"
      by (simp add: account_ok_def)
    with ok have new: "n \<notin> outstanding hs k"
      by (auto simp: account_ok_def)
    have "account_ok (insert n (outstanding hs k)) (chain k) (s\<lparr>recycled := recycled s - {n}, in_flight := insert n (in_flight s)\<rparr>)"
      using ok \<open>n \<in> recycled s\<close> by (auto simp: account_ok_def)
    moreover have "(k, n) \<notin> set hs"
      using new by (simp add: outstanding_def)
    ultimately show ?thesis
      unfolding n(2) using new dist by (intro conjI seq_inv_upd [OF assms(1)]) simp_all
  qed
qed

lemma refused_inv:
  assumes "seq_inv m hs chain" "answers fetch chain" "reserve fetch k m = (Inl e, m')"
  shows "seq_inv m' hs chain"
proof (cases "account_for fetch k m")
  case (Inr s)
  with assms(3) have "m' = m(k \<mapsto> s)"
    by (auto simp: reserve_def Let_def split: if_splits)
  moreover have "distinct hs"
    using assms(1) by (simp add: seq_inv_def)
  ultimately show ?thesis
    using account_for_ok [OF assms(1,2) Inr] seq_inv_upd [OF assms(1)] by blast
qed (use assms in \<open>auto simp: reserve_def\<close>)

definition synced :: "int \<Rightarrow> account_state \<Rightarrow> account_state" where
  "synced current s = s\<lparr>on_chain_sequence := Some current, initialized := True,
     recycled := Set.filter (\<lambda>sq. sq > current) (recycled s), in_flight := Set.filter (\<lambda>sq. sq > current) (in_flight s),
     last_reserved := (if last_reserved s < current then current else last_reserved s)\<rparr>"

lemma account_ok_synced:
  assumes "account_ok ns current s"
  shows "account_ok ns current (synced current s)"
proof -
  have "n \<le> max (last_reserved s) current" if "n \<in> ns \<union> recycled s" for n
    using assms that by (cases "initialized s") (auto simp: account_ok_def le_max_iff_disj)
  moreover have "max (last_reserved s) current = last_reserved (synced current s)"
    by (simp add: synced_def max_def)
  moreover have "recycled (synced current s) \<subseteq> recycled s"
    by (auto simp: synced_def)
  ultimately have "\<forall>n\<in>ns \<union> recycled (synced current s). n \<le> last_reserved (synced current s)"
    by (metis Un_iff subsetD)
  moreover have "initialized (synced current s)"
    by (simp add: synced_def)
  moreover have "finite (recycled (synced current s)) \<and> finite (in_flight (synced current s)) \<and> ns \<inter> recycled (synced current s) = {}
      \<and> (\<forall>n\<in>ns. n \<in> in_flight (synced current s) \<or> n \<le> current)"
    using assms by (auto simp: account_ok_def synced_def)
  ultimately show ?thesis
    by (simp add: account_ok_def)
qed

lemma sync_inv:
  assumes "seq_inv m hs chain" "answers fetch chain" "sync_on_chain fetch k m = (r, m')"
  shows "seq_inv m' hs chain"
proof (cases "fetch k")
  case (Inr current)
  define s where "s = (case m k of Some s \<Rightarrow> s | None \<Rightarrow> default_account)"
  have "account_ok (outstanding hs k) (chain k) s"
    using seq_invD [OF assms(1), of k] by (cases "m k") (simp_all add: s_def account_ok_def default_account_def)
  moreover have "current = chain k"
    using assms(2) Inr by (simp add: answers_def)
  ultimately have "account_ok (outstanding hs k) (chain k) (synced current s)"
    using account_ok_synced by simp
  moreover have "distinct hs"
    using assms(1) by (simp add: seq_inv_def)
  moreover from assms(3) Inr have "m' = m(k \<mapsto> synced current s)"
    unfolding sync_on_chain_def synced_def s_def by (simp only: sum.case Let_def prod.inject)
  ultimately show ?thesis
    using seq_inv_upd [OF assms(1)] by simp
qed (use assms in \<open>auto simp: sync_on_chain_def\<close>)

lemma commit_inv:
  assumes "seq_inv m hs chain" "(k, n) \<in> set hs"
  shows "seq_inv (commit k n m) (remove1 (k, n) hs) chain"
proof -
  from assms have "n \<in> outstanding hs k" and dist: "distinct hs"
    by (simp_all add: outstanding_def seq_inv_def)
  with seq_invD [OF assms(1), of k] obtain s where s: "m k = Some s" "account_ok (outstanding hs k) (chain k) s"
    by (cases "m k") auto
  then show ?thesis
    using dist by (auto simp: commit_def account_ok_def intro!: seq_inv_upd [OF assms(1)])
qed

lemma failure_inv:
  assumes "seq_inv m hs chain" "(k, n) \<in> set hs"
  shows "seq_inv (record_failure k n m) (remove1 (k, n) hs) chain"
proof -
  from assms have n: "n \<in> outstanding hs k" and dist: "distinct hs"
    by (simp_all add: outstanding_def seq_inv_def)
  with seq_invD [OF assms(1), of k] obtain s where s: "m k = Some s" "account_ok (outstanding hs k) (chain k) s"
    by (cases "m k") auto
  then have "account_ok (outstanding hs k - {n}) (chain k) (the (record_failure k n m k))"
    using n by (auto simp: record_failure_def account_ok_def Let_def)
  moreover have "record_failure k n m = m(k \<mapsto> the (record_failure k n m k))"
    by (auto simp: record_failure_def s(1) Let_def)
  ultimately show ?thesis
    using dist seq_inv_upd [OF assms(1), of "remove1 (k, n) hs" k "the (record_failure k n m k)"] by simp
qed

lemma seq_run_inv: "seq_run m hs chain \<Longrightarrow> seq_inv m hs chain"
proof (induction rule: seq_run.induct)
  case (seq_new chain)
  then show ?case
    by (simp add: seq_inv_def outstanding_def)
next
  case (seq_chain m hs chain chain')
  have "key_ok (outstanding hs k) (chain' k) (m k)" for k
    using seq_invD [OF seq_chain.IH, of k] account_ok_chain [OF _ seq_chain.hyps(2)] by (cases "m k") auto
  with seq_chain.IH show ?case
    by (simp add: seq_inv_def)
next
  case (seq_reserve m hs chain fetch k n m')
  then show ?case
    using reserve_fresh by simp
next
  case (seq_refused m hs chain fetch k e m')
  from refused_inv [OF seq_refused.IH seq_refused.hyps(2,3)] show ?case .
next
  case (seq_sync m hs chain fetch k r m')
  from sync_inv [OF seq_sync.IH seq_sync.hyps(2,3)] show ?case .
next
  case (seq_commit m hs chain k n)
  from commit_inv [OF seq_commit.IH seq_commit.hyps(2)] show ?case .
next
  case (seq_failure m hs chain k n)
  from failure_inv [OF seq_failure.IH seq_failure.hyps(2)] show ?case .
qed

section \<open>Properties\<close>

text \<open>
  C28: The sequence manager never hands out a number that is still in use. Over any sequence of reservations,
  reports of success or failure and synchronisations with an answer that is still current, but without \<^verbatim>\<open>resync\<close>, by any
  number of writers and for any accounts, while the sequence numbers of the chain do not decrease, no two outstanding reservations of an account have the same number,
  and a further reservation gets a number that no outstanding one has. It gets the smallest recycled number if there
  is one, and otherwise the successor of the highest one handed out or of the number fetched from the chain.
\<close>

theorem reservations_distinct:
  assumes "seq_run m hs chain" and "answers fetch chain" and "reserve fetch k m = (Inr n, m')"
  shows "distinct hs \<and> (k, n) \<notin> set hs \<and>
    (\<exists>s. account_for fetch k m = Inr s \<and>
      (if recycled s \<noteq> {} then n \<in> recycled s \<and> (\<forall>i\<in>recycled s. n \<le> i) else n = last_reserved s + 1))"
proof -
  note inv = seq_run_inv [OF assms(1)]
  from assms(3) obtain s where s: "account_for fetch k m = Inr s"
    by (auto simp: reserve_def split: sum.splits)
  have "finite (recycled s)"
    using account_for_ok [OF inv assms(2) s] by (simp add: account_ok_def)
  moreover have "n = (if recycled s \<noteq> {} then Min (recycled s) else last_reserved s + 1)"
    using assms(3) s by (auto simp: reserve_def Let_def split: if_splits)
  ultimately show ?thesis
    using reserve_fresh [OF inv assms(2,3)] inv s by (auto simp: outstanding_def seq_inv_def)
qed

definition sample_node :: fetch where "sample_node = (\<lambda>k. Inr 40)"

lemma sample_node_answers: "answers sample_node (\<lambda>k. 40)"
  by (simp add: answers_def sample_node_def)

lemma three_reservations:
  "\<exists>m. seq_run m [(1, 42)] (\<lambda>k. 40) \<and>
     m 1 = Some \<lparr>on_chain_sequence = Some 40, last_reserved = 42, recycled = {41}, in_flight = {42}, initialized = True\<rparr>"
proof -
  have "reserve sample_node 1 Map.empty = (Inr 41, [1 \<mapsto> \<lparr>on_chain_sequence = Some 40, last_reserved = 41, recycled = {},
      in_flight = {41}, initialized = True\<rparr>])"
    by (simp add: reserve_def account_for_def sample_node_def i64_max_def)
  from seq_reserve [OF seq_new sample_node_answers this] have first: "seq_run [1 \<mapsto> \<lparr>on_chain_sequence = Some 40, last_reserved = 41,
      recycled = {}, in_flight = {41}, initialized = True\<rparr>] [(1, 41)] (\<lambda>k. 40)" .
  have "reserve sample_node 1 [1 \<mapsto> \<lparr>on_chain_sequence = Some 40, last_reserved = 41, recycled = {}, in_flight = {41}, initialized = True\<rparr>]
      = (Inr 42, [1 \<mapsto> \<lparr>on_chain_sequence = Some 40, last_reserved = 42, recycled = {}, in_flight = {42, 41}, initialized = True\<rparr>])"
    by (simp add: reserve_def account_for_def i64_max_def)
  from seq_failure [OF seq_reserve [OF first sample_node_answers this], of 1 41] show ?thesis
    by (auto simp: record_failure_def insert_Diff_if)
qed

theorem reservations_distinct_witness:
  "\<exists>m m'. seq_run m [(1, 42)] (\<lambda>k. 40) \<and> reserve sample_node 1 m = (Inr 41, m') \<and> (1, 41) \<notin> set [(1 :: bytes32, 42 :: int)]"
proof -
  obtain m where m: "seq_run m [(1, 42)] (\<lambda>k. 40)" "m 1 = Some \<lparr>on_chain_sequence = Some 40, last_reserved = 42,
      recycled = {41}, in_flight = {42}, initialized = True\<rparr>"
    using three_reservations by blast
  then obtain m' where r: "reserve sample_node 1 m = (Inr 41, m')"
    by (simp add: reserve_def account_for_def)
  from reservations_distinct [OF m(1) sample_node_answers r] m(1) r show ?thesis
    by blast
qed

text \<open>
  What the manager does not promise. A reservation whose number the chain has passed is forgotten by
  \<^verbatim>\<open>sync_on_chain\<close>, but its failure puts the number back into the pool: the next reservation gets a number that the
  chain has used. And \<^verbatim>\<open>resync\<close> forgets the numbers in flight, so the next reservation may get one of them again.
\<close>

lemma failure_after_sync_recycles_used_number:
  assumes "sync_on_chain fetch k m = (Inr current, m')" "m' k = Some s" "finite (recycled s)"
    and "n \<le> current" "in_flight s - {n} \<noteq> {}"
  shows "fst (reserve fetch k (record_failure k n m')) = Inr n"
proof -
  have "\<forall>i\<in>recycled s. n \<le> i" "initialized s"
    using assms(1,2,4) by (auto simp: sync_on_chain_def Let_def split: sum.splits)
  with assms(2-5) show ?thesis
    by (auto simp: record_failure_def reserve_def account_for_def Let_def Min_insert2)
qed

lemma resync_hands_out_number_in_flight:
  assumes "m k = Some s" "n \<in> in_flight s" "fetch k = Inr (n - 1)" "n \<le> i64_max"
  shows "fst (reserve fetch k (resync k m)) = Inr n"
  using assms by (auto simp: resync_def reserve_def account_for_def Let_def)

end
