(* ===== verification/Sdk_Schema.thy ===== *)
theory Sdk_Schema
  imports Sdk_Sequence Registry_Props "HOL-Library.AList"
begin

text \<open>
  Schemas in the Rust SDK: the bounded cache of registry lookups (\<^verbatim>\<open>packages/soroban-sas-sdk/src/schema_cache.rs\<close>) and the
  builder of schema records (\<^verbatim>\<open>schema_builder.rs\<close>). Every cache operation runs under the cache's lock. The hash map is an
  association list without repeated keys, the queue a list with the least recently used UID first, instants are
  numbers. The XDR codec of records and the strkey decoder are parameters.
\<close>

section \<open>The cache\<close>

record cache_entry =
  ce_value :: "bytes option"
  ce_expires_at :: nat

record schema_cache_stats =
  st_hits :: nat
  st_misses :: nat
  st_expirations :: nat
  st_evictions :: nat
  st_refreshes :: nat
  st_refresh_errors :: nat

record cache_state =
  cs_entries :: "(bytes32 \<times> cache_entry) list"
  cs_lru :: "bytes32 list"
  cs_refreshing :: "bytes32 \<rightharpoonup> u64"
  cs_next_refresh_token :: u64
  cs_stats :: schema_cache_stats

record schema_codec =
  encode_schema :: "schema_record \<Rightarrow> bytes option"
  decode_schema :: "bytes \<Rightarrow> schema_record option"

definition new_cache :: cache_state where
  "new_cache = \<lparr>cs_entries = [], cs_lru = [], cs_refreshing = Map.empty, cs_next_refresh_token = 0,
     cs_stats = \<lparr>st_hits = 0, st_misses = 0, st_expirations = 0, st_evictions = 0, st_refreshes = 0, st_refresh_errors = 0\<rparr>\<rparr>"

definition touch :: "bytes32 \<Rightarrow> cache_state \<Rightarrow> cache_state" where
  "touch u s = s\<lparr>cs_lru := filter (\<lambda>entry. entry \<noteq> u) (cs_lru s) @ [u]\<rparr>"

definition remove_entry :: "bytes32 \<Rightarrow> cache_state \<Rightarrow> bool \<times> cache_state" where
  "remove_entry u s =
     (map_of (cs_entries s) u \<noteq> None,
      s\<lparr>cs_lru := filter (\<lambda>entry. entry \<noteq> u) (cs_lru s), cs_entries := AList.delete u (cs_entries s)\<rparr>)"

text \<open>The \<^verbatim>\<open>while\<close> loop of \<^verbatim>\<open>insert_encoded\<close>: it stops when there is room or nothing left to evict.\<close>

primrec evict_loop ::
  "nat \<Rightarrow> bytes32 list \<Rightarrow> (bytes32 \<times> cache_entry) list \<Rightarrow> nat \<Rightarrow> bytes32 list \<times> (bytes32 \<times> cache_entry) list \<times> nat" where
  "evict_loop capacity [] entries evictions = ([], entries, evictions)"
| "evict_loop capacity (u # lru) entries evictions =
     (if length entries \<ge> capacity then evict_loop capacity lru (AList.delete u entries) (evictions + 1)
      else (u # lru, entries, evictions))"

definition insert_encoded :: "nat \<Rightarrow> nat \<Rightarrow> nat \<Rightarrow> bytes32 \<Rightarrow> bytes option \<Rightarrow> cache_state \<Rightarrow> cache_state" where
  "insert_encoded capacity ttl now u v s0 =
     (let s = snd (remove_entry u s0);
          (lru, entries, evictions) = evict_loop capacity (cs_lru s) (cs_entries s) (st_evictions (cs_stats s)) in
      s\<lparr>cs_stats := (cs_stats s)\<lparr>st_evictions := evictions\<rparr>,
        cs_entries := AList.update u \<lparr>ce_value = v, ce_expires_at = now + ttl\<rparr> entries,
        cs_lru := lru @ [u]\<rparr>)"

definition invalidate :: "bytes32 \<Rightarrow> cache_state \<Rightarrow> bool \<times> cache_state" where
  "invalidate u s = remove_entry u (s\<lparr>cs_refreshing := (cs_refreshing s)(u := None)\<rparr>)"

text \<open>The parsed events as the cache sees them: the two of the registry that name a schema, and all others.\<close>

datatype schema_event = SchemaRegisteredEvent bytes32 | SchemaDeprecatedEvent bytes32 | AnotherEvent

definition invalidate_for_event :: "schema_event \<Rightarrow> cache_state \<Rightarrow> bool \<times> cache_state" where
  "invalidate_for_event event s =
     (case event of
        SchemaRegisteredEvent u \<Rightarrow> invalidate u s
      | SchemaDeprecatedEvent u \<Rightarrow> invalidate u s
      | AnotherEvent \<Rightarrow> (False, s))"

text \<open>\<^verbatim>\<open>encode\<close> and \<^verbatim>\<open>decode\<close> under \<^verbatim>\<open>Option::map\<close> and \<^verbatim>\<open>transpose\<close>; \<open>None\<close> is their error.\<close>

definition coded :: "('a \<Rightarrow> 'b option) \<Rightarrow> 'a option \<Rightarrow> 'b option option" where
  "coded f v = (case v of None \<Rightarrow> Some None | Some x \<Rightarrow> map_option Some (f x))"

definition cache_insert ::
  "schema_codec \<Rightarrow> nat \<Rightarrow> nat \<Rightarrow> nat \<Rightarrow> bytes32 \<Rightarrow> schema_record option \<Rightarrow> cache_state \<Rightarrow> (sdk_error + unit) \<times> cache_state" where
  "cache_insert codec capacity ttl now u v s =
     (if (case v of Some r \<Rightarrow> sr_deprecated r | None \<Rightarrow> False) \<or> capacity = 0 then (Inr (), snd (invalidate u s))
      else
        (case coded (encode_schema codec) v of
           None \<Rightarrow> (Inl DecodingError, s)
         | Some encoded \<Rightarrow>
             (Inr (), insert_encoded capacity ttl now u encoded (s\<lparr>cs_refreshing := (cs_refreshing s)(u := None)\<rparr>))))"

definition cache_lookup ::
  "schema_codec \<Rightarrow> nat \<Rightarrow> bytes32 \<Rightarrow> cache_state \<Rightarrow> (sdk_error + schema_record option option \<times> bool) \<times> cache_state" where
  "cache_lookup codec now u s =
     (case map_of (cs_entries s) u of
        None \<Rightarrow> (Inr (None, False), s\<lparr>cs_stats := (cs_stats s)\<lparr>st_misses := st_misses (cs_stats s) + 1\<rparr>\<rparr>)
      | Some entry \<Rightarrow>
          let s = touch u s;
              expired = (ce_expires_at entry \<le> now);
              s = (if expired
                   then s\<lparr>cs_stats := (cs_stats s)\<lparr>st_misses := st_misses (cs_stats s) + 1,
                          st_expirations := st_expirations (cs_stats s) + 1\<rparr>\<rparr>
                   else s\<lparr>cs_stats := (cs_stats s)\<lparr>st_hits := st_hits (cs_stats s) + 1\<rparr>\<rparr>) in
          (case coded (decode_schema codec) (ce_value entry) of
             None \<Rightarrow> (Inl DecodingError, s)
           | Some v \<Rightarrow> (Inr (Some v, expired), s)))"

definition cache_get ::
  "schema_codec \<Rightarrow> nat \<Rightarrow> bytes32 \<Rightarrow> cache_state \<Rightarrow> (sdk_error + schema_record option option) \<times> cache_state" where
  "cache_get codec now u s =
     (case cache_lookup codec now u s of
        (Inl e, s') \<Rightarrow> (Inl e, s')
      | (Inr (v, expired), s') \<Rightarrow> (Inr (if expired then None else v), s'))"

definition start_refresh :: "bytes32 \<Rightarrow> cache_state \<Rightarrow> u64 option \<times> cache_state" where
  "start_refresh u s =
     (if cs_refreshing s u \<noteq> None then (None, s)
      else (Some (cs_next_refresh_token s),
            s\<lparr>cs_next_refresh_token := cs_next_refresh_token s + 1,
              cs_refreshing := (cs_refreshing s)(u \<mapsto> cs_next_refresh_token s)\<rparr>))"

text \<open>
  \<open>None\<close> is a failed refresh, \<open>Some None\<close> a deprecated record, \<open>Some (Some v)\<close> an encoded answer.
\<close>

definition refresh_result :: "schema_codec \<Rightarrow> sdk_error + schema_record option \<Rightarrow> bytes option option option" where
  "refresh_result codec r =
     (case r of
        Inl _ \<Rightarrow> None
      | Inr v \<Rightarrow>
          if (case v of Some rec \<Rightarrow> sr_deprecated rec | None \<Rightarrow> False) then Some None
          else map_option Some (coded (encode_schema codec) v))"

definition finish_refresh ::
  "schema_codec \<Rightarrow> nat \<Rightarrow> nat \<Rightarrow> nat \<Rightarrow> bytes32 \<Rightarrow> u64 \<Rightarrow> sdk_error + schema_record option \<Rightarrow> cache_state \<Rightarrow> cache_state" where
  "finish_refresh codec capacity ttl now u token r s0 =
     (if cs_refreshing s0 u \<noteq> Some token then s0
      else
        let s = s0\<lparr>cs_refreshing := (cs_refreshing s0)(u := None)\<rparr> in
        (case refresh_result codec r of
           Some (Some v) \<Rightarrow>
             let s = insert_encoded capacity ttl now u v s in
             s\<lparr>cs_stats := (cs_stats s)\<lparr>st_refreshes := st_refreshes (cs_stats s) + 1\<rparr>\<rparr>
         | Some None \<Rightarrow>
             let s = snd (remove_entry u s) in
             s\<lparr>cs_stats := (cs_stats s)\<lparr>st_refreshes := st_refreshes (cs_stats s) + 1\<rparr>\<rparr>
         | None \<Rightarrow> s\<lparr>cs_stats := (cs_stats s)\<lparr>st_refresh_errors := st_refresh_errors (cs_stats s) + 1\<rparr>\<rparr>))"

definition cancel_refresh :: "bytes32 \<Rightarrow> u64 \<Rightarrow> cache_state \<Rightarrow> cache_state" where
  "cancel_refresh u token s =
     (if cs_refreshing s u = Some token then s\<lparr>cs_refreshing := (cs_refreshing s)(u := None)\<rparr> else s)"

section \<open>The cache as a recency list\<close>

text \<open>The abstract cache lists its entries from the least to the most recently used.\<close>

type_synonym recency = "(bytes32 \<times> cache_entry) list"

definition contents :: "cache_state \<Rightarrow> recency" where
  "contents s = map (\<lambda>u. (u, the (map_of (cs_entries s) u))) (cs_lru s)"

definition lru_remove :: "bytes32 \<Rightarrow> recency \<Rightarrow> recency" where
  "lru_remove u l = filter (\<lambda>(k, e). k \<noteq> u) l"

definition lru_insert :: "nat \<Rightarrow> bytes32 \<Rightarrow> cache_entry \<Rightarrow> recency \<Rightarrow> recency" where
  "lru_insert capacity u e l = (let others = lru_remove u l in drop (Suc (length others) - capacity) others @ [(u, e)])"

definition lru_touch :: "bytes32 \<Rightarrow> recency \<Rightarrow> recency" where
  "lru_touch u l = (case map_of l u of None \<Rightarrow> l | Some e \<Rightarrow> lru_remove u l @ [(u, e)])"

definition cache_ok :: "cache_state \<Rightarrow> bool" where
  "cache_ok s \<longleftrightarrow> distinct (map fst (cs_entries s)) \<and> distinct (cs_lru s) \<and> set (cs_lru s) = fst ` set (cs_entries s)"

lemma map_of_contents:
  assumes "cache_ok s"
  shows "map_of (contents s) u = map_of (cs_entries s) u"
proof (cases "u \<in> set (cs_lru s)")
  case True
  then have "map_of (contents s) u = Some (the (map_of (cs_entries s) u))"
    by (simp add: contents_def map_of_map_restrict [unfolded comp_def])
  moreover have "map_of (cs_entries s) u \<noteq> None"
    using True assms by (simp add: cache_ok_def map_of_eq_None_iff)
  ultimately show ?thesis
    by simp
next
  case False
  then have "map_of (contents s) u = None" "map_of (cs_entries s) u = None"
    using assms by (auto simp: contents_def cache_ok_def map_of_eq_None_iff)
  then show ?thesis
    by simp
qed

lemma length_contents: "cache_ok s \<Longrightarrow> length (contents s) = length (cs_entries s)"
  unfolding cache_ok_def contents_def
  by (metis distinct_card length_map list.set_map)

lemma delete_filter: "AList.delete u entries = filter (\<lambda>(k, e). k \<noteq> u) entries"
  by (auto simp: AList.delete_eq intro!: filter_cong)

lemma delete_key_list: "map fst (AList.delete u entries) = filter (\<lambda>k. k \<noteq> u) (map fst entries)"
  by (induction entries) (auto simp: delete_filter)

lemma delete_key_set: "fst ` set (AList.delete u entries) = fst ` set entries - {u}"
  using arg_cong [OF delete_key_list [of u entries], of set] by auto

lemma length_delete:
  assumes "distinct (map fst entries)" "u \<in> fst ` set entries"
  shows "length (AList.delete u entries) = length entries - 1"
proof -
  have "map fst (AList.delete u entries) = remove1 u (map fst entries)"
    using assms(1) by (auto simp: delete_key_list distinct_remove1_removeAll removeAll_filter_not_eq intro!: filter_cong)
  then have "length (AList.delete u entries) = length (remove1 u (map fst entries))"
    by (metis length_map)
  with assms(2) show ?thesis
    by (simp add: length_remove1)
qed

lemma evict_loop_spec:
  assumes "distinct (map fst entries)" "distinct lru" "set lru = fst ` set entries" "0 < capacity"
  shows "evict_loop capacity lru entries n =
    (let k = Suc (length entries) - capacity in
     (drop k lru, filter (\<lambda>(u, e). u \<notin> set (take k lru)) entries, n + k))"
  using assms
proof (induction lru arbitrary: entries n)
  case (Cons u lru)
  let ?d = "AList.delete u entries"
  show ?case
  proof (cases "capacity \<le> length entries")
    case True
    have "distinct (map fst ?d)" "set lru = fst ` set ?d"
      using Cons.prems by (simp add: delete_key_list) (use Cons.prems in \<open>auto simp: delete_key_set\<close>)
    note IH = Cons.IH [OF this(1) _ this(2) Cons.prems(4), of "n + 1"]
    have len: "length ?d = length entries - 1" "0 < length entries"
      using Cons.prems length_delete [of entries u] True by auto
    then have k: "Suc (length entries) - capacity = Suc (Suc (length ?d) - capacity)"
      using True by simp
    have "filter (\<lambda>(v, e). v \<notin> set (take (Suc (length ?d) - capacity) lru)) ?d
        = filter (\<lambda>(v, e). v \<notin> set (take (Suc (length entries) - capacity) (u # lru))) entries"
      unfolding k delete_filter by (auto intro!: filter_cong simp: filter_filter)
    with IH True Cons.prems(2) k show ?thesis
      by (simp add: Let_def)
  qed (simp add: Let_def)
qed (auto simp: Let_def)

lemma insert_encoded_refines:
  assumes ok: "cache_ok s" and cap: "0 < capacity"
  shows "cache_ok (insert_encoded capacity ttl now u v s) \<and>
    contents (insert_encoded capacity ttl now u v s) =
      lru_insert capacity u \<lparr>ce_value = v, ce_expires_at = now + ttl\<rparr> (contents s)"
proof -
  define lru entries where "lru = filter (\<lambda>k. k \<noteq> u) (cs_lru s)" and "entries = AList.delete u (cs_entries s)"
  define k where "k = Suc (length entries) - capacity"
  have wf: "distinct (map fst entries)" "distinct lru" "set lru = fst ` set entries" "u \<notin> set lru"
    using ok by (simp_all add: cache_ok_def lru_def entries_def delete_key_list delete_key_set) auto
  let ?kept = "filter (\<lambda>(w, e). w \<notin> set (take k lru)) entries" and ?e = "\<lparr>ce_value = v, ce_expires_at = now + ttl\<rparr>"
  let ?s = "insert_encoded capacity ttl now u v s"
  have s: "cs_entries ?s = AList.update u ?e ?kept" "cs_lru ?s = drop k lru @ [u]"
    using evict_loop_spec [OF wf(1-3) cap, of "st_evictions (cs_stats s)"]
    by (simp_all add: insert_encoded_def remove_entry_def Let_def lru_def [symmetric] entries_def [symmetric] k_def [symmetric])
  have split: "set lru = set (take k lru) \<union> set (drop k lru)" "set (take k lru) \<inter> set (drop k lru) = {}"
    using wf(2) by (metis append_take_drop_id set_append) (metis append_take_drop_id distinct_append wf(2))
  then have kept: "fst ` set ?kept = set (drop k lru)"
    using wf(3) by (force simp: image_iff)
  moreover have "distinct (map fst ?kept)"
    using wf(1) by (simp add: distinct_map_filter)
  ultimately have "cache_ok ?s"
    using wf(2,4) by (auto simp: cache_ok_def s AList.distinct_update dom_update dest: in_set_dropD)
  moreover have "contents ?s = map (\<lambda>w. (w, the (map_of (cs_entries s) w))) (drop k lru) @ [(u, ?e)]"
  proof -
    have "map_of (AList.update u ?e ?kept) w = map_of (cs_entries s) w" if "w \<in> set (drop k lru)" for w
    proof -
      have "w \<noteq> u" "w \<notin> set (take k lru)"
        using that wf(4) split by (auto dest: in_set_dropD)
      moreover have "map_of ?kept w = map_of entries w"
        using \<open>w \<notin> set (take k lru)\<close> by (induction entries) auto
      moreover have "map_of entries w = map_of (cs_entries s) w"
        using \<open>w \<noteq> u\<close> by (simp add: entries_def AList.delete_conv')
      ultimately show ?thesis
        by (simp add: AList.update_conv')
    qed
    then show ?thesis
      by (simp add: contents_def s AList.update_conv')
  qed
  moreover have "lru_remove u (contents s) = map (\<lambda>w. (w, the (map_of (cs_entries s) w))) lru"
    by (simp add: lru_remove_def contents_def lru_def filter_map comp_def)
  moreover have "length lru = length entries"
    using wf by (metis distinct_card length_map list.set_map)
  ultimately show ?thesis
    by (simp add: lru_insert_def Let_def k_def drop_map)
qed

lemma contents_frame:
  "cs_entries s' = cs_entries s \<Longrightarrow> cs_lru s' = cs_lru s \<Longrightarrow> contents s' = contents s \<and> cache_ok s' = cache_ok s"
  by (simp add: contents_def cache_ok_def)

lemma remove_entry_refines:
  assumes "cache_ok s"
  shows "cache_ok (snd (remove_entry u s)) \<and> contents (snd (remove_entry u s)) = lru_remove u (contents s)"
proof -
  have "the (map_of (AList.delete u (cs_entries s)) w) = the (map_of (cs_entries s) w)" if "w \<noteq> u" for w
    using that by (simp add: AList.delete_conv')
  then have "contents (snd (remove_entry u s)) = lru_remove u (contents s)"
    by (auto simp: contents_def remove_entry_def lru_remove_def filter_map comp_def)
  with assms show ?thesis
    by (simp add: cache_ok_def remove_entry_def delete_key_list delete_key_set) auto
qed

lemma touch_refines:
  assumes "cache_ok s" "map_of (cs_entries s) u = Some e"
  shows "cache_ok (touch u s) \<and> contents (touch u s) = lru_touch u (contents s)"
proof -
  have "u \<in> set (cs_lru s)"
    using assms by (force simp: cache_ok_def dest: map_of_SomeD)
  then have "cache_ok (touch u s)"
    using assms(1) by (auto simp: cache_ok_def touch_def)
  moreover have "map_of (contents s) u = Some e"
    using assms by (simp add: map_of_contents)
  ultimately show ?thesis
    using assms(2) by (simp add: lru_touch_def lru_remove_def contents_def touch_def filter_map comp_def)
qed

lemma cache_lookup_refines:
  assumes "cache_ok s"
  shows "cache_ok (snd (cache_lookup codec now u s)) \<and> contents (snd (cache_lookup codec now u s)) = lru_touch u (contents s)"
proof (cases "map_of (cs_entries s) u")
  case None
  then have "map_of (contents s) u = None"
    using assms by (simp add: map_of_contents)
  with None assms show ?thesis
    by (simp add: cache_lookup_def lru_touch_def contents_def cache_ok_def)
next
  case (Some e)
  have "cs_entries (snd (cache_lookup codec now u s)) = cs_entries (touch u s)"
    "cs_lru (snd (cache_lookup codec now u s)) = cs_lru (touch u s)"
    using Some by (auto simp: cache_lookup_def Let_def split: option.splits)
  from contents_frame [OF this] touch_refines [OF assms Some] show ?thesis
    by simp
qed

lemma cache_get_state: "snd (cache_get codec now u s) = snd (cache_lookup codec now u s)"
  by (auto simp: cache_get_def split: prod.splits sum.splits)

lemma invalidate_refines:
  assumes "cache_ok s"
  shows "cache_ok (snd (invalidate u s)) \<and> contents (snd (invalidate u s)) = lru_remove u (contents s)"
proof -
  let ?s = "s\<lparr>cs_refreshing := (cs_refreshing s)(u := None)\<rparr>"
  have "cache_ok ?s" "contents ?s = contents s"
    using assms contents_frame [of ?s s] by simp_all
  then show ?thesis
    using remove_entry_refines [of ?s u] by (simp add: invalidate_def)
qed

text \<open>The abstract effect of an insertion: a deprecated record is dropped, an answer that cannot be encoded ignored.\<close>

definition lru_store ::
  "schema_codec \<Rightarrow> nat \<Rightarrow> nat \<Rightarrow> nat \<Rightarrow> bytes32 \<Rightarrow> schema_record option \<Rightarrow> recency \<Rightarrow> recency" where
  "lru_store codec capacity ttl now u v l =
     (if (case v of Some r \<Rightarrow> sr_deprecated r | None \<Rightarrow> False) then lru_remove u l
      else (case coded (encode_schema codec) v of
              None \<Rightarrow> l
            | Some encoded \<Rightarrow> lru_insert capacity u \<lparr>ce_value = encoded, ce_expires_at = now + ttl\<rparr> l))"

lemma cache_insert_refines:
  assumes "cache_ok s" "0 < capacity"
  shows "cache_ok (snd (cache_insert codec capacity ttl now u v s)) \<and>
    contents (snd (cache_insert codec capacity ttl now u v s)) = lru_store codec capacity ttl now u v (contents s)"
proof -
  let ?s = "s\<lparr>cs_refreshing := (cs_refreshing s)(u := None)\<rparr>"
  have "cache_ok ?s" "contents ?s = contents s"
    using assms contents_frame [of ?s s] by simp_all
  then show ?thesis
    using insert_encoded_refines [of ?s capacity ttl now u] invalidate_refines [OF assms(1), of u] assms
    by (simp add: cache_insert_def lru_store_def split: option.split)
qed

lemma finish_refresh_refines:
  assumes "cache_ok s" "0 < capacity"
  shows "cache_ok (finish_refresh codec capacity ttl now u token r s) \<and>
    (contents (finish_refresh codec capacity ttl now u token r s) = contents s \<or>
     (\<exists>v. r = Inr v \<and> cs_refreshing s u = Some token \<and>
       contents (finish_refresh codec capacity ttl now u token r s) = lru_store codec capacity ttl now u v (contents s)))"
proof (cases "cs_refreshing s u = Some token")
  case True
  let ?s = "s\<lparr>cs_refreshing := (cs_refreshing s)(u := None)\<rparr>"
  have ok: "cache_ok ?s" "contents ?s = contents s"
    using assms contents_frame [of ?s s] by simp_all
  show ?thesis
  proof (cases r)
    case (Inl e)
    with True ok show ?thesis
      by (simp add: finish_refresh_def refresh_result_def contents_def cache_ok_def)
  next
    case (Inr v)
    have "cache_ok (finish_refresh codec capacity ttl now u token r s) \<and>
        contents (finish_refresh codec capacity ttl now u token r s) = lru_store codec capacity ttl now u v (contents s)"
    proof (cases "case v of Some r \<Rightarrow> sr_deprecated r | None \<Rightarrow> False")
      case dep: True
      then show ?thesis
        using True Inr remove_entry_refines [OF ok(1), of u] ok(2)
        by (simp add: finish_refresh_def refresh_result_def lru_store_def Let_def contents_def cache_ok_def)
    next
      case live: False
      show ?thesis
      proof (cases "coded (encode_schema codec) v")
        case None
        with True Inr live ok show ?thesis
          by (simp add: finish_refresh_def refresh_result_def lru_store_def contents_def cache_ok_def)
      next
        case (Some encoded)
        with True Inr live insert_encoded_refines [OF ok(1) assms(2), of ttl now u encoded] ok(2) show ?thesis
          by (simp add: finish_refresh_def refresh_result_def lru_store_def Let_def contents_def cache_ok_def)
      qed
    qed
    with True Inr show ?thesis
      by blast
  qed
qed (use assms in \<open>simp add: finish_refresh_def\<close>)

section \<open>Runs of the cache\<close>

datatype cache_op =
    OpInsert bytes32 "schema_record option"
  | OpGet bytes32
  | OpInvalidate bytes32
  | OpEvent schema_event
  | OpStart bytes32
  | OpFinish bytes32 u64 "sdk_error + schema_record option"
  | OpCancel bytes32 u64

primrec cache_step :: "schema_codec \<Rightarrow> nat \<Rightarrow> nat \<Rightarrow> nat \<Rightarrow> cache_op \<Rightarrow> cache_state \<Rightarrow> cache_state" where
  "cache_step codec capacity ttl now (OpInsert u v) s = snd (cache_insert codec capacity ttl now u v s)"
| "cache_step codec capacity ttl now (OpGet u) s = snd (cache_get codec now u s)"
| "cache_step codec capacity ttl now (OpInvalidate u) s = snd (invalidate u s)"
| "cache_step codec capacity ttl now (OpEvent event) s = snd (invalidate_for_event event s)"
| "cache_step codec capacity ttl now (OpStart u) s = snd (start_refresh u s)"
| "cache_step codec capacity ttl now (OpFinish u token r) s = finish_refresh codec capacity ttl now u token r s"
| "cache_step codec capacity ttl now (OpCancel u token) s = cancel_refresh u token s"

text \<open>A run is the list of its operations with the instants they read.\<close>

definition cache_run :: "schema_codec \<Rightarrow> nat \<Rightarrow> nat \<Rightarrow> (nat \<times> cache_op) list \<Rightarrow> cache_state" where
  "cache_run codec capacity ttl ops = fold (\<lambda>(now, op). cache_step codec capacity ttl now op) ops new_cache"

lemma cache_run_simps [simp]:
  "cache_run codec capacity ttl [] = new_cache"
  "cache_run codec capacity ttl (ops @ [(now, op)]) = cache_step codec capacity ttl now op (cache_run codec capacity ttl ops)"
  by (simp_all add: cache_run_def)

definition retired :: "schema_record option \<Rightarrow> bool" where
  "retired v = (case v of Some r \<Rightarrow> sr_deprecated r | None \<Rightarrow> False)"

text \<open>The operations after which an older answer for \<open>u\<close> is gone, and those that store \<open>v\<close> for \<open>u\<close>.\<close>

definition clears :: "schema_codec \<Rightarrow> bytes32 \<Rightarrow> cache_op \<Rightarrow> bool" where
  "clears codec u op =
     (op \<in> {OpInvalidate u, OpEvent (SchemaRegisteredEvent u), OpEvent (SchemaDeprecatedEvent u)} \<or>
      (\<exists>v. op = OpInsert u v \<and> (retired v \<or> coded (encode_schema codec) v \<noteq> None)))"

definition stores :: "bytes32 \<Rightarrow> schema_record option \<Rightarrow> cache_state \<Rightarrow> cache_op \<Rightarrow> bool" where
  "stores u v s op =
     (\<not> retired v \<and> (op = OpInsert u v \<or> (\<exists>token. op = OpFinish u token (Inr v) \<and> cs_refreshing s u = Some token)))"

lemma lru_store_length:
  "0 < capacity \<Longrightarrow> length l \<le> capacity \<Longrightarrow> length (lru_store codec capacity ttl now u v l) \<le> capacity"
  by (auto simp: lru_store_def lru_insert_def lru_remove_def Let_def intro: order_trans [OF length_filter_le] split: option.split)

lemma lru_touch_length: "length (lru_touch u l) \<le> length l"
proof (cases "map_of l u")
  case (Some e)
  then have "(u, e) \<in> set l"
    by (rule map_of_SomeD)
  then have "length (filter (\<lambda>(k, e). k \<noteq> u) l) < length l"
    by (rule length_filter_less) simp
  with Some show ?thesis
    by (simp add: lru_touch_def lru_remove_def)
qed (simp add: lru_touch_def)

lemma lru_remove_length: "length (lru_remove u l) \<le> length l"
  by (simp add: lru_remove_def)

lemma start_refresh_frame:
  "cs_entries (snd (start_refresh u s)) = cs_entries s" "cs_lru (snd (start_refresh u s)) = cs_lru s"
  "cs_entries (cancel_refresh u token s) = cs_entries s" "cs_lru (cancel_refresh u token s) = cs_lru s"
  by (simp_all add: start_refresh_def cancel_refresh_def)

lemma cache_step_ok:
  assumes "cache_ok s" "0 < capacity" "length (contents s) \<le> capacity"
  shows "cache_ok (cache_step codec capacity ttl now op s) \<and>
    length (contents (cache_step codec capacity ttl now op s)) \<le> capacity"
proof (cases op)
  case (OpInsert u v)
  then show ?thesis
    using cache_insert_refines [OF assms(1,2), of codec ttl now u v] lru_store_length [OF assms(2,3)] by simp
next
  case (OpGet u)
  then show ?thesis
    using cache_lookup_refines [OF assms(1), of codec now u] lru_touch_length [of u "contents s"] assms(3)
    by (simp add: cache_get_state)
next
  case (OpInvalidate u)
  then show ?thesis
    using invalidate_refines [OF assms(1), of u] lru_remove_length [of u "contents s"] assms(3) by simp
next
  case (OpEvent event)
  have "cache_ok (snd (invalidate u s)) \<and> length (contents (snd (invalidate u s))) \<le> capacity" for u
    using invalidate_refines [OF assms(1), of u] lru_remove_length [of u "contents s"] assms(3) by simp
  with OpEvent assms show ?thesis
    by (cases event) (simp_all add: invalidate_for_event_def)
next
  case (OpStart u)
  then show ?thesis
    using contents_frame [OF start_refresh_frame(1,2), of u s] assms by simp
next
  case (OpFinish u token r)
  then show ?thesis
    using finish_refresh_refines [OF assms(1,2), of codec ttl now u token r] lru_store_length [OF assms(2,3)] assms(3)
    by auto
next
  case (OpCancel u token)
  then show ?thesis
    using contents_frame [OF start_refresh_frame(3,4), of u token s] assms by simp
qed

lemma cache_run_ok:
  assumes "0 < capacity"
  shows "cache_ok (cache_run codec capacity ttl ops) \<and> length (contents (cache_run codec capacity ttl ops)) \<le> capacity"
proof (induction ops rule: rev_induct)
  case (snoc x ops)
  with assms show ?case
    by (cases x) (auto dest: cache_step_ok)
qed (simp add: new_cache_def cache_ok_def contents_def)

text \<open>
  Where an answer and a pending refresh come from: the operation that stored or started it, and no later one that
  clears it.
\<close>

definition answered_by ::
  "schema_codec \<Rightarrow> nat \<Rightarrow> nat \<Rightarrow> (nat \<times> cache_op) list \<Rightarrow> bytes32 \<Rightarrow> schema_record option \<Rightarrow> nat \<Rightarrow> bool" where
  "answered_by codec capacity ttl ops u v stored_at =
     (\<exists>pre op post. ops = pre @ (stored_at, op) # post \<and> stores u v (cache_run codec capacity ttl pre) op \<and>
        (\<forall>x \<in> set post. \<not> clears codec u (snd x)))"

definition refreshed_by :: "schema_codec \<Rightarrow> nat \<Rightarrow> nat \<Rightarrow> (nat \<times> cache_op) list \<Rightarrow> bytes32 \<Rightarrow> u64 \<Rightarrow> bool" where
  "refreshed_by codec capacity ttl ops u token =
     (\<exists>pre now post. ops = pre @ (now, OpStart u) # post \<and>
        fst (start_refresh u (cache_run codec capacity ttl pre)) = Some token \<and>
        (\<forall>x \<in> set post. \<not> clears codec u (snd x)))"

lemma answered_by_snoc:
  "answered_by codec capacity ttl ops u v t \<Longrightarrow> \<not> clears codec u op \<Longrightarrow> answered_by codec capacity ttl (ops @ [(now, op)]) u v t"
  "stores u v (cache_run codec capacity ttl ops) op \<Longrightarrow> answered_by codec capacity ttl (ops @ [(now, op)]) u v now"
  unfolding answered_by_def by fastforce+

lemma refreshed_by_snoc:
  "refreshed_by codec capacity ttl ops u token \<Longrightarrow> \<not> clears codec u op \<Longrightarrow> refreshed_by codec capacity ttl (ops @ [(now, op)]) u token"
  "fst (start_refresh u (cache_run codec capacity ttl ops)) = Some token \<Longrightarrow>
   refreshed_by codec capacity ttl (ops @ [(now, OpStart u)]) u token"
  unfolding refreshed_by_def by fastforce+

lemma map_of_lru_remove: "map_of (lru_remove w l) u = (if u = w then None else map_of l u)"
  by (induction l) (auto simp: lru_remove_def)

lemma map_of_drop:
  assumes "distinct (map fst l)" "map_of (drop k l) u = Some e"
  shows "map_of l u = Some e"
proof -
  have "(u, e) \<in> set l"
    using assms(2) by (blast dest: map_of_SomeD in_set_dropD)
  with assms(1) show ?thesis
    by simp
qed

lemma lru_insert_lookup:
  assumes "distinct (map fst l)" "map_of (lru_insert capacity w e' l) u = Some e"
  shows "if u = w then e = e' else map_of l u = Some e"
proof -
  let ?k = "Suc (length (lru_remove w l)) - capacity"
  have d: "distinct (map fst (lru_remove w l))"
    using assms(1) by (simp add: lru_remove_def distinct_map_filter)
  have look: "map_of (drop ?k (lru_remove w l)) u = Some x \<Longrightarrow> u \<noteq> w \<and> map_of l u = Some x" for x
    using map_of_drop [OF d] by (fastforce simp: map_of_lru_remove split: if_splits)
  show ?thesis
    using assms(2) look by (auto simp: lru_insert_def Let_def map_add_Some_iff split: if_splits)
qed

lemma lru_store_lookup:
  assumes "distinct (map fst l)" "map_of (lru_store codec capacity ttl now w v l) u = Some e"
  shows "map_of l u = Some e \<and> \<not> (w = u \<and> (retired v \<or> coded (encode_schema codec) v \<noteq> None)) \<or>
    w = u \<and> \<not> retired v \<and> coded (encode_schema codec) v = Some (ce_value e) \<and> ce_expires_at e = now + ttl"
proof (cases "retired v")
  case True
  with assms(2) show ?thesis
    by (auto simp: lru_store_def retired_def map_of_lru_remove split: if_splits)
next
  case False
  then have store: "lru_store codec capacity ttl now w v l =
      (case coded (encode_schema codec) v of None \<Rightarrow> l
       | Some encoded \<Rightarrow> lru_insert capacity w \<lparr>ce_value = encoded, ce_expires_at = now + ttl\<rparr> l)"
    by (simp add: lru_store_def retired_def)
  show ?thesis
  proof (cases "coded (encode_schema codec) v")
    case (Some encoded)
    with assms(2) store lru_insert_lookup [OF assms(1), of capacity w _ u e] False show ?thesis
      by (cases "u = w") fastforce+
  qed (use store assms(2) False in simp)
qed

lemma distinct_contents: "cache_ok s \<Longrightarrow> distinct (map fst (contents s))"
  by (simp add: cache_ok_def contents_def comp_def)

lemma lru_touch_lookup: "map_of (lru_touch w l) u = map_of l u"
  by (auto simp: lru_touch_def map_of_lru_remove map_add_def split: option.split)

lemma cache_step_entry:
  assumes ok: "cache_ok s" and cap: "0 < capacity"
    and look: "map_of (contents (cache_step codec capacity ttl now op s)) u = Some e"
  shows "map_of (contents s) u = Some e \<and> \<not> clears codec u op \<or>
    (\<exists>v. stores u v s op \<and> coded (encode_schema codec) v = Some (ce_value e) \<and> ce_expires_at e = now + ttl)"
proof (cases op)
  case (OpInsert w v)
  then have "map_of (lru_store codec capacity ttl now w v (contents s)) u = Some e"
    using look cache_insert_refines [OF ok cap, of codec ttl now w v] by simp
  from lru_store_lookup [OF distinct_contents [OF ok] this] OpInsert show ?thesis
    by (auto simp: clears_def stores_def)
next
  case (OpGet w)
  then show ?thesis
    using look cache_lookup_refines [OF ok, of codec now w] by (simp add: cache_get_state lru_touch_lookup clears_def)
next
  case (OpInvalidate w)
  then show ?thesis
    using look invalidate_refines [OF ok, of w] by (auto simp: map_of_lru_remove clears_def split: if_splits)
next
  case (OpEvent event)
  have "map_of (contents (snd (invalidate w s))) u = Some e \<Longrightarrow> map_of (contents s) u = Some e \<and> u \<noteq> w" for w
    using invalidate_refines [OF ok, of w] by (auto simp: map_of_lru_remove split: if_splits)
  with OpEvent look show ?thesis
    by (cases event) (fastforce simp: invalidate_for_event_def clears_def)+
next
  case (OpStart w)
  then show ?thesis
    using look contents_frame [OF start_refresh_frame(1,2), of w s] by (simp add: clears_def)
next
  case (OpFinish w token r)
  consider "map_of (contents s) u = Some e"
    | v where "r = Inr v" "cs_refreshing s w = Some token"
      "map_of (lru_store codec capacity ttl now w v (contents s)) u = Some e"
    using look OpFinish finish_refresh_refines [OF ok cap, of codec ttl now w token r] by auto
  then show ?thesis
  proof cases
    case 1
    with OpFinish show ?thesis
      by (simp add: clears_def)
  next
    case 2
    from lru_store_lookup [OF distinct_contents [OF ok] 2(3)] 2(1,2) OpFinish show ?thesis
      by (auto simp: clears_def stores_def)
  qed
next
  case (OpCancel w token)
  then show ?thesis
    using look contents_frame [OF start_refresh_frame(3,4), of w token s] by (simp add: clears_def)
qed

lemma insert_encoded_refreshing [simp]: "cs_refreshing (insert_encoded capacity ttl now u v s) = cs_refreshing s"
  by (simp add: insert_encoded_def remove_entry_def Let_def split: prod.split)

lemma cache_step_refreshing:
  assumes "cs_refreshing (cache_step codec capacity ttl now op s) u = Some token"
  shows "cs_refreshing s u = Some token \<and> \<not> clears codec u op \<or> op = OpStart u \<and> fst (start_refresh u s) = Some token"
proof (cases op)
  case (OpInsert w v)
  show ?thesis
  proof (cases "coded (encode_schema codec) v")
    case None
    with OpInsert assms show ?thesis
      by (auto simp: cache_insert_def invalidate_def remove_entry_def clears_def retired_def split: if_splits option.splits)
  next
    case (Some encoded)
    with OpInsert assms show ?thesis
      by (auto simp: cache_insert_def invalidate_def remove_entry_def clears_def split: if_splits)
  qed
next
  case (OpGet w)
  then show ?thesis
    using assms by (auto simp: cache_get_state cache_lookup_def touch_def clears_def Let_def split: option.splits if_splits)
next
  case (OpFinish w t r)
  have "cs_refreshing (finish_refresh codec capacity ttl now w t r s) u = Some token \<Longrightarrow> cs_refreshing s u = Some token"
    by (auto simp: finish_refresh_def Let_def remove_entry_def split: if_splits option.splits)
  with OpFinish assms show ?thesis
    by (simp add: clears_def)
next
  case (OpEvent event)
  with assms show ?thesis
    by (cases event) (auto simp: invalidate_for_event_def invalidate_def remove_entry_def clears_def split: if_splits)
qed (use assms in \<open>auto simp: invalidate_def remove_entry_def start_refresh_def cancel_refresh_def clears_def split: if_splits\<close>)

lemma cache_run_provenance:
  assumes "0 < capacity"
  shows "map_of (contents (cache_run codec capacity ttl ops)) u = Some e \<Longrightarrow>
      \<exists>v t. answered_by codec capacity ttl ops u v t \<and> coded (encode_schema codec) v = Some (ce_value e) \<and>
        ce_expires_at e = t + ttl"
    and "cs_refreshing (cache_run codec capacity ttl ops) u = Some token \<Longrightarrow> refreshed_by codec capacity ttl ops u token"
proof (induction ops rule: rev_induct)
  case (snoc x ops)
  obtain now op where x: "x = (now, op)"
    by (cases x)
  {
    case 1
    from cache_step_entry [OF _ assms, of "cache_run codec capacity ttl ops" codec ttl now op u e]
      1 x cache_run_ok [OF assms, of codec ttl ops]
    show ?case
      using snoc.IH(1) answered_by_snoc by (metis cache_run_simps(2))
  next
    case 2
    from cache_step_refreshing [of codec capacity ttl now op "cache_run codec capacity ttl ops" u token] 2 x show ?case
      using snoc.IH(2) refreshed_by_snoc by (metis cache_run_simps(2))
  }
qed (simp_all add: new_cache_def contents_def)

definition lawful :: "schema_codec \<Rightarrow> bool" where
  "lawful codec \<longleftrightarrow> (\<forall>r encoded. encode_schema codec r = Some encoded \<longrightarrow> decode_schema codec encoded = Some r)"

lemma coded_inverse:
  "lawful codec \<Longrightarrow> coded (encode_schema codec) v = Some encoded \<Longrightarrow> coded (decode_schema codec) encoded = Some v"
  by (auto simp: lawful_def coded_def split: option.splits)

lemma cache_get_entry:
  assumes "cache_ok s" "map_of (contents s) u = Some e" "coded (decode_schema codec) (ce_value e) = Some v"
  shows "fst (cache_get codec now u s) = Inr (if ce_expires_at e \<le> now then None else Some v)"
  using assms by (auto simp: cache_get_def cache_lookup_def map_of_contents Let_def)

lemma cache_get_absent:
  assumes "cache_ok s" "map_of (contents s) u = None"
  shows "fst (cache_get codec now u s) = Inr None"
  using assms by (simp add: cache_get_def cache_lookup_def map_of_contents)

lemma lru_insert_same: "map_of (lru_insert capacity u e l) u = Some e"
proof -
  have "u \<notin> fst ` set (drop k (lru_remove u l))" for k
    by (auto simp: lru_remove_def dest: in_set_dropD)
  then show ?thesis
    by (simp add: lru_insert_def Let_def map_add_def map_of_eq_None_iff [symmetric] split: option.split)
qed


definition sample_record :: schema_record where
  "sample_record = \<lparr>sr_uid = small_uid, sr_resolver = Contract 30, sr_revocable = True, sr_schema = small_schema,
     sr_deprecated = False, sr_parent_schema_uid = None\<rparr>"

definition sample_codec :: schema_codec where
  "sample_codec = \<lparr>encode_schema = (\<lambda>r. if r = sample_record then Some [1] else None),
     decode_schema = (\<lambda>encoded. if encoded = [1] then Some sample_record else None)\<rparr>"


section \<open>The builder\<close>

record schema_builder =
  bd_schema :: bytes
  bd_resolver :: "bytes option"
  bd_revocable :: bool
  bd_max_ttl :: u64

definition new_builder :: schema_builder where
  "new_builder = \<lparr>bd_schema = [], bd_resolver = None, bd_revocable = False, bd_max_ttl = 0\<rparr>"

definition with_schema :: "bytes \<Rightarrow> schema_builder \<Rightarrow> schema_builder" where
  "with_schema schema b = b\<lparr>bd_schema := schema\<rparr>"

definition with_resolver :: "bytes \<Rightarrow> schema_builder \<Rightarrow> schema_builder" where
  "with_resolver addr b = b\<lparr>bd_resolver := Some addr\<rparr>"

definition with_revocable :: "bool \<Rightarrow> schema_builder \<Rightarrow> schema_builder" where
  "with_revocable flag b = b\<lparr>bd_revocable := flag\<rparr>"

definition with_max_ttl :: "u64 \<Rightarrow> schema_builder \<Rightarrow> schema_builder" where
  "with_max_ttl ttl b = b\<lparr>bd_max_ttl := ttl\<rparr>"

text \<open>The strkey decoder of the host panics on an ill-formed address, which makes the result \<open>None\<close>.\<close>

definition build :: "host \<Rightarrow> (bytes \<Rightarrow> address option) \<Rightarrow> schema_builder \<Rightarrow> (sdk_error + schema_record) option" where
  "build h address_from_string b =
     (case validate_schema_syntax (bd_schema b) of
        Inl _ \<Rightarrow> Some (Inl RpcError)
      | Inr _ \<Rightarrow>
          (case bd_resolver b of
             None \<Rightarrow> Some (Inl RpcError)
           | Some resolver \<Rightarrow>
               (case address_from_string resolver of
                  None \<Rightarrow> None
                | Some resolver \<Rightarrow>
                    let payload = to_xdr h (XString (bd_schema b)) @ to_xdr h (XAddress resolver) @ [of_bool (bd_revocable b)];
                        u = sha256 h payload in
                    Some (Inr \<lparr>sr_uid = u, sr_resolver = resolver, sr_revocable = bd_revocable b,
                      sr_schema = bd_schema b, sr_deprecated = False, sr_parent_schema_uid = None\<rparr>))))"

lemma built_record:
  "build h address_from_string b = Some (Inr r) \<Longrightarrow>
   r = \<lparr>sr_uid = schema_uid h (bd_schema b) (sr_resolver r) (bd_revocable b), sr_resolver = sr_resolver r,
     sr_revocable = bd_revocable b, sr_schema = bd_schema b, sr_deprecated = False, sr_parent_schema_uid = None\<rparr>"
  by (auto simp: build_def schema_uid_def Let_def split: sum.splits option.splits)

lemma registered_with_ttl:
  assumes "register_with_ttl h env owner schema resolver revocable max_ttl s = Inr (u, s')"
  shows "u = schema_uid h schema resolver revocable \<and> rg_schemas s u = None \<and> rg_creators s' u = Some owner \<and>
    rg_schemas s' u = Some \<lparr>sr_uid = u, sr_resolver = resolver, sr_revocable = revocable, sr_schema = schema,
      sr_deprecated = False, sr_parent_schema_uid = None\<rparr>"
proof -
  from assms have "new_schema h owner schema resolver revocable None s u s'"
    by (auto simp: register_with_ttl_def bind_r_Inr_iff dest: register_internal_effect)
  then show ?thesis
    unfolding new_schema_def by auto
qed

text \<open>
  C27: The record that the builder computes off chain is the one the registry stores: if a builder yields a record and
  the registration of the same definition, resolver, flag and time-to-live succeeds, the registry returns the UID of
  that record, had no schema under it, and stores exactly that record for the registering owner. The builder yields a
  record exactly for a definition that passes the registry's grammar check and a resolver address that decodes.
\<close>

theorem built_record_registered:
  "((\<exists>r. build h address_from_string b = Some (Inr r)) \<longleftrightarrow>
      validate_schema_syntax (bd_schema b) = Inr () \<and>
      (\<exists>resolver. bd_resolver b = Some resolver \<and> address_from_string resolver \<noteq> None)) \<and>
   (\<forall>r env owner s u s'. build h address_from_string b = Some (Inr r) \<and>
      register_with_ttl h env owner (bd_schema b) (sr_resolver r) (bd_revocable b) (bd_max_ttl b) s = Inr (u, s') \<longrightarrow>
      u = sr_uid r \<and> rg_schemas s u = None \<and> rg_schemas s' u = Some r \<and> rg_creators s' u = Some owner)"
proof (rule conjI)
  show "(\<exists>r. build h address_from_string b = Some (Inr r)) \<longleftrightarrow>
      validate_schema_syntax (bd_schema b) = Inr () \<and>
      (\<exists>resolver. bd_resolver b = Some resolver \<and> address_from_string resolver \<noteq> None)"
    by (auto simp: build_def Let_def split: sum.splits option.splits)
  have "u = sr_uid r \<and> rg_schemas s u = None \<and> rg_schemas s' u = Some r \<and> rg_creators s' u = Some owner"
    if "build h address_from_string b = Some (Inr r)"
      "register_with_ttl h env owner (bd_schema b) (sr_resolver r) (bd_revocable b) (bd_max_ttl b) s = Inr (u, s')"
    for r env owner s u s'
    using built_record [OF that(1)] registered_with_ttl [OF that(2)] by (metis schema_record.select_convs(1))
  then show "\<forall>r env owner s u s'. build h address_from_string b = Some (Inr r) \<and>
      register_with_ttl h env owner (bd_schema b) (sr_resolver r) (bd_revocable b) (bd_max_ttl b) s = Inr (u, s') \<longrightarrow>
      u = sr_uid r \<and> rg_schemas s u = None \<and> rg_schemas s' u = Some r \<and> rg_creators s' u = Some owner"
    by blast
qed

theorem built_record_registered_witness:
  "let b = with_revocable True (with_resolver [67] (with_schema small_schema new_builder)) in
   \<exists>r s. build toy_host (\<lambda>_. Some (Contract 30)) b = Some (Inr r) \<and>
     register_with_ttl toy_host sample_env (Account 7) small_schema (sr_resolver r) True 0 fresh_registry = Inr (sr_uid r, s) \<and>
     rg_schemas s (sr_uid r) = Some r"
proof -
  define b where "b = with_revocable True (with_resolver [67] (with_schema small_schema new_builder))"
  have b: "bd_schema b = small_schema" "bd_resolver b = Some [67]" "bd_revocable b" "bd_max_ttl b = 0"
    by (simp_all add: b_def with_revocable_def with_resolver_def with_schema_def new_builder_def)
  note built = built_record_registered [of toy_host "\<lambda>_. Some (Contract 30)" b]
  from built obtain r where r: "build toy_host (\<lambda>_. Some (Contract 30)) b = Some (Inr r)"
    using b sample_schemas_valid by auto
  then have res: "sr_resolver r = Contract 30"
    by (auto simp: build_def Let_def split: sum.splits option.splits)
  obtain s where s: "register_with_ttl toy_host sample_env (Account 7) small_schema (Contract 30) True 0 fresh_registry
      = Inr (small_uid, s)"
    using sample_registration by (auto simp: register_def register_with_ttl_def)
  with built r b res have "small_uid = sr_uid r \<and> rg_schemas s small_uid = Some r"
    by metis
  with r s res show ?thesis
    by (auto simp: Let_def b_def [symmetric])
qed

end
