(* ===== verification/Sdk_Retry.thy ===== *)
theory Sdk_Retry
  imports Prelude
begin

text \<open>
  Retries of RPC calls in the Rust SDK (\<^verbatim>\<open>packages/soroban-sas-sdk/src/retry.rs\<close>): which failures are worth a retry, how
  long to wait before the next attempt, and the loop that runs an operation until it succeeds, fails for good or has
  used up its attempts. Durations are in milliseconds. The operation is a parameter: what it returns at an attempt.
\<close>

section \<open>Policy\<close>

datatype rpc_error_kind = RateLimited | GatewayTimeout | Transport | OtherError

definition from_status :: "nat \<Rightarrow> rpc_error_kind" where
  "from_status status = (if status = 429 then RateLimited else if status = 504 then GatewayTimeout else OtherError)"

definition is_retryable :: "rpc_error_kind \<Rightarrow> bool" where
  "is_retryable kind = (case kind of RateLimited \<Rightarrow> True | GatewayTimeout \<Rightarrow> True | Transport \<Rightarrow> True | OtherError \<Rightarrow> False)"

record exponential_backoff =
  base_delay :: nat
  max_delay :: nat
  multiplier :: nat
  max_attempts :: nat
  jitter_millis :: nat

definition default_backoff :: exponential_backoff where
  "default_backoff = \<lparr>base_delay = 250, max_delay = 30000, multiplier = 2, max_attempts = 6, jitter_millis = 50\<rparr>"

definition saturating_pow_u32 :: "nat \<Rightarrow> nat \<Rightarrow> nat" where
  "saturating_pow_u32 b e = min u32_max (b ^ e)"

definition u128_max :: nat where "u128_max = 2 ^ 128 - 1"

definition delay_for_attempt :: "exponential_backoff \<Rightarrow> nat \<Rightarrow> nat" where
  "delay_for_attempt b attempt =
     (let exponent = min attempt 32;
          factor = saturating_pow_u32 (multiplier b) exponent;
          raw_millis = min u128_max (base_delay b * factor);
          jitter = (if jitter_millis b = 0 then 0 else attempt mod jitter_millis b);
          millis = min u128_max (raw_millis + jitter) in
      min millis (max_delay b) mod 2 ^ 64)"

definition backoff_should_retry :: "exponential_backoff \<Rightarrow> nat \<Rightarrow> bool" where
  "backoff_should_retry b attempt = (attempt < max_attempts b)"

definition should_retry :: "exponential_backoff \<Rightarrow> nat \<Rightarrow> rpc_error_kind \<Rightarrow> bool" where
  "should_retry b attempt kind = (is_retryable kind \<and> backoff_should_retry b attempt)"

text \<open>The code of a JSON-RPC error, where the payload has one.\<close>

definition classify_rpc_payload :: "int option \<Rightarrow> rpc_error_kind" where
  "classify_rpc_payload code =
     (case code of
        Some c \<Rightarrow> if c = -32033 then RateLimited else if c = -32000 then GatewayTimeout else OtherError
      | None \<Rightarrow> OtherError)"

section \<open>The retry loop\<close>

text \<open>\<open>execute_async\<close> from a given attempt on: the result, and the delays slept before the next attempts.\<close>

function execute_from ::
  "exponential_backoff \<Rightarrow> (nat \<Rightarrow> rpc_error_kind + 'a) \<Rightarrow> nat \<Rightarrow> nat list \<Rightarrow> (rpc_error_kind + 'a) \<times> nat list" where
  "execute_from b attempt_fn attempt slept =
     (case attempt_fn attempt of
        Inr v \<Rightarrow> (Inr v, slept)
      | Inl kind \<Rightarrow>
          if \<not> should_retry b attempt kind then (Inl kind, slept)
          else execute_from b attempt_fn (attempt + 1) (slept @ [delay_for_attempt b attempt]))"
  by pat_completeness auto
termination
  by (relation "measure (\<lambda>(b, f, attempt, slept). max_attempts b - attempt)")
    (auto simp: should_retry_def backoff_should_retry_def)

declare execute_from.simps [simp del]

definition execute_async :: "exponential_backoff \<Rightarrow> (nat \<Rightarrow> rpc_error_kind + 'a) \<Rightarrow> (rpc_error_kind + 'a) \<times> nat list" where
  "execute_async b attempt_fn = execute_from b attempt_fn 0 []"

section \<open>Properties\<close>

lemma delay_bounded: "delay_for_attempt b attempt \<le> max_delay b"
proof -
  have "min m (max_delay b) mod 2 ^ 64 \<le> max_delay b" for m :: nat
    by (meson min.cobounded2 mod_less_eq_dividend order_trans)
  then show ?thesis
    by (simp add: delay_for_attempt_def Let_def)
qed

text \<open>Without jitter, and while the cap fits 64 bits, delays never shrink from one attempt to the next.\<close>

lemma delay_monotone:
  assumes "jitter_millis b = 0" "max_delay b < 2 ^ 64" "0 < multiplier b" "i \<le> j"
  shows "delay_for_attempt b i \<le> delay_for_attempt b j"
proof -
  have "multiplier b ^ min i 32 \<le> multiplier b ^ min j 32"
    using assms by (intro power_increasing) auto
  then have le: "base_delay b * saturating_pow_u32 (multiplier b) (min i 32)
      \<le> base_delay b * saturating_pow_u32 (multiplier b) (min j 32)"
    by (intro mult_le_mono2) (auto simp: saturating_pow_u32_def)
  have fits: "delay_for_attempt b k =
      min (min u128_max (min u128_max (base_delay b * saturating_pow_u32 (multiplier b) (min k 32)))) (max_delay b)" for k
    unfolding delay_for_attempt_def Let_def assms(1) using assms(2) by (simp add: min_less_iff_disj del: min.left_idem)
  show ?thesis
    unfolding fits by (intro min.mono le order_refl)
qed

text \<open>The attempt at which the loop stops: the first that succeeds, fails for good, or is the last one allowed.\<close>

definition stops_at :: "exponential_backoff \<Rightarrow> (nat \<Rightarrow> rpc_error_kind + 'a) \<Rightarrow> nat \<Rightarrow> bool" where
  "stops_at b f n \<longleftrightarrow> (case f n of Inr _ \<Rightarrow> True | Inl kind \<Rightarrow> \<not> is_retryable kind) \<or> max_attempts b \<le> n"

lemma execute_from_stops:
  assumes "attempt \<le> n" "stops_at b f n" "\<And>i. attempt \<le> i \<Longrightarrow> i < n \<Longrightarrow> \<not> stops_at b f i"
  shows "execute_from b f attempt slept = (f n, slept @ map (delay_for_attempt b) [attempt..<n])"
  using assms
proof (induction b f attempt slept rule: execute_from.induct)
  case (1 b f attempt slept)
  show ?case
  proof (cases "attempt = n")
    case True
    with 1(3) show ?thesis
      by (subst execute_from.simps)
        (auto simp: stops_at_def should_retry_def backoff_should_retry_def split: sum.splits)
  next
    case False
    with 1(2,4) have "\<not> stops_at b f attempt"
      by simp
    then obtain kind where kind: "f attempt = Inl kind" "should_retry b attempt kind"
      by (auto simp: stops_at_def should_retry_def backoff_should_retry_def split: sum.splits)
    have "execute_from b f (attempt + 1) (slept @ [delay_for_attempt b attempt])
        = (f n, (slept @ [delay_for_attempt b attempt]) @ map (delay_for_attempt b) [attempt + 1..<n])"
      using 1(1) [OF kind(1)] kind(2) 1(2-4) False by simp
    moreover have "[attempt..<n] = attempt # [attempt + 1..<n]"
      using 1(2) False by (simp add: upt_conv_Cons)
    ultimately show ?thesis
      using kind by (subst execute_from.simps) simp
  qed
qed

text \<open>
  C40: The retry loop ends, and at the right attempt. Whatever the operation does, \<^verbatim>\<open>execute_async\<close> returns what it
  returned at the first attempt that succeeded, failed for a reason that is not retryable, or exhausted the allowed
  attempts; it makes at most one attempt more than allowed retries, and before each retry it sleeps the policy's delay for that
  attempt, which never exceeds the maximum.
\<close>

theorem retry_exact:
  "\<exists>n. n \<le> max_attempts b \<and> stops_at b f n \<and> (\<forall>i<n. \<not> stops_at b f i) \<and>
    execute_async b f = (f n, map (delay_for_attempt b) [0..<n]) \<and>
    (\<forall>d\<in>set (snd (execute_async b f)). d \<le> max_delay b)"
proof -
  define n where "n = (LEAST n. stops_at b f n)"
  have "stops_at b f (max_attempts b)"
    by (simp add: stops_at_def)
  then have n: "stops_at b f n" "n \<le> max_attempts b"
    unfolding n_def by (rule LeastI, rule Least_le)
  have least: "\<not> stops_at b f i" if "i < n" for i
    using that not_less_Least unfolding n_def by blast
  have "execute_async b f = (f n, map (delay_for_attempt b) [0..<n])"
    using execute_from_stops [of 0 n b f "[]"] n least by (simp add: execute_async_def)
  with n least show ?thesis
    using delay_bounded by (intro exI [of _ n]) auto
qed

theorem retry_exact_witness:
  "execute_async default_backoff (\<lambda>n. if n < 2 then Inl RateLimited else Inr n) = (Inr 2, [250, 501])"
proof -
  define f where "f = (\<lambda>n. if n < 2 then Inl RateLimited else Inr (n :: nat))"
  obtain n where n: "stops_at default_backoff f n" "\<forall>i<n. \<not> stops_at default_backoff f i"
    "execute_async default_backoff f = (f n, map (delay_for_attempt default_backoff) [0..<n])"
    using retry_exact [of default_backoff f] by blast
  have "stops_at default_backoff f 2" "\<not> stops_at default_backoff f 0" "\<not> stops_at default_backoff f 1"
    by (simp_all add: stops_at_def is_retryable_def default_backoff_def f_def)
  then have "n \<noteq> 0" "n \<noteq> 1" "\<not> 2 < n"
    using n(1,2) by metis+
  then have "n = 2"
    by linarith
  then have "execute_async default_backoff f = (Inr 2, [250, 501])"
    using n(3) by (simp add: f_def delay_for_attempt_def default_backoff_def saturating_pow_u32_def u32_max_def u128_max_def upt_rec)
  then show ?thesis
    by (simp add: f_def)
qed

end
