(* ===== verification/Spec2Isabelle.thy ===== *)
theory Spec2Isabelle
  imports Sas_System Protocol Zk_Verifier Cross_Chain Eip712 Sdk_Schema Sdk_Retry
begin

text \<open>
  \<^bold>\<open>The Soroban attestation service\<close>

  The repository implements attestations on the Soroban smart-contract platform. An attester states something about a
  recipient under a registered schema; the SAS contract stores the statement under the hash of its content, lets it be
  revoked, renewed or replaced, and answers whether it is valid. This development models the contracts, the library
  code they share, and the parts of the Rust SDK that keep state or compute, and proves what they promise. The other
  off-chain clients and tools are not modelled, see below.

  \<^bold>\<open>Parts and how they interact\<close>

  \<^item> \<^verbatim>\<open>contracts/sas\<close> is the core. Before it stores an attestation it asks the schema registry for the schema, its status,
    its maximal lifetime, its revocation policy and the rights of the attester, calls \<^verbatim>\<open>on_attest\<close> of the schema's
    resolver, and then tells the indexer. It calls \<^verbatim>\<open>on_revoke\<close> and the indexer when an attestation is revoked.
  \<^item> \<^verbatim>\<open>contracts/schema-registry\<close> holds schemas under the hash of their content, their owners, delegates and attributes.
  \<^item> \<^verbatim>\<open>contracts/indexer\<close> holds chunked histories of the UIDs by schema, recipient, attester and expiration status.
  \<^item> \<^verbatim>\<open>contracts/*-resolver\<close> are policies that a schema can name: permissive, blacklist, time window, token gate, and
    multisig with its alias endorsement.
  \<^item> \<^verbatim>\<open>contracts/zk-verifier\<close> accepts proofs about private statements once per nullifier and asks SAS about the attestation.
  \<^item> \<^verbatim>\<open>contracts/cross-chain-verifier\<close> records verdicts about attestations that live on another chain.
  \<^item> \<^verbatim>\<open>packages/soroban-sas-common\<close> holds the types, errors, validators, signed payloads, Merkle trees and EIP-712 hashing.
  \<^item> \<^verbatim>\<open>packages/soroban-sas-sdk\<close> is the client library: it reserves sequence numbers, retries calls, caches schemas and
    computes schema records off chain.

  \<^bold>\<open>How code becomes definitions\<close>

  A contract is a record of its storage, an entry point a function from the invocation (\<open>ledger_env\<close>: time, sequence,
  network, contract address, authorizations) and the state to a result. Results are values: \<open>Inl (Panic e)\<close> is
  \<^verbatim>\<open>panic_with_error!\<close> or a returned error, \<open>Inl HostTrap\<close> a trap of the host, \<open>Inr\<close> success; a failing call leaves no
  trace because the host discards its writes. \<^verbatim>\<open>u64\<close> values are 64-bit words, \<^verbatim>\<open>u32\<close> counters are natural numbers whose
  additions trap beyond \<open>u32_max\<close>, \<^verbatim>\<open>i128\<close> amounts are integers with saturation written out, \<^verbatim>\<open>BytesN<32>\<close> is a 256-bit word and
  \<^verbatim>\<open>Bytes\<close> a list of bytes. Storage maps are partial functions, event logs are lists. The hash functions, Ed25519, the
  XDR encoding (record \<open>host\<close>), token contracts, the Axelar gateway and strkey decoding are parameters. Nothing is assumed of
  them except where a property names it: a collision of the hash on listed inputs appears as an alternative of the
  conclusion or as absence on those inputs, and \<open>xdr_address_shape\<close> states the XDR form of addresses.

  \<^bold>\<open>Theories\<close>

  \<^item> \<open>Prelude\<close>: machine types, results and their inversion rules (collection \<open>result_iff\<close>), checked arithmetic, byte arrays.
  \<^item> \<open>Common_Types\<close>: \<^verbatim>\<open>lib.rs\<close> and \<^verbatim>\<open>errors.rs\<close> of the common package. The compact storage layout reads back what was stored.
  \<^item> \<open>Typed_Data\<close>: \<^verbatim>\<open>typed_data.rs\<close> and \<^verbatim>\<open>frost.rs\<close>. A signed digest determines the domain and every covered field, and
    different signed actions have different inputs.
  \<^item> \<open>Eip712\<close>: \<^verbatim>\<open>eip712.rs\<close>. The type string is canonical and the digest binds all nested values; the literal tags list the
    declared fields.
  \<^item> \<open>Merkle\<close>: \<^verbatim>\<open>merkle.rs\<close> and \<^verbatim>\<open>merkle_disclosure.rs\<close>. Proofs exist for all leaves and only for them.
  \<^item> \<open>Schema_Syntax\<close>: \<^verbatim>\<open>validation.rs\<close>. The scanner ends and accepts exactly a grammar.
  \<^item> \<open>Sas_State\<close>, \<open>Sas_Core\<close>, \<open>Sas_Keys\<close>, \<open>Sas_Entry\<close>, \<open>Sas_Batch\<close>, \<open>Sas_Fees\<close>, \<open>Sas_Admin\<close>: \<^verbatim>\<open>contracts/sas/src/lib.rs\<close> and
    \<^verbatim>\<open>timestamp.rs\<close>: the storage, the internal operations, keys and nonces, and the entry points. The calls to other
    contracts go through the record \<open>externs\<close>. Each entry point has an effect lemma and the properties that follow from it.
  \<^item> \<open>Store_Spec\<close>: what the store promises, as transitions of the map that a reader sees; the storage refines it.
  \<^item> \<open>Sas_System\<close>: the contract as a step relation over all its state-changing entry points; invariants of all runs.
  \<^item> \<open>Registry_State\<close>, \<open>Registry\<close>, \<open>Registry_Write\<close>: \<^verbatim>\<open>contracts/schema-registry\<close>. \<open>Registry_Inv\<close> has its step relation and
    invariant, \<open>Registry_Props\<close> and \<open>Registry_Life\<close> its properties over all runs.
  \<^item> \<open>Indexer\<close>: \<^verbatim>\<open>contracts/indexer\<close>. \<open>Indexer_Log\<close> shows that the chunks simulate a log, \<open>Indexer_Props\<close> what queries return.
  \<^item> \<open>Resolvers\<close>, \<open>Resolver_Props\<close>: the resolver contracts; the cooldown and the endorsement threshold.
  \<^item> \<open>Zk_Verifier\<close>, \<open>Cross_Chain\<close>: these contracts, each with its runs and its acceptance condition.
  \<^item> \<open>Sdk_Sequence\<close>, \<open>Sdk_Retry\<close>, \<open>Sdk_Schema\<close>: \<^verbatim>\<open>sequence.rs\<close>, \<^verbatim>\<open>retry.rs\<close>, \<^verbatim>\<open>schema_cache.rs\<close> and \<^verbatim>\<open>schema_builder.rs\<close> of the
    SDK. The cache refines a list of entries in order of use. A node's answers, clocks and the XDR codec are parameters.
  \<^item> \<open>Protocol\<close>: the registry, the resolvers and the indexer as the \<open>externs\<close> of SAS, and issuance and revocation across them.
  \<^item> \<open>Samples\<close>: a concrete setting in which the hypotheses of the properties hold.

  \<^bold>\<open>Interfaces\<close>

  The locale \<open>attestation_store\<close> (reading after writing) is interpreted by the storage of SAS; \<open>nonce_watermark\<close> by the
  delegation and by the consent nonces; \<open>paged_log\<close> by the schema, recipient and attester queries of the indexer;
  \<open>registry_binding\<close>, \<open>indexer_binding\<close> and their union \<open>protocol_binding\<close>, what SAS relies on when it calls the
  other contracts, by the modelled registry and indexer in \<open>Protocol\<close>.

  \<^bold>\<open>What is shown\<close>

  \<^item> Across contracts: an accepted attestation satisfies registry, policy and resolver and is indexed or its failure is
    published; a revoked one neither verifies nor shows up in active views any more.
  \<^item> Over all runs of SAS: records lie under their content hash with matching anchors, live records keep their payload and
    are only extended, spent nonces and nullifiers stay spent, pausing freezes records, and the administrator changes by consent.
  \<^item> For single calls of SAS: issuance, revocation, replacement, batches, delegated and paid issuance change exactly what
    they should and carry the authority they need; quotas and fees are exact; migration is invisible.
  \<^item> Registry: an invariant of all reachable states, immutability of schemas, ownership by consent, complete listings.
  \<^item> Indexer: refinement of an append-only log, complete paging, exact filtering; and one defect, stated as a theorem.
  \<^item> Resolvers, verifiers and hashing: exact acceptance conditions, round trip of the wire format, binding of digests.
  \<^item> SDK: outstanding reservations have different sequence numbers, the retry loop ends at the right attempt, the cache
    serves only current answers, and the builder computes the record that the registry stores.

  \<^bold>\<open>Bounds and termination\<close>

  All loops are total functions. The walk over predecessors has 65 rounds of fuel and the walk over parents 33, the
  limits at which the code stops with an error. The dependency search of \<open>encode_type\<close> keeps the code's depth budget,
  which is shown to cut nothing off. Ledger time and sequence do not decrease between the calls of a run.

  \<^bold>\<open>Not modelled, and why\<close>

  \<^item> Storage lifetimes: entries do not expire by archival in the models. The contracts extend lifetimes on access, which has
    no other effect; the amount \<open>compute_storage_ttl\<close> is modelled.
  \<^item> The Soroban host itself: metering, the authorization tree (an invocation carries the set of addresses that
    authorized it), and the ABI encoding of values other than the bytes that are hashed.
  \<^item> Getters that only return a stored configuration value, entry points that forward to another one under a second
    name, and the payloads of events that no property speaks about.
  \<^item> The client, transport and event modules of \<^verbatim>\<open>packages/soroban-sas-sdk\<close>, and \<^verbatim>\<open>soroban-sas-cli\<close>, \<^verbatim>\<open>soroban-sas-js\<close>, \<^verbatim>\<open>soroban-sas-react\<close>, \<^verbatim>\<open>soroban-sas-schema-macro\<close>, \<^verbatim>\<open>tools\<close> and
    \<^verbatim>\<open>examples\<close>: asynchronous clients over HTTP, JSON, XDR and user-interface libraries that are not part of the sources.
  \<^item> Tests, fuzz targets, benches, scripts and deployment descriptions: they define no behaviour of the system.
\<close>

end
